(* ===== verification/Prelude.thy ===== *)
theory Prelude
  imports Main "HOL-Library.Word" "HOL-Library.Code_Target_Nat"
begin

text \<open>
  Shared base of the development: Go's machine integers and bytes, the conversion between
  \<^verbatim>\<open>string\<close> and \<^verbatim>\<open>[]byte\<close>, the byte orders of \<^verbatim>\<open>encoding/binary\<close>, the error values the
  sources return, the state-and-error composition that the sequential I/O code is written with,
  and the collections of rewrite rules the component theories add to.
\<close>

unbundle bit_operations_syntax

named_theorems io_simps \<open>unfolding rules of the state-and-error composition\<close>
named_theorems codec_simps \<open>encode/decode rules of fixed-width values\<close>
named_theorems str_simps \<open>rules of the string operations\<close>

subsection \<open>Bytes, strings and machine integers\<close>

type_synonym byte = "8 word"

text \<open>A Go \<^verbatim>\<open>string\<close> is a byte sequence; here it is a list of 8-bit characters.\<close>

definition byte_of :: "char \<Rightarrow> byte" where
  "byte_of c = word_of_nat (of_char c)"

definition char_of_byte :: "byte \<Rightarrow> char" where
  "char_of_byte b = char_of (unat b)"

text \<open>\<^verbatim>\<open>[]byte(s)\<close> and \<^verbatim>\<open>string(b)\<close>.\<close>

abbreviation bytes_of :: "string \<Rightarrow> byte list" where
  "bytes_of s \<equiv> map byte_of s"

abbreviation string_of :: "byte list \<Rightarrow> string" where
  "string_of bs \<equiv> map char_of_byte bs"

lemma unat_byte_of: "unat (byte_of c) = of_char c"
  by (simp add: byte_of_def unat_of_nat take_bit_eq_mod)

lemma char_of_byte_of [simp]: "char_of_byte (byte_of c) = c"
  by (simp add: char_of_byte_def unat_byte_of)

lemma byte_of_char_of [simp]: "byte_of (char_of_byte b) = b"
proof -
  have "unat b < 2 ^ LENGTH(8)" by (rule unsigned_less)
  then show ?thesis by (simp add: byte_of_def char_of_byte_def)
qed

lemma string_of_bytes_of [simp]: "string_of (bytes_of s) = s"
  by (simp add: comp_def)

lemma bytes_of_string_of [simp]: "bytes_of (string_of bs) = bs"
  by (simp add: comp_def)

lemma char_of_byte_comp [simp]: "char_of_byte \<circ> byte_of = id" "byte_of \<circ> char_of_byte = id"
  by (simp_all add: fun_eq_iff)

lemma byte_of_inject [simp]: "byte_of c = byte_of d \<longleftrightarrow> c = d"
  by (metis char_of_byte_of)

lemma char_of_byte_inject [simp]: "char_of_byte b = char_of_byte c \<longleftrightarrow> b = c"
  by (metis byte_of_char_of)

text \<open>Two's complement reading of a 64-bit result: Go's \<^verbatim>\<open>int\<close> on 64-bit targets.\<close>

definition wrap64 :: "int \<Rightarrow> int" where
  "wrap64 x = (x + 2 ^ 63) mod 2 ^ 64 - 2 ^ 63"

definition int64_range :: "int \<Rightarrow> bool" where
  "int64_range x \<longleftrightarrow> - (2 ^ 63) \<le> x \<and> x < 2 ^ 63"

lemma wrap64_id: "int64_range x \<Longrightarrow> wrap64 x = x"
  by (simp add: wrap64_def int64_range_def)

lemma wrap64_range: "int64_range (wrap64 x)"
proof -
  have "0 \<le> (x + 2 ^ 63) mod 2 ^ 64" and "(x + 2 ^ 63) mod 2 ^ 64 < (2 :: int) ^ 64"
    by simp_all
  then show ?thesis by (simp add: wrap64_def int64_range_def)
qed

text \<open>\<^verbatim>\<open>int(w)\<close> of a signed 32-bit value: two's complement.\<close>

abbreviation int32 :: "32 word \<Rightarrow> int" where
  "int32 w \<equiv> sint w"

subsection \<open>Byte orders\<close>

fun le_bytes :: "nat \<Rightarrow> 'a::len word \<Rightarrow> byte list" where
  "le_bytes 0 w = []"
| "le_bytes (Suc n) w = ucast w # le_bytes n (drop_bit 8 w)"

fun le_word :: "byte list \<Rightarrow> 'a::len word" where
  "le_word [] = 0"
| "le_word (b # bs) = ucast b OR push_bit 8 (le_word bs)"

definition be_bytes :: "nat \<Rightarrow> 'a::len word \<Rightarrow> byte list" where
  "be_bytes n w = rev (le_bytes n w)"

definition be_word :: "byte list \<Rightarrow> 'a::len word" where
  "be_word bs = le_word (rev bs)"

lemma length_le_bytes [simp]: "length (le_bytes n w) = n"
  by (induction n arbitrary: w) auto

lemma le_bytes_eq_Nil [simp]: "le_bytes n w = [] \<longleftrightarrow> n = 0"
  by (metis length_0_conv length_le_bytes)

lemma length_be_bytes [simp]: "length (be_bytes n w) = n"
  by (simp add: be_bytes_def)

lemma le_word_le_bytes: "le_word (le_bytes n w) = take_bit (8 * n) (w :: 'a::len word)"
proof (induction n arbitrary: w)
  case 0
  then show ?case by simp
next
  case (Suc n)
  have "(ucast (ucast w :: byte) OR push_bit 8 (take_bit (8 * n) (drop_bit 8 w)) :: 'a word)
      = take_bit (8 * Suc n) w"
    by (rule bit_word_eqI) (auto simp: bit_simps)
  with Suc.IH show ?case by simp
qed

lemma le_round_trip [codec_simps]:
  "LENGTH('a) \<le> 8 * n \<Longrightarrow> le_word (le_bytes n w) = (w :: 'a::len word)"
  by (simp add: le_word_le_bytes take_bit_word_eq_self)

lemma be_round_trip [codec_simps]:
  "LENGTH('a) \<le> 8 * n \<Longrightarrow> be_word (be_bytes n w) = (w :: 'a::len word)"
  by (simp add: be_word_def be_bytes_def le_round_trip)

lemma le_bytes_cong:
  "take_bit (8 * n) v = take_bit (8 * n) w \<Longrightarrow> le_bytes n v = le_bytes n (w :: 'a::len word)"
proof (induction n arbitrary: v w)
  case 0
  then show ?case by simp
next
  case (Suc n)
  have bits: "bit v i = bit w i" if "i < 8 * Suc n" for i
    using arg_cong [OF Suc.prems, of "\<lambda>x. bit x i"] that by (simp add: bit_take_bit_iff)
  have "ucast v = (ucast w :: byte)"
    by (rule bit_word_eqI) (auto simp: bit_simps bits)
  moreover have "take_bit (8 * n) (drop_bit 8 v) = take_bit (8 * n) (drop_bit 8 w)"
    by (rule bit_word_eqI) (auto simp: bit_simps bits)
  then have "le_bytes n (drop_bit 8 v) = le_bytes n (drop_bit 8 w)" by (rule Suc.IH)
  ultimately show ?case by simp
qed

lemma le_bytes_le_word [codec_simps]:
  "8 * length bs \<le> LENGTH('a) \<Longrightarrow> le_bytes (length bs) (le_word bs :: 'a::len word) = bs"
proof (induction bs)
  case Nil
  then show ?case by simp
next
  case (Cons b bs)
  let ?w = "le_word bs :: 'a word"
  have "ucast (ucast b OR push_bit 8 ?w) = b"
    by (rule bit_word_eqI) (use Cons.prems in \<open>auto simp: bit_simps\<close>)
  moreover have "take_bit (8 * length bs) (drop_bit 8 (ucast b OR push_bit 8 ?w))
      = take_bit (8 * length bs) ?w"
    by (rule bit_word_eqI) (use Cons.prems in \<open>auto simp: bit_simps dest: bit_imp_le_length\<close>)
  ultimately show ?case
    using Cons le_bytes_cong [of "length bs" "drop_bit 8 (ucast b OR push_bit 8 ?w)" ?w] by simp
qed

lemma be_bytes_be_word [codec_simps]:
  "8 * length bs \<le> LENGTH('a) \<Longrightarrow> be_bytes (length bs) (be_word bs :: 'a::len word) = bs"
  using le_bytes_le_word [of "rev bs", where 'a = 'a] by (simp add: be_bytes_def be_word_def)

subsection \<open>Error values\<close>

text \<open>
  The error values the sources create or compare: the sentinels of \<^verbatim>\<open>io\<close>, \<^verbatim>\<open>bufio\<close> and
  \<^verbatim>\<open>context\<close>, \<^verbatim>\<open>ErrTCPClientClosed\<close>, errors made from a message (\<^verbatim>\<open>errors.New\<close>,
  \<^verbatim>\<open>fmt.Errorf\<close>), errors made with \<^verbatim>\<open>%w\<close> (a message prefix and the wrapped error), the
  \<^verbatim>\<open>net.Error\<close> values a connection returns (with the answer of \<^verbatim>\<open>Timeout()\<close>), and
  \<^verbatim>\<open>WebSocketCloseError\<close>.
\<close>

datatype go_error =
    EOF
  | ErrUnexpectedEOF
  | ErrShortWrite
  | ErrNoProgress
  | Canceled
  | DeadlineExceeded
  | ErrTCPClientClosed
  | Errorf string
  | Wrapf string go_error
  | Suffixf go_error string
  | NetError bool string
  | WebSocketCloseError "16 word" string

text \<open>\<^verbatim>\<open>err.(net.Error)\<close> succeeding with \<^verbatim>\<open>Timeout()\<close> true; a wrapped error is no \<^verbatim>\<open>net.Error\<close>.\<close>

fun is_net_timeout :: "go_error \<Rightarrow> bool" where
  "is_net_timeout (NetError t _) = t"
| "is_net_timeout DeadlineExceeded = True"
| "is_net_timeout _ = False"

text \<open>\<^verbatim>\<open>errors.Is\<close> for the sentinels: the error itself or one it wraps.\<close>

fun errors_is :: "go_error \<Rightarrow> go_error \<Rightarrow> bool" where
  "errors_is (Wrapf m e) t = (Wrapf m e = t \<or> errors_is e t)"
| "errors_is (Suffixf e m) t = (Suffixf e m = t \<or> errors_is e t)"
| "errors_is e t = (e = t)"

text \<open>A run-time panic is a value too: the operation does not return.\<close>

datatype 'a outcome = Returns 'a | Panics string

subsection \<open>Sequencing of stateful, fallible steps\<close>

text \<open>
  \<^verbatim>\<open>x, err := step(); if err != nil { return err }\<close>: a step takes the state and returns an
  error or a value together with the new state; \<open>bindE\<close> runs the next step only after success.
\<close>

type_synonym ('s, 'a) io = "'s \<Rightarrow> (go_error + 'a) \<times> 's"

definition bindE :: "('s, 'a) io \<Rightarrow> ('a \<Rightarrow> ('s, 'b) io) \<Rightarrow> ('s, 'b) io" where
  "bindE m f = (\<lambda>s. case m s of (Inl e, s') \<Rightarrow> (Inl e, s') | (Inr a, s') \<Rightarrow> f a s')"

definition returnE :: "'a \<Rightarrow> ('s, 'a) io" where
  "returnE a = (\<lambda>s. (Inr a, s))"

definition failE :: "go_error \<Rightarrow> ('s, 'a) io" where
  "failE e = (\<lambda>s. (Inl e, s))"

definition guardE :: "bool \<Rightarrow> go_error \<Rightarrow> ('s, unit) io" where
  "guardE b e = (if b then returnE () else failE e)"

lemma bindE_apply: "bindE m f s = (case m s of (Inl e, s') \<Rightarrow> (Inl e, s') | (Inr a, s') \<Rightarrow> f a s')"
  by (simp add: bindE_def)

lemma bindE_Inr [io_simps]: "m s = (Inr a, s') \<Longrightarrow> bindE m f s = f a s'"
  by (simp add: bindE_def)

lemma bindE_Inl [io_simps]: "m s = (Inl e, s') \<Longrightarrow> bindE m f s = (Inl e, s')"
  by (simp add: bindE_def)

lemma bindE_returnE [io_simps, simp]: "bindE (returnE a) f = f a"
  by (simp add: bindE_def returnE_def)

lemma bindE_failE [io_simps, simp]: "bindE (failE e) f = failE e"
  by (simp add: bindE_def failE_def)

lemma returnE_apply: "returnE a s = (Inr a, s)"
  by (simp add: returnE_def)

lemma failE_apply: "failE e s = (Inl e, s)"
  by (simp add: failE_def)

text \<open>Stated for applied steps only, so that unapplied ones are left alone.\<close>

lemma returnE_eq [io_simps, simp]:
  "returnE a s = (r, t) \<longleftrightarrow> r = Inr a \<and> t = s" "(r, t) = returnE a s \<longleftrightarrow> r = Inr a \<and> t = s"
  "fst (returnE a s) = Inr a" "snd (returnE a s) = s"
  by (auto simp: returnE_def)

lemma failE_eq [io_simps, simp]:
  "failE e s = (r, t) \<longleftrightarrow> r = Inl e \<and> t = s" "(r, t) = failE e s \<longleftrightarrow> r = Inl e \<and> t = s"
  "fst (failE e s) = Inl e" "snd (failE e s) = s"
  by (auto simp: failE_def)

lemma guardE_simps [io_simps, simp]: "guardE True e = returnE ()" "guardE False e = failE e"
  by (simp_all add: guardE_def)

lemma bindE_assoc: "bindE (bindE m f) g = bindE m (\<lambda>x. bindE (f x) g)"
  by (rule ext) (simp add: bindE_def split: prod.split sum.split)

lemma bindE_eq_Inr [io_simps]:
  "bindE m f s = (Inr b, t) \<longleftrightarrow> (\<exists>a s'. m s = (Inr a, s') \<and> f a s' = (Inr b, t))"
  by (auto simp: bindE_def split: prod.splits sum.splits)

lemma guardE_bind_eq_Inr:
  "bindE (guardE c e) f s = (Inr b, t) \<longleftrightarrow> c \<and> f () s = (Inr b, t)"
  by (cases c) simp_all

subsection \<open>Lists\<close>

lemma take_append_exact [simp]: "length xs = n \<Longrightarrow> take n (xs @ ys) = xs"
  by simp

lemma drop_append_exact [simp]: "length xs = n \<Longrightarrow> drop n (xs @ ys) = ys"
  by simp

lemma append_eq_split_ge:
  assumes "xs @ ys = h @ r" and "length h \<le> length xs"
  shows "xs = h @ drop (length h) xs" "r = drop (length h) xs @ ys"
proof -
  have "take (length h) (xs @ ys) = h" using assms(1) by simp
  then have "take (length h) xs = h" using assms(2) by simp
  then show *: "xs = h @ drop (length h) xs" by (metis append_take_drop_id)
  then have "h @ drop (length h) xs @ ys = h @ r" using assms(1) by (metis append.assoc)
  then show "r = drop (length h) xs @ ys" by simp
qed

lemma append_eq_split_lt:
  assumes "xs @ ys = h @ r" and "length xs < length h"
  shows "xs = take (length xs) h" "ys = drop (length xs) h @ r"
  using append_eq_split_ge [of h r xs ys] assms by (metis append_eq_conv_conj less_imp_le)+

text \<open>Overwriting a run of elements: Go's \<^verbatim>\<open>copy(buf[i:], xs)\<close> when \<open>xs\<close> fits.\<close>

definition overwrite :: "'a list \<Rightarrow> nat \<Rightarrow> 'a list \<Rightarrow> 'a list" where
  "overwrite buf i xs = take i buf @ xs @ drop (i + length xs) buf"

lemma length_overwrite [simp]: "i + length xs \<le> length buf \<Longrightarrow> length (overwrite buf i xs) = length buf"
  by (simp add: overwrite_def)

lemma take_overwrite_prefix: "j \<le> i \<Longrightarrow> i \<le> length buf \<Longrightarrow> take j (overwrite buf i xs) = take j buf"
  by (simp add: overwrite_def min_def)

lemma take_overwrite_exact:
  "i + length xs \<le> length buf \<Longrightarrow> take (i + length xs) (overwrite buf i xs) = take i buf @ xs"
  by (simp add: overwrite_def)

lemma take_drop_overwrite:
  "i + length xs \<le> length buf \<Longrightarrow> take (length xs) (drop i (overwrite buf i xs)) = xs"
  by (simp add: overwrite_def)

lemma drop_overwrite_suffix:
  "i + length xs \<le> j \<Longrightarrow> j \<le> length buf \<Longrightarrow> drop j (overwrite buf i xs) = drop j buf"
  by (simp add: overwrite_def)

lemma funpow_numeral: "(f ^^ numeral k) x = f ((f ^^ pred_numeral k) x)"
  by (simp add: numeral_eq_Suc)

lemma while_append_notin:
  "x \<notin> set xs \<Longrightarrow> takeWhile (\<lambda>y. y \<noteq> x) (xs @ ys) = xs @ takeWhile (\<lambda>y. y \<noteq> x) ys"
  "x \<notin> set xs \<Longrightarrow> dropWhile (\<lambda>y. y \<noteq> x) (xs @ ys) = dropWhile (\<lambda>y. y \<noteq> x) ys"
  by (induction xs) auto

end
