(* ===== verification/Network_Stream.thy ===== *)
theory Network_Stream
  imports Prelude
begin

text \<open>
  The seekable byte buffer of \<^verbatim>\<open>network/network_stream.go\<close>: its state, its constructors, its
  positioning, reading and writing methods. \<^verbatim>\<open>buffer\<close>, \<^verbatim>\<open>position\<close> and \<^verbatim>\<open>length\<close> are the fields
  of \<^verbatim>\<open>NetworkStream\<close>; the event side of the struct (\<^verbatim>\<open>Add\<close>, \<^verbatim>\<open>Listen\<close>, \<^verbatim>\<open>CloseStream\<close>) is in
  \<^verbatim>\<open>Stream_Channel\<close>. Writing methods return \<^term>\<open>None\<close> when the capacity loop of
  \<^verbatim>\<open>ensureCapacity\<close> does not end. A \<^verbatim>\<open>float32\<close> or \<^verbatim>\<open>float64\<close> is its IEEE bit pattern.

  The lemmas show that the three fields stay consistent, that the methods refine a cursor over a
  plain byte sequence, and that every value written can be read back.
\<close>

subsection \<open>State and constructors\<close>

definition defaultBufferSize :: nat where
  "defaultBufferSize = 32 * 1024"

definition maxFrameSize :: int where
  "maxFrameSize = 256 * 1024"

datatype seek_origin = SeekBegin | SeekCurrent | SeekEnd | SeekOther int

record network_stream =
  buffer :: "byte list"
  position :: nat
  slen :: nat

definition NewNetworkStream :: "int \<Rightarrow> network_stream" where
  "NewNetworkStream capacity =
     \<lparr>buffer = replicate (if capacity \<le> 0 then defaultBufferSize else nat capacity) 0,
      position = 0, slen = 0\<rparr>"

definition NewStreamFromBytes :: "byte list \<Rightarrow> network_stream" where
  "NewStreamFromBytes data = \<lparr>buffer = data, position = 0, slen = length data\<rparr>"

subsection \<open>Core helpers\<close>

definition Bytes :: "network_stream \<Rightarrow> byte list" where
  "Bytes s = take (slen s) (buffer s)"

definition Remaining :: "network_stream \<Rightarrow> int" where
  "Remaining s = int (slen s) - int (position s)"

definition Reset :: "network_stream \<Rightarrow> network_stream" where
  "Reset s = s\<lparr>position := 0, slen := 0\<rparr>"

text \<open>The doubling loop; it runs forever from 0.\<close>

partial_function (option) grow_cap :: "nat \<Rightarrow> nat \<Rightarrow> nat option" where
  "grow_cap n required = (if n < required then grow_cap (n * 2) required else Some n)"

definition ensureCapacity :: "network_stream \<Rightarrow> nat \<Rightarrow> network_stream option" where
  "ensureCapacity s required =
     (if required \<le> length (buffer s) then Some s
      else map_option (\<lambda>n. s\<lparr>buffer := buffer s @ replicate (n - length (buffer s)) 0\<rparr>)
             (grow_cap (length (buffer s) * 2) required))"

definition Append :: "network_stream \<Rightarrow> byte list \<Rightarrow> network_stream option" where
  "Append s data = map_option
     (\<lambda>s'. s'\<lparr>buffer := overwrite (buffer s') (slen s') data, slen := slen s' + length data\<rparr>)
     (ensureCapacity s (slen s + length data))"

subsection \<open>Positioning\<close>

definition SetPosition :: "int \<Rightarrow> (network_stream, unit) io" where
  "SetPosition pos = (\<lambda>s.
     if pos < 0 \<or> pos > int (slen s) then (Inl (Errorf ''position out of bounds''), s)
     else (Inr (), s\<lparr>position := nat pos\<rparr>))"

text \<open>The sums are machine additions, which wrap.\<close>

definition Seek :: "int \<Rightarrow> seek_origin \<Rightarrow> (network_stream, unit) io" where
  "Seek offset origin = (\<lambda>s. case origin of
       SeekBegin \<Rightarrow> SetPosition offset s
     | SeekCurrent \<Rightarrow> SetPosition (wrap64 (int (position s) + offset)) s
     | SeekEnd \<Rightarrow> SetPosition (wrap64 (int (slen s) + offset)) s
     | SeekOther _ \<Rightarrow> (Inl (Errorf ''invalid seek origin''), s))"

subsection \<open>Reading\<close>

definition ensureReadable :: "int \<Rightarrow> (network_stream, unit) io" where
  "ensureReadable n = (\<lambda>s.
     if n < 0 \<or> n > maxFrameSize then (Inl (Errorf ''invalid read size''), s)
     else if int (position s) + n > int (slen s) then (Inl (Errorf ''not enough data in buffer''), s)
     else (Inr (), s))"

text \<open>The bytes at the position, which then advances past them.\<close>

definition take_raw :: "nat \<Rightarrow> (network_stream, byte list) io" where
  "take_raw n = (\<lambda>s. (Inr (take n (drop (position s) (buffer s))), s\<lparr>position := position s + n\<rparr>))"

definition ReadByte :: "(network_stream, byte) io" where
  "ReadByte = bindE (ensureReadable 1) (\<lambda>_. bindE (take_raw 1) (\<lambda>b. returnE (le_word b)))"

text \<open>\<^verbatim>\<open>return b != 0, err\<close>: on error the value is \<^verbatim>\<open>false\<close> and is not looked at.\<close>

definition ReadBool :: "(network_stream, bool) io" where
  "ReadBool = bindE ReadByte (\<lambda>b. returnE (b \<noteq> 0))"

definition ReadInt16 :: "(network_stream, 16 word) io" where
  "ReadInt16 = bindE (ensureReadable 2) (\<lambda>_. bindE (take_raw 2) (\<lambda>b. returnE (le_word b)))"

definition ReadInt32 :: "(network_stream, 32 word) io" where
  "ReadInt32 = bindE (ensureReadable 4) (\<lambda>_. bindE (take_raw 4) (\<lambda>b. returnE (le_word b)))"

definition ReadInt64 :: "(network_stream, 64 word) io" where
  "ReadInt64 = bindE (ensureReadable 8) (\<lambda>_. bindE (take_raw 8) (\<lambda>b. returnE (le_word b)))"

definition ReadFloat32 :: "(network_stream, 32 word) io" where
  "ReadFloat32 = bindE (ensureReadable 4) (\<lambda>_. bindE (take_raw 4) (\<lambda>b. returnE (le_word b)))"

definition ReadFloat64 :: "(network_stream, 64 word) io" where
  "ReadFloat64 = bindE (ensureReadable 8) (\<lambda>_. bindE (take_raw 8) (\<lambda>b. returnE (le_word b)))"

definition ReadDouble :: "(network_stream, 64 word) io" where
  "ReadDouble = ReadFloat64"

definition ReadBytes :: "int \<Rightarrow> (network_stream, byte list) io" where
  "ReadBytes n =
     (if n < 0 \<or> n > maxFrameSize then failE (Errorf ''invalid read size'')
      else bindE (ensureReadable n) (\<lambda>_. take_raw (nat n)))"

definition ReadString :: "(network_stream, string) io" where
  "ReadString = bindE ReadInt32 (\<lambda>n.
     if int32 n < 0 \<or> int32 n > maxFrameSize then failE (Errorf ''string length overflow'')
     else bindE (ReadBytes (int32 n)) (\<lambda>b. returnE (string_of b)))"

subsection \<open>Writing\<close>

text \<open>\<^verbatim>\<open>WriteBytes\<close>; the other writers run the same steps on the encoding of their argument.\<close>

definition WriteBytes :: "byte list \<Rightarrow> network_stream \<Rightarrow> network_stream option" where
  "WriteBytes b s = map_option
     (\<lambda>s'. s'\<lparr>buffer := overwrite (buffer s') (position s') b,
              position := position s' + length b,
              slen := max (slen s') (position s' + length b)\<rparr>)
     (ensureCapacity s (position s + length b))"

definition WriteByte :: "byte \<Rightarrow> network_stream \<Rightarrow> network_stream option" where
  "WriteByte v = WriteBytes [v]"

definition WriteBool :: "bool \<Rightarrow> network_stream \<Rightarrow> network_stream option" where
  "WriteBool v = (if v then WriteByte 1 else WriteByte 0)"

definition WriteInt16 :: "16 word \<Rightarrow> network_stream \<Rightarrow> network_stream option" where
  "WriteInt16 v = WriteBytes (le_bytes 2 v)"

definition WriteInt32 :: "32 word \<Rightarrow> network_stream \<Rightarrow> network_stream option" where
  "WriteInt32 v = WriteBytes (le_bytes 4 v)"

definition WriteInt64 :: "64 word \<Rightarrow> network_stream \<Rightarrow> network_stream option" where
  "WriteInt64 v = WriteBytes (le_bytes 8 v)"

definition WriteFloat32 :: "32 word \<Rightarrow> network_stream \<Rightarrow> network_stream option" where
  "WriteFloat32 v = WriteBytes (le_bytes 4 v)"

definition WriteFloat64 :: "64 word \<Rightarrow> network_stream \<Rightarrow> network_stream option" where
  "WriteFloat64 v = WriteBytes (le_bytes 8 v)"

definition WriteDouble :: "64 word \<Rightarrow> network_stream \<Rightarrow> network_stream option" where
  "WriteDouble v = WriteFloat64 v"

definition WriteString :: "string \<Rightarrow> network_stream \<Rightarrow> network_stream option" where
  "WriteString str s =
     Option.bind (WriteInt32 (word_of_nat (length (bytes_of str))) s) (WriteBytes (bytes_of str))"

subsection \<open>The capacity loop\<close>

lemma grow_cap_stuck:
  assumes "0 < required"
  shows "grow_cap 0 required = None"
proof (cases "grow_cap 0 required")
  case (Some r)
  have "\<not> ((0::nat) = 0 \<and> 0 < required)"
  proof (rule grow_cap.raw_induct [where P = "\<lambda>n q _. \<not> (n = 0 \<and> 0 < q)", OF _ Some])
    fix f :: "nat \<Rightarrow> nat \<Rightarrow> nat option" and n q y
    assume IH: "\<And>n q y. f n q = Some y \<Longrightarrow> \<not> (n = 0 \<and> 0 < q)"
      and step: "(if n < q then f (n * 2) q else Some n) = Some y"
    show "\<not> (n = 0 \<and> 0 < q)"
      using step IH [of "n * 2" q y] by (auto split: if_splits)
  qed
  with assms show ?thesis by simp
qed

lemma grow_cap_returns:
  assumes "0 < n"
  shows "\<exists>m. grow_cap n required = Some m \<and> n \<le> m \<and> required \<le> m"
  using assms
proof (induction "required - n" arbitrary: n rule: less_induct)
  case less
  show ?case
  proof (cases "n < required")
    case True
    with less.prems have "required - n * 2 < required - n" by simp
    with less.hyps [of "n * 2"] less.prems True show ?thesis
      by (subst grow_cap.simps) force
  next
    case False
    then show ?thesis by (subst grow_cap.simps) simp
  qed
qed

lemma ensureCapacity_stuck:
  "buffer s = [] \<Longrightarrow> 0 < required \<Longrightarrow> ensureCapacity s required = None"
  by (simp add: ensureCapacity_def grow_cap_stuck)

lemma ensureCapacity_returns:
  assumes "buffer s \<noteq> []"
  shows "\<exists>k. ensureCapacity s required = Some (s\<lparr>buffer := buffer s @ replicate k 0\<rparr>)
             \<and> required \<le> length (buffer s) + k"
proof (cases "required \<le> length (buffer s)")
  case True
  then show ?thesis by (intro exI [of _ 0]) (simp add: ensureCapacity_def)
next
  case False
  obtain m where "grow_cap (length (buffer s) * 2) required = Some m"
    and "length (buffer s) * 2 \<le> m" and "required \<le> m"
    using grow_cap_returns [of "length (buffer s) * 2" required] assms by auto
  with False show ?thesis
    by (intro exI [of _ "m - length (buffer s)"]) (simp add: ensureCapacity_def)
qed

subsection \<open>Well-formedness and the cursor view\<close>

text \<open>The position is inside the valid data and the valid data inside the buffer.\<close>

definition wf_stream :: "network_stream \<Rightarrow> bool" where
  "wf_stream s \<longleftrightarrow> position s \<le> slen s \<and> slen s \<le> length (buffer s)"

text \<open>The abstract stream: the valid bytes and the cursor.\<close>

definition cursor :: "network_stream \<Rightarrow> byte list \<times> nat" where
  "cursor s = (Bytes s, position s)"

definition write_spec :: "byte list \<Rightarrow> byte list \<times> nat \<Rightarrow> byte list \<times> nat" where
  "write_spec b c = (take (snd c) (fst c) @ b @ drop (snd c + length b) (fst c), snd c + length b)"

definition append_spec :: "byte list \<Rightarrow> byte list \<times> nat \<Rightarrow> byte list \<times> nat" where
  "append_spec b c = (fst c @ b, snd c)"

lemma length_Bytes [simp]: "wf_stream s \<Longrightarrow> length (Bytes s) = slen s"
  by (simp add: wf_stream_def Bytes_def)

lemma wf_new [simp]: "wf_stream (NewNetworkStream n)" "wf_stream (NewStreamFromBytes d)"
  by (simp_all add: wf_stream_def NewNetworkStream_def NewStreamFromBytes_def)

lemma WriteBytes_refines:
  assumes "wf_stream s" and "buffer s \<noteq> []"
  shows "\<exists>s'. WriteBytes b s = Some s' \<and> wf_stream s' \<and> buffer s' \<noteq> []
           \<and> cursor s' = write_spec b (cursor s)"
proof -
  obtain k where cap: "ensureCapacity s (position s + length b)
      = Some (s\<lparr>buffer := buffer s @ replicate k 0\<rparr>)"
    and big: "position s + length b \<le> length (buffer s) + k"
    using ensureCapacity_returns [OF assms(2)] by blast
  let ?buf = "buffer s @ replicate k (0::byte)"
  let ?s' = "s\<lparr>buffer := overwrite ?buf (position s) b, position := position s + length b,
               slen := max (slen s) (position s + length b)\<rparr>"
  have eq: "WriteBytes b s = Some ?s'"
    by (simp add: WriteBytes_def cap)
  have len: "length (overwrite ?buf (position s) b) = length ?buf"
    using big by (intro length_overwrite) simp
  have wf: "wf_stream ?s'"
    using assms big len by (simp add: wf_stream_def)
  have ne: "overwrite ?buf (position s) b \<noteq> []"
    using len assms(2) by (metis append_is_Nil_conv length_0_conv)
  have "Bytes ?s' = take (position s) (Bytes s) @ b @ drop (position s + length b) (Bytes s)"
    using assms big by (auto simp: Bytes_def wf_stream_def overwrite_def max_def drop_take)
  with eq wf ne show ?thesis
    by (simp add: cursor_def write_spec_def)
qed

lemma Append_refines:
  assumes "wf_stream s" and "buffer s \<noteq> []"
  shows "\<exists>s'. Append s b = Some s' \<and> wf_stream s' \<and> buffer s' \<noteq> []
           \<and> cursor s' = append_spec b (cursor s)"
proof -
  obtain k where cap: "ensureCapacity s (slen s + length b)
      = Some (s\<lparr>buffer := buffer s @ replicate k 0\<rparr>)"
    and big: "slen s + length b \<le> length (buffer s) + k"
    using ensureCapacity_returns [OF assms(2)] by blast
  let ?buf = "buffer s @ replicate k (0::byte)"
  let ?s' = "s\<lparr>buffer := overwrite ?buf (slen s) b, slen := slen s + length b\<rparr>"
  have len: "length (overwrite ?buf (slen s) b) = length ?buf"
    using big by (intro length_overwrite) simp
  have "Append s b = Some ?s'"
    by (simp add: Append_def cap)
  moreover have "wf_stream ?s'"
    using assms big len by (simp add: wf_stream_def)
  moreover have "overwrite ?buf (slen s) b \<noteq> []"
    using len assms(2) by (metis append_is_Nil_conv length_0_conv)
  moreover have "Bytes ?s' = Bytes s @ b"
    using assms big by (simp add: Bytes_def wf_stream_def overwrite_def)
  ultimately show ?thesis
    by (simp add: cursor_def append_spec_def)
qed

lemma write_bytes_append_spec:
  "snd c \<le> length (fst c) \<Longrightarrow> write_spec b2 (write_spec b1 c) = write_spec (b1 @ b2) c"
  by (simp add: write_spec_def add.commute add.left_commute)

subsection \<open>Reading as a refinement of the cursor\<close>

definition spec_read :: "int \<Rightarrow> (byte list \<times> nat, byte list) io" where
  "spec_read n = (\<lambda>(bs, p).
     if n < 0 \<or> n > maxFrameSize then (Inl (Errorf ''invalid read size''), (bs, p))
     else if int p + n > int (length bs) then (Inl (Errorf ''not enough data in buffer''), (bs, p))
     else (Inr (take (nat n) (drop p bs)), (bs, p + nat n)))"

definition spec_set :: "int \<Rightarrow> (byte list \<times> nat, unit) io" where
  "spec_set pos = (\<lambda>(bs, p).
     if pos < 0 \<or> pos > int (length bs) then (Inl (Errorf ''position out of bounds''), (bs, p))
     else (Inr (), (bs, nat pos)))"

text \<open>A method refines an abstract operation: same result, and the states stay related.\<close>

definition refines :: "(network_stream, 'a) io \<Rightarrow> (byte list \<times> nat, 'a) io \<Rightarrow> bool" where
  "refines f g \<longleftrightarrow> (\<forall>s. wf_stream s \<longrightarrow>
     fst (f s) = fst (g (cursor s)) \<and> wf_stream (snd (f s)) \<and>
     buffer (snd (f s)) = buffer s \<and> cursor (snd (f s)) = snd (g (cursor s)))"

lemma refinesI:
  assumes "\<And>s r s'. wf_stream s \<Longrightarrow> f s = (r, s') \<Longrightarrow>
     g (cursor s) = (r, cursor s') \<and> wf_stream s' \<and> buffer s' = buffer s"
  shows "refines f g"
  unfolding refines_def
proof (intro allI impI)
  fix s assume "wf_stream s"
  with assms [of s "fst (f s)" "snd (f s)"]
  show "fst (f s) = fst (g (cursor s)) \<and> wf_stream (snd (f s)) \<and>
     buffer (snd (f s)) = buffer s \<and> cursor (snd (f s)) = snd (g (cursor s))"
    by simp
qed

lemma refinesD:
  assumes "refines f g" and "wf_stream s" and "f s = (r, s')"
  shows "g (cursor s) = (r, cursor s')" and "wf_stream s'" and "buffer s' = buffer s"
  using assms by (auto simp: refines_def prod_eq_iff dest!: spec [of _ s])

lemma refines_returnE [intro!]: "refines (returnE a) (returnE a)"
  by (rule refinesI) simp

lemma refines_failE [intro!]: "refines (failE e) (failE e)"
  by (rule refinesI) simp

lemma refines_bindE [intro]:
  assumes "refines m n" and "\<And>x. refines (f x) (g x)"
  shows "refines (bindE m f) (bindE n g)"
proof (rule refinesI)
  fix s r s' assume wf: "wf_stream s" and run: "bindE m f s = (r, s')"
  obtain q t where m: "m s = (q, t)" by force
  note 1 = refinesD [OF assms(1) wf m]
  show "bindE n g (cursor s) = (r, cursor s') \<and> wf_stream s' \<and> buffer s' = buffer s"
  proof (cases q)
    case (Inl e)
    with run m 1 show ?thesis by (auto simp: bindE_def)
  next
    case (Inr a)
    with run m have "f a t = (r, s')" by (simp add: bindE_def)
    from refinesD [OF assms(2) 1(2) this] Inr 1 show ?thesis by (simp add: bindE_def)
  qed
qed

lemma refines_if [intro]:
  "(c \<Longrightarrow> refines f g) \<Longrightarrow> (\<not> c \<Longrightarrow> refines f' g') \<Longrightarrow>
   refines (if c then f else f') (if c then g else g')"
  by simp

lemma cursor_advance:
  assumes "wf_stream s" and "position s + n \<le> slen s"
  shows "cursor (s\<lparr>position := position s + n\<rparr>) = (Bytes s, position s + n)"
    and "take n (drop (position s) (buffer s)) = take n (drop (position s) (Bytes s))"
    and "wf_stream (s\<lparr>position := position s + n\<rparr>)"
  using assms by (auto simp: cursor_def Bytes_def wf_stream_def drop_take take_take min_def)

text \<open>The guarded read that every reading method starts with.\<close>

lemma guarded_take_refines:
  "refines (bindE (ensureReadable n) (\<lambda>_. take_raw (nat n))) (spec_read n)"
proof (rule refinesI)
  fix s r s'
  assume wf: "wf_stream s" and run: "bindE (ensureReadable n) (\<lambda>_. take_raw (nat n)) s = (r, s')"
  have cur: "cursor s = (Bytes s, position s)" by (simp add: cursor_def)
  show "spec_read n (cursor s) = (r, cursor s') \<and> wf_stream s' \<and> buffer s' = buffer s"
  proof (cases "n < 0 \<or> n > maxFrameSize \<or> int (position s) + n > int (slen s)")
    case True
    with run wf cur show ?thesis
      by (auto simp: ensureReadable_def bindE_def spec_read_def split: if_splits)
  next
    case False
    then have "position s + nat n \<le> slen s" by linarith
    note adv = cursor_advance [OF wf this]
    from False run have "s' = s\<lparr>position := position s + nat n\<rparr>"
      and "r = Inr (take (nat n) (drop (position s) (buffer s)))"
      by (auto simp: ensureReadable_def bindE_def take_raw_def)
    with False adv wf cur show ?thesis by (simp add: spec_read_def)
  qed
qed

lemma fixed_read_refines:
  "refines (bindE (ensureReadable (int k)) (\<lambda>_. bindE (take_raw k) (\<lambda>b. returnE (dec b))))
           (bindE (spec_read (int k)) (\<lambda>b. returnE (dec b)))"
  using refines_bindE [OF guarded_take_refines [of "int k"], of "\<lambda>b. returnE (dec b)" "\<lambda>b. returnE (dec b)"]
  by (auto simp: bindE_assoc)

lemmas fixed_reads = fixed_read_refines [of 1, simplified] fixed_read_refines [of 2, simplified]
  fixed_read_refines [of 4, simplified] fixed_read_refines [of 8, simplified]

lemma ReadBytes_refines: "refines (ReadBytes n) (spec_read n)"
proof (rule refinesI)
  fix s r s' assume wf: "wf_stream s" and run: "ReadBytes n s = (r, s')"
  show "spec_read n (cursor s) = (r, cursor s') \<and> wf_stream s' \<and> buffer s' = buffer s"
  proof (cases "n < 0 \<or> n > maxFrameSize")
    case True
    with wf run show ?thesis by (auto simp: ReadBytes_def spec_read_def cursor_def)
  next
    case False
    with run have "bindE (ensureReadable n) (\<lambda>_. take_raw (nat n)) s = (r, s')"
      by (simp add: ReadBytes_def)
    from refinesD [OF guarded_take_refines wf this] show ?thesis by simp
  qed
qed

lemma SetPosition_refines: "refines (SetPosition pos) (spec_set pos)"
  by (rule refinesI)
    (auto simp: SetPosition_def spec_set_def cursor_def wf_stream_def Bytes_def split: if_splits)

lemma Reset_refines: "wf_stream (Reset s) \<and> buffer (Reset s) = buffer s \<and> cursor (Reset s) = ([], 0)"
  by (simp add: wf_stream_def Reset_def cursor_def Bytes_def)

subsection \<open>Fixed-width values\<close>

text \<open>
  The contract of a fixed-width encoding as the typed methods use it: the writer stores
  \<open>enc v\<close>, the reader hands the next \<open>width\<close> bytes to \<open>dec\<close>.
\<close>

locale fixed_codec =
  fixes enc :: "'v \<Rightarrow> byte list" and dec :: "byte list \<Rightarrow> 'v" and width :: nat
  assumes length_enc: "length (enc v) = width"
    and dec_enc: "dec (enc v) = v"
    and width_fits: "int width \<le> maxFrameSize"
begin

lemma read_back:
  assumes "drop p bs = enc v @ rest" and "p \<le> length bs"
  shows "bindE (spec_read (int width)) (\<lambda>b. returnE (dec b)) (bs, p) = (Inr v, (bs, p + width))"
proof -
  have "length bs - p = width + length rest"
    using arg_cong [OF assms(1), of length] by (simp add: length_enc)
  then have "\<not> int p + int width > int (length bs)" using assms(2) by linarith
  then show ?thesis
    using assms(1) width_fits by (simp add: spec_read_def bindE_def length_enc dec_enc)
qed

end

interpretation byte_codec: fixed_codec "\<lambda>v. [v]" "le_word :: byte list \<Rightarrow> byte" 1
  by unfold_locales (simp_all add: maxFrameSize_def)

interpretation int16_codec: fixed_codec "le_bytes 2" "le_word :: byte list \<Rightarrow> 16 word" 2
  by unfold_locales (simp_all add: maxFrameSize_def codec_simps)

interpretation int32_codec: fixed_codec "le_bytes 4" "le_word :: byte list \<Rightarrow> 32 word" 4
  by unfold_locales (simp_all add: maxFrameSize_def codec_simps)

interpretation int64_codec: fixed_codec "le_bytes 8" "le_word :: byte list \<Rightarrow> 64 word" 8
  by unfold_locales (simp_all add: maxFrameSize_def codec_simps)

subsection \<open>Typed values\<close>

datatype wval = VByte byte | VBool bool | VInt16 "16 word" | VInt32 "32 word" | VInt64 "64 word"
  | VFloat32 "32 word" | VFloat64 "64 word" | VDouble "64 word" | VString string

datatype wkind = KByte | KBool | KInt16 | KInt32 | KInt64 | KFloat32 | KFloat64 | KDouble | KString

fun kind_of :: "wval \<Rightarrow> wkind" where
  "kind_of (VByte _) = KByte"
| "kind_of (VBool _) = KBool"
| "kind_of (VInt16 _) = KInt16"
| "kind_of (VInt32 _) = KInt32"
| "kind_of (VInt64 _) = KInt64"
| "kind_of (VFloat32 _) = KFloat32"
| "kind_of (VFloat64 _) = KFloat64"
| "kind_of (VDouble _) = KDouble"
| "kind_of (VString _) = KString"

text \<open>The typed write and read methods, one per kind.\<close>

fun write_val :: "wval \<Rightarrow> network_stream \<Rightarrow> network_stream option" where
  "write_val (VByte v) = WriteByte v"
| "write_val (VBool v) = WriteBool v"
| "write_val (VInt16 v) = WriteInt16 v"
| "write_val (VInt32 v) = WriteInt32 v"
| "write_val (VInt64 v) = WriteInt64 v"
| "write_val (VFloat32 v) = WriteFloat32 v"
| "write_val (VFloat64 v) = WriteFloat64 v"
| "write_val (VDouble v) = WriteDouble v"
| "write_val (VString v) = WriteString v"

fun read_val :: "wkind \<Rightarrow> (network_stream, wval) io" where
  "read_val KByte = bindE ReadByte (\<lambda>v. returnE (VByte v))"
| "read_val KBool = bindE ReadBool (\<lambda>v. returnE (VBool v))"
| "read_val KInt16 = bindE ReadInt16 (\<lambda>v. returnE (VInt16 v))"
| "read_val KInt32 = bindE ReadInt32 (\<lambda>v. returnE (VInt32 v))"
| "read_val KInt64 = bindE ReadInt64 (\<lambda>v. returnE (VInt64 v))"
| "read_val KFloat32 = bindE ReadFloat32 (\<lambda>v. returnE (VFloat32 v))"
| "read_val KFloat64 = bindE ReadFloat64 (\<lambda>v. returnE (VFloat64 v))"
| "read_val KDouble = bindE ReadDouble (\<lambda>v. returnE (VDouble v))"
| "read_val KString = bindE ReadString (\<lambda>v. returnE (VString v))"

fun write_vals :: "wval list \<Rightarrow> network_stream \<Rightarrow> network_stream option" where
  "write_vals [] s = Some s"
| "write_vals (v # vs) s = Option.bind (write_val v s) (write_vals vs)"

fun read_vals :: "wkind list \<Rightarrow> (network_stream, wval list) io" where
  "read_vals [] = returnE []"
| "read_vals (k # ks) = bindE (read_val k) (\<lambda>v. bindE (read_vals ks) (\<lambda>vs. returnE (v # vs)))"

text \<open>What the methods mean on the byte sequence.\<close>

fun encode_val :: "wval \<Rightarrow> byte list" where
  "encode_val (VByte v) = [v]"
| "encode_val (VBool v) = [if v then 1 else 0]"
| "encode_val (VInt16 v) = le_bytes 2 v"
| "encode_val (VInt32 v) = le_bytes 4 v"
| "encode_val (VInt64 v) = le_bytes 8 v"
| "encode_val (VFloat32 v) = le_bytes 4 v"
| "encode_val (VFloat64 v) = le_bytes 8 v"
| "encode_val (VDouble v) = le_bytes 8 v"
| "encode_val (VString v) = le_bytes 4 (word_of_nat (length v) :: 32 word) @ bytes_of v"

fun spec_read_val :: "wkind \<Rightarrow> (byte list \<times> nat, wval) io" where
  "spec_read_val KByte = bindE (bindE (spec_read 1) (\<lambda>b. returnE (le_word b))) (\<lambda>v. returnE (VByte v))"
| "spec_read_val KBool = bindE (bindE (spec_read 1) (\<lambda>b. returnE (le_word b)))
     (\<lambda>v :: byte. returnE (VBool (v \<noteq> 0)))"
| "spec_read_val KInt16 = bindE (bindE (spec_read 2) (\<lambda>b. returnE (le_word b))) (\<lambda>v. returnE (VInt16 v))"
| "spec_read_val KInt32 = bindE (bindE (spec_read 4) (\<lambda>b. returnE (le_word b))) (\<lambda>v. returnE (VInt32 v))"
| "spec_read_val KInt64 = bindE (bindE (spec_read 8) (\<lambda>b. returnE (le_word b))) (\<lambda>v. returnE (VInt64 v))"
| "spec_read_val KFloat32 = bindE (bindE (spec_read 4) (\<lambda>b. returnE (le_word b))) (\<lambda>v. returnE (VFloat32 v))"
| "spec_read_val KFloat64 = bindE (bindE (spec_read 8) (\<lambda>b. returnE (le_word b))) (\<lambda>v. returnE (VFloat64 v))"
| "spec_read_val KDouble = bindE (bindE (spec_read 8) (\<lambda>b. returnE (le_word b))) (\<lambda>v. returnE (VDouble v))"
| "spec_read_val KString = bindE (bindE (spec_read 4) (\<lambda>b. returnE (le_word b)))
     (\<lambda>n :: 32 word. if int32 n < 0 \<or> int32 n > maxFrameSize
           then failE (Errorf ''string length overflow'')
           else bindE (spec_read (int32 n)) (\<lambda>b. returnE (VString (string_of b))))"

fun spec_read_vals :: "wkind list \<Rightarrow> (byte list \<times> nat, wval list) io" where
  "spec_read_vals [] = returnE []"
| "spec_read_vals (k # ks) =
     bindE (spec_read_val k) (\<lambda>v. bindE (spec_read_vals ks) (\<lambda>vs. returnE (v # vs)))"

lemma refines_map: "refines f g \<Longrightarrow> refines (bindE f (\<lambda>v. returnE (h v))) (bindE g (\<lambda>v. returnE (h v)))"
  by (intro refines_bindE refines_returnE)

lemma read_val_refines: "refines (read_val k) (spec_read_val k)"
proof (cases k)
  case KBool
  then show ?thesis
    using refines_map [OF fixed_reads(1) [of le_word], of "\<lambda>v :: byte. VBool (v \<noteq> 0)"]
    by (simp add: ReadBool_def ReadByte_def bindE_assoc)
next
  case KString
  have "refines (bindE ReadInt32 (\<lambda>n. if int32 n < 0 \<or> int32 n > maxFrameSize
           then failE (Errorf ''string length overflow'')
           else bindE (ReadBytes (int32 n)) (\<lambda>b. returnE (VString (string_of b)))))
         (spec_read_val KString)"
    unfolding spec_read_val.simps ReadInt32_def
    by (intro refines_bindE refines_if refines_failE refines_returnE ReadBytes_refines fixed_reads)
  with KString show ?thesis
    by (simp add: ReadString_def bindE_assoc if_distrib [of "\<lambda>m. bindE m _"] cong: if_cong)
qed (simp_all add: ReadByte_def ReadInt16_def ReadInt32_def ReadInt64_def ReadFloat32_def
       ReadDouble_def ReadFloat64_def refines_map fixed_reads)

lemma read_vals_refines: "refines (read_vals ks) (spec_read_vals ks)"
  by (induction ks; unfold read_vals.simps spec_read_vals.simps)
    (intro refines_bindE refines_returnE read_val_refines; assumption)+

subsection \<open>Writing typed values\<close>

lemma WriteString_refines:
  assumes "wf_stream s" and "buffer s \<noteq> []"
  shows "\<exists>s'. WriteString v s = Some s' \<and> wf_stream s' \<and> buffer s' \<noteq> []
           \<and> cursor s' = write_spec (encode_val (VString v)) (cursor s)"
proof -
  let ?n = "le_bytes 4 (word_of_nat (length v) :: 32 word)"
  obtain t where t: "WriteBytes ?n s = Some t" "wf_stream t" "buffer t \<noteq> []"
    "cursor t = write_spec ?n (cursor s)"
    using WriteBytes_refines [OF assms] by blast
  obtain u where u: "WriteBytes (bytes_of v) t = Some u" "wf_stream u" "buffer u \<noteq> []"
    "cursor u = write_spec (bytes_of v) (cursor t)"
    using WriteBytes_refines [OF t(2,3)] by blast
  have "snd (cursor s) \<le> length (fst (cursor s))"
    using assms(1) by (simp add: cursor_def) (simp add: wf_stream_def)
  then have "cursor u = write_spec (?n @ bytes_of v) (cursor s)"
    using u(4) t(4) write_bytes_append_spec by metis
  with t u show ?thesis by (simp add: WriteString_def WriteInt32_def)
qed

lemma write_val_refines:
  assumes "wf_stream s" and "buffer s \<noteq> []"
  shows "\<exists>s'. write_val v s = Some s' \<and> wf_stream s' \<and> buffer s' \<noteq> []
           \<and> cursor s' = write_spec (encode_val v) (cursor s)"
proof (cases v)
  case (VString x)
  then show ?thesis using WriteString_refines [OF assms] by simp
qed (use WriteBytes_refines [OF assms] in \<open>simp_all add: WriteByte_def WriteBool_def WriteInt16_def
       WriteInt32_def WriteInt64_def WriteFloat32_def WriteFloat64_def WriteDouble_def\<close>)

lemma cursor_in_bounds: "wf_stream s \<Longrightarrow> snd (cursor s) \<le> length (fst (cursor s))"
  by (simp add: cursor_def) (simp add: wf_stream_def)

lemma write_vals_refines:
  assumes "wf_stream s" and "buffer s \<noteq> []"
  shows "\<exists>s'. write_vals vs s = Some s' \<and> wf_stream s' \<and> buffer s' \<noteq> []
           \<and> cursor s' = write_spec (concat (map encode_val vs)) (cursor s)"
  using assms
proof (induction vs arbitrary: s)
  case Nil
  then have "snd (cursor s) \<le> length (fst (cursor s))" by (simp add: cursor_in_bounds)
  then have "write_spec [] (cursor s) = cursor s" by (simp add: write_spec_def prod_eq_iff)
  with Nil show ?case by simp
next
  case (Cons v vs)
  obtain t where t: "write_val v s = Some t" "wf_stream t" "buffer t \<noteq> []"
    "cursor t = write_spec (encode_val v) (cursor s)"
    using write_val_refines [OF Cons.prems] by blast
  from Cons.IH [OF t(2,3)] obtain u where "write_vals vs t = Some u" "wf_stream u" "buffer u \<noteq> []"
    "cursor u = write_spec (concat (map encode_val vs)) (cursor t)" by blast
  with t write_bytes_append_spec [OF cursor_in_bounds [OF Cons.prems(1)]] show ?case by simp
qed

subsection \<open>Reading back what was written\<close>

text \<open>A string is readable when its length fits \<^const>\<open>maxFrameSize\<close>.\<close>

fun readable_val :: "wval \<Rightarrow> bool" where
  "readable_val (VString x) \<longleftrightarrow> int (length x) \<le> maxFrameSize"
| "readable_val _ \<longleftrightarrow> True"

lemma int32_of_small: "int n \<le> maxFrameSize \<Longrightarrow> int32 (word_of_nat n) = int n"
proof -
  assume "int n \<le> maxFrameSize"
  then have "n < 2 ^ 31" by (simp add: maxFrameSize_def)
  then show ?thesis
    by (simp add: signed_of_nat signed_take_bit_int_eq_self)
qed

lemma spec_read_exact:
  assumes "drop p bs = b @ rest" and "p \<le> length bs" and "int (length b) \<le> maxFrameSize"
  shows "spec_read (int (length b)) (bs, p) = (Inr b, (bs, p + length b))"
proof -
  have "length bs - p = length b + length rest"
    using arg_cong [OF assms(1), of length] by simp
  then have "\<not> int p + int (length b) > int (length bs)" using assms(2) by linarith
  then show ?thesis using assms by (simp add: spec_read_def)
qed

lemma spec_read_val_back:
  assumes at: "drop p bs = encode_val v @ rest" and p: "p \<le> length bs" and ok: "readable_val v"
  shows "spec_read_val (kind_of v) (bs, p) = (Inr v, (bs, p + length (encode_val v)))"
proof (cases v)
  case (VBool x)
  with byte_codec.read_back [of p bs "if x then 1 else 0" rest] at p
  show ?thesis by (simp add: bindE_def)
next
  case (VString x)
  let ?n = "word_of_nat (length x) :: 32 word"
  have n: "int32 ?n = int (length x)"
    using ok VString by (simp add: int32_of_small)
  have at4: "drop (p + 4) bs = bytes_of x @ rest"
    using arg_cong [OF at, of "drop 4"] VString by (simp add: add.commute)
  have "p + 4 \<le> length bs"
    using arg_cong [OF at, of length] VString p by simp
  then have "spec_read (int32 ?n) (bs, p + 4) = (Inr (bytes_of x), (bs, p + 4 + length x))"
    using spec_read_exact [OF at4] ok VString n by simp
  moreover have "bindE (spec_read 4) (\<lambda>b. returnE (le_word b)) (bs, p) = (Inr ?n, (bs, p + 4))"
    using int32_codec.read_back [of p bs ?n] at p VString by simp
  ultimately show ?thesis
    using VString n ok by (simp add: bindE_def)
qed (use assms byte_codec.read_back int16_codec.read_back int32_codec.read_back int64_codec.read_back
     in \<open>simp_all add: bindE_def\<close>)

lemma spec_read_vals_back:
  assumes "drop p bs = concat (map encode_val vs) @ rest" and "p \<le> length bs"
    and "list_all readable_val vs"
  shows "spec_read_vals (map kind_of vs) (bs, p)
     = (Inr vs, (bs, p + length (concat (map encode_val vs))))"
  using assms
proof (induction vs arbitrary: p)
  case Nil
  then show ?case by simp
next
  case (Cons v vs)
  let ?q = "p + length (encode_val v)"
  have v: "spec_read_val (kind_of v) (bs, p) = (Inr v, (bs, ?q))"
    using Cons.prems by (intro spec_read_val_back) (auto simp: append_assoc)
  have "drop ?q bs = concat (map encode_val vs) @ rest"
    using arg_cong [OF Cons.prems(1), of "drop (length (encode_val v))"] by (simp add: add.commute)
  moreover have "?q \<le> length bs"
    using arg_cong [OF Cons.prems(1), of length] Cons.prems(2) by simp
  ultimately have "spec_read_vals (map kind_of vs) (bs, ?q)
      = (Inr vs, (bs, ?q + length (concat (map encode_val vs))))"
    using Cons.prems by (intro Cons.IH) simp_all
  with v show ?case by (simp add: bindE_def)
qed

lemma rewind_after_write:
  assumes "wf_stream s" and "wf_stream s1" and "cursor s1 = write_spec enc (cursor s)"
  shows "\<exists>s2 rest. SetPosition (int (position s)) s1 = (Inr (), s2) \<and> wf_stream s2
           \<and> cursor s2 = (Bytes s1, position s)
           \<and> drop (position s) (Bytes s1) = enc @ rest \<and> position s \<le> length (Bytes s1)"
proof -
  have pos: "position s \<le> length (Bytes s)"
    using assms(1) by simp (simp add: wf_stream_def)
  have b1: "Bytes s1 = take (position s) (Bytes s) @ enc @ drop (position s + length enc) (Bytes s)"
    and p1: "position s1 = position s + length enc"
    using assms(3) by (simp_all add: cursor_def write_spec_def)
  have "position s \<le> slen s1"
    using assms(2) p1 by (simp add: wf_stream_def)
  then have "SetPosition (int (position s)) s1 = (Inr (), s1\<lparr>position := position s\<rparr>)"
    and "wf_stream (s1\<lparr>position := position s\<rparr>)"
    and "cursor (s1\<lparr>position := position s\<rparr>) = (Bytes s1, position s)"
    using assms(2) by (auto simp: SetPosition_def wf_stream_def cursor_def Bytes_def)
  with b1 pos show ?thesis by auto
qed

subsection \<open>Sequences of calls\<close>

datatype stream_call =
    CallAppend "byte list"
  | CallReset
  | CallSetPosition int
  | CallSeek int seek_origin
  | CallRead wkind
  | CallReadBytes int
  | CallWrite wval
  | CallWriteBytes "byte list"

datatype reply = Done | Val wval | Data "byte list"

fun perform :: "stream_call \<Rightarrow> network_stream \<Rightarrow> ((go_error + reply) \<times> network_stream) option" where
  "perform (CallAppend d) s = map_option (\<lambda>s'. (Inr Done, s')) (Append s d)"
| "perform CallReset s = Some (Inr Done, Reset s)"
| "perform (CallSetPosition pos) s = Some (bindE (SetPosition pos) (\<lambda>_. returnE Done) s)"
| "perform (CallSeek off org) s = Some (bindE (Seek off org) (\<lambda>_. returnE Done) s)"
| "perform (CallRead k) s = Some (bindE (read_val k) (\<lambda>v. returnE (Val v)) s)"
| "perform (CallReadBytes n) s = Some (bindE (ReadBytes n) (\<lambda>b. returnE (Data b)) s)"
| "perform (CallWrite v) s = map_option (\<lambda>s'. (Inr Done, s')) (write_val v s)"
| "perform (CallWriteBytes b) s = map_option (\<lambda>s'. (Inr Done, s')) (WriteBytes b s)"

fun spec_perform :: "stream_call \<Rightarrow> byte list \<times> nat \<Rightarrow> (go_error + reply) \<times> (byte list \<times> nat)" where
  "spec_perform (CallAppend d) c = (Inr Done, append_spec d c)"
| "spec_perform CallReset c = (Inr Done, ([], 0))"
| "spec_perform (CallSetPosition pos) c = bindE (spec_set pos) (\<lambda>_. returnE Done) c"
| "spec_perform (CallSeek off org) c = (case org of
       SeekBegin \<Rightarrow> bindE (spec_set off) (\<lambda>_. returnE Done) c
     | SeekCurrent \<Rightarrow> bindE (spec_set (wrap64 (int (snd c) + off))) (\<lambda>_. returnE Done) c
     | SeekEnd \<Rightarrow> bindE (spec_set (wrap64 (int (length (fst c)) + off))) (\<lambda>_. returnE Done) c
     | SeekOther _ \<Rightarrow> (Inl (Errorf ''invalid seek origin''), c))"
| "spec_perform (CallRead k) c = bindE (spec_read_val k) (\<lambda>v. returnE (Val v)) c"
| "spec_perform (CallReadBytes n) c = bindE (spec_read n) (\<lambda>b. returnE (Data b)) c"
| "spec_perform (CallWrite v) c = (Inr Done, write_spec (encode_val v) c)"
| "spec_perform (CallWriteBytes b) c = (Inr Done, write_spec b c)"

fun perform_all :: "stream_call list \<Rightarrow> network_stream \<Rightarrow> ((go_error + reply) list \<times> network_stream) option" where
  "perform_all [] s = Some ([], s)"
| "perform_all (c # cs) s = Option.bind (perform c s)
     (\<lambda>(r, s'). map_option (\<lambda>(rs, t). (r # rs, t)) (perform_all cs s'))"

fun spec_perform_all :: "stream_call list \<Rightarrow> byte list \<times> nat \<Rightarrow> (go_error + reply) list \<times> (byte list \<times> nat)" where
  "spec_perform_all [] c = ([], c)"
| "spec_perform_all (x # xs) c =
     (let (r, c') = spec_perform x c; (rs, c'') = spec_perform_all xs c' in (r # rs, c''))"

lemma Seek_refines:
  "refines (Seek off org) (\<lambda>c. case org of
       SeekBegin \<Rightarrow> spec_set off c
     | SeekCurrent \<Rightarrow> spec_set (wrap64 (int (snd c) + off)) c
     | SeekEnd \<Rightarrow> spec_set (wrap64 (int (length (fst c)) + off)) c
     | SeekOther _ \<Rightarrow> (Inl (Errorf ''invalid seek origin''), c))"
proof (rule refinesI)
  fix s r s' assume wf: "wf_stream s" and run: "Seek off org s = (r, s')"
  then show "(case org of
       SeekBegin \<Rightarrow> spec_set off (cursor s)
     | SeekCurrent \<Rightarrow> spec_set (wrap64 (int (snd (cursor s)) + off)) (cursor s)
     | SeekEnd \<Rightarrow> spec_set (wrap64 (int (length (fst (cursor s))) + off)) (cursor s)
     | SeekOther _ \<Rightarrow> (Inl (Errorf ''invalid seek origin''), cursor s)) = (r, cursor s')
     \<and> wf_stream s' \<and> buffer s' = buffer s"
    using refinesD [OF SetPosition_refines wf, of _ r s']
    by (cases org) (auto simp: Seek_def cursor_def)
qed

lemma perform_refines:
  assumes "wf_stream s" and "buffer s \<noteq> []"
  shows "\<exists>r s'. perform c s = Some (r, s') \<and> wf_stream s' \<and> buffer s' \<noteq> []
           \<and> spec_perform c (cursor s) = (r, cursor s')"
proof -
  have pure: "\<exists>r s'. Some (bindE m (\<lambda>x. returnE (k x)) s) = Some (r, s') \<and> wf_stream s'
      \<and> buffer s' \<noteq> [] \<and> bindE n (\<lambda>x. returnE (k x)) (cursor s) = (r, cursor s')"
    if "refines m n" for m n and k :: "'x \<Rightarrow> reply"
    using refinesD [OF refines_map [OF that] assms(1)] assms(2) by (metis surj_pair)
  show ?thesis
  proof (cases c)
    case (CallSeek off org)
    have "spec_perform c (cursor s) = bindE (\<lambda>c. case org of
       SeekBegin \<Rightarrow> spec_set off c
     | SeekCurrent \<Rightarrow> spec_set (wrap64 (int (snd c) + off)) c
     | SeekEnd \<Rightarrow> spec_set (wrap64 (int (length (fst c)) + off)) c
     | SeekOther _ \<Rightarrow> (Inl (Errorf ''invalid seek origin''), c)) (\<lambda>_. returnE Done) (cursor s)"
      by (simp add: CallSeek bindE_def split: seek_origin.split)
    with pure [OF Seek_refines [of off org], of "\<lambda>_. Done"] CallSeek show ?thesis by simp
  next
    case (CallSetPosition pos)
    with pure [OF SetPosition_refines [of pos], of "\<lambda>_. Done"] show ?thesis by simp
  next
    case (CallRead k)
    with pure [OF read_val_refines [of k], of Val] show ?thesis by simp
  next
    case (CallReadBytes n)
    with pure [OF ReadBytes_refines [of n], of Data] show ?thesis by simp
  next
    case CallReset
    with Reset_refines [of s] assms show ?thesis by simp
  next
    case (CallAppend d)
    with Append_refines [OF assms, of d] show ?thesis by auto
  next
    case (CallWrite v)
    with write_val_refines [OF assms, of v] show ?thesis by auto
  next
    case (CallWriteBytes b)
    with WriteBytes_refines [OF assms, of b] show ?thesis by auto
  qed
qed

lemma perform_all_refines:
  assumes "wf_stream s" and "buffer s \<noteq> []"
  shows "\<exists>rs s'. perform_all cs s = Some (rs, s') \<and> wf_stream s' \<and> buffer s' \<noteq> []
           \<and> spec_perform_all cs (cursor s) = (rs, cursor s')"
  using assms
proof (induction cs arbitrary: s)
  case Nil
  then show ?case by simp
next
  case (Cons c cs)
  obtain r t where "perform c s = Some (r, t)" "wf_stream t" "buffer t \<noteq> []"
    "spec_perform c (cursor s) = (r, cursor t)"
    using perform_refines [OF Cons.prems] by blast
  with Cons.IH [of t] show ?case by fastforce
qed

subsection \<open>Properties\<close>

text \<open>
  C1: on a stream with a non-empty buffer every sequence of method calls returns, gives exactly
  the results of a cursor over a plain byte sequence, and keeps
  \<open>0 \<le> position \<le> length \<le> len(buffer)\<close>, so that no method slices out of range.
\<close>

theorem stream_calls_refine_cursor:
  assumes "wf_stream s" and "buffer s \<noteq> []"
  shows "\<exists>rs s'. perform_all cs s = Some (rs, s')
           \<and> spec_perform_all cs (cursor s) = (rs, cursor s') \<and> wf_stream s'"
  using perform_all_refines [OF assms, of cs] by blast

theorem stream_calls_refine_cursor_witness:
  "\<exists>rs s'. perform_all [CallWrite (VInt16 258), CallSetPosition 0, CallRead KByte] (NewNetworkStream 1) = Some (rs, s')
     \<and> spec_perform_all [CallWrite (VInt16 258), CallSetPosition 0, CallRead KByte] ([], 0) = (rs, cursor s')
     \<and> wf_stream s'"
proof -
  have "wf_stream (NewNetworkStream 1)" "buffer (NewNetworkStream 1) \<noteq> []"
    and c: "cursor (NewNetworkStream 1) = ([], 0)"
    by (simp_all add: NewNetworkStream_def wf_stream_def cursor_def Bytes_def)
  from stream_calls_refine_cursor [OF this(1,2)] show ?thesis unfolding c .
qed

text \<open>
  C13: any sequence of typed values written from the current position and then read from the same
  position comes back unchanged, with the position at the end of what was written, provided every
  string is at most \<^verbatim>\<open>maxFrameSize\<close> bytes long.
\<close>

theorem stream_round_trip:
  assumes "wf_stream s" and "buffer s \<noteq> []" and "list_all readable_val vs"
  shows "\<exists>s1 s2 s3. write_vals vs s = Some s1
           \<and> SetPosition (int (position s)) s1 = (Inr (), s2)
           \<and> read_vals (map kind_of vs) s2 = (Inr vs, s3) \<and> position s3 = position s1"
proof -
  let ?enc = "concat (map encode_val vs)"
  obtain s1 where w: "write_vals vs s = Some s1" and wf1: "wf_stream s1"
    and c1: "cursor s1 = write_spec ?enc (cursor s)"
    using write_vals_refines [OF assms(1,2)] by blast
  obtain s2 rest where s2: "SetPosition (int (position s)) s1 = (Inr (), s2)" "wf_stream s2"
    "cursor s2 = (Bytes s1, position s)" "drop (position s) (Bytes s1) = ?enc @ rest"
    "position s \<le> length (Bytes s1)"
    using rewind_after_write [OF assms(1) wf1 c1] by blast
  have "spec_read_vals (map kind_of vs) (cursor s2) = (Inr vs, (Bytes s1, position s + length ?enc))"
    using spec_read_vals_back [OF s2(4,5) assms(3)] s2(3) by simp
  moreover obtain r s3 where run: "read_vals (map kind_of vs) s2 = (r, s3)" by force
  ultimately have "r = Inr vs" "cursor s3 = (Bytes s1, position s + length ?enc)"
    using refinesD(1) [OF read_vals_refines s2(2) run] by simp_all
  with w s2(1) run c1 show ?thesis by (auto simp: cursor_def write_spec_def)
qed

theorem stream_round_trip_witness:
  "\<exists>s1 s2 s3. write_vals [VString ''ok'', VBool True] (NewNetworkStream 1) = Some s1
     \<and> SetPosition 0 s1 = (Inr (), s2)
     \<and> read_vals [KString, KBool] s2 = (Inr [VString ''ok'', VBool True], s3)
     \<and> position s3 = position s1"
  using stream_round_trip [of "NewNetworkStream 1" "[VString ''ok'', VBool True]"]
  by (simp add: NewNetworkStream_def maxFrameSize_def wf_stream_def)

text \<open>
  A string longer than \<^verbatim>\<open>maxFrameSize\<close> (and of a length below \<open>2\<^sup>3\<^sup>1\<close>) is accepted by
  \<^verbatim>\<open>WriteString\<close>, but \<^verbatim>\<open>ReadString\<close> at the same position then fails with
  "string length overflow" and leaves the position after the length prefix.
\<close>

theorem long_string_unreadable:
  assumes "wf_stream s" and "buffer s \<noteq> []"
    and "maxFrameSize < int (length v)" and "length v < 2 ^ 31"
  shows "\<exists>s1 s2 s3. WriteString v s = Some s1
           \<and> SetPosition (int (position s)) s1 = (Inr (), s2)
           \<and> ReadString s2 = (Inl (Errorf ''string length overflow''), s3)
           \<and> position s3 = position s + 4"
proof -
  let ?n = "word_of_nat (length v) :: 32 word"
  obtain s1 where w: "WriteString v s = Some s1" "wf_stream s1"
    "cursor s1 = write_spec (encode_val (VString v)) (cursor s)"
    using WriteString_refines [OF assms(1,2)] by blast
  obtain s2 rest where s2: "SetPosition (int (position s)) s1 = (Inr (), s2)" "wf_stream s2"
    "cursor s2 = (Bytes s1, position s)"
    "drop (position s) (Bytes s1) = encode_val (VString v) @ rest" "position s \<le> length (Bytes s1)"
    using rewind_after_write [OF assms(1) w(2,3)] by blast
  have "bindE (spec_read 4) (\<lambda>b. returnE (le_word b)) (cursor s2) = (Inr ?n, (Bytes s1, position s + 4))"
    using int32_codec.read_back [of "position s" "Bytes s1" ?n] s2 by simp
  moreover have "int32 ?n = int (length v)"
    using assms(4) by (simp add: signed_of_nat signed_take_bit_int_eq_self)
  ultimately have "spec_read_val KString (cursor s2)
      = (Inl (Errorf ''string length overflow''), (Bytes s1, position s + 4))"
    using assms(3) by (simp add: bindE_def)
  moreover obtain r s3 where run: "ReadString s2 = (r, s3)" by force
  then have "read_val KString s2 = (case r of Inl e \<Rightarrow> (Inl e, s3) | Inr x \<Rightarrow> (Inr (VString x), s3))"
    by (simp add: bindE_def split: sum.split)
  ultimately have "r = Inl (Errorf ''string length overflow'')"
    and "cursor s3 = (Bytes s1, position s + 4)"
    using refinesD(1) [OF read_val_refines [of KString] s2(2)] by (auto split: sum.splits)
  with w(1) s2(1) run show ?thesis by (auto simp: cursor_def)
qed

theorem long_string_unreadable_witness:
  "\<exists>s1 s2 s3. WriteString (replicate 262145 CHR ''x'') (NewNetworkStream 1) = Some s1
     \<and> SetPosition 0 s1 = (Inr (), s2)
     \<and> ReadString s2 = (Inl (Errorf ''string length overflow''), s3) \<and> position s3 = 4"
  using long_string_unreadable [of "NewNetworkStream 1" "replicate 262145 CHR ''x''"]
  by (simp add: NewNetworkStream_def maxFrameSize_def wf_stream_def)

text \<open>
  C39: a stream made by \<^verbatim>\<open>NewStreamFromBytes\<close> from an empty slice has an empty buffer, and the
  doubling loop of \<^verbatim>\<open>ensureCapacity\<close> starts at 0: appending data or writing any value to it
  never returns.
\<close>

theorem empty_stream_write_diverges:
  "write_val v (NewStreamFromBytes []) = None
   \<and> Append (NewStreamFromBytes []) (b # bs) = None
   \<and> WriteBytes (b # bs) (NewStreamFromBytes []) = None"
proof -
  have stuck: "0 < n \<Longrightarrow> ensureCapacity (NewStreamFromBytes []) n = None" for n
    by (simp add: ensureCapacity_stuck NewStreamFromBytes_def)
  have wb: "xs \<noteq> [] \<Longrightarrow> WriteBytes xs (NewStreamFromBytes []) = None" for xs
    using stuck [of "length xs"] by (simp add: WriteBytes_def NewStreamFromBytes_def)
  have "write_val v (NewStreamFromBytes []) = None"
    by (cases v) (simp_all add: wb WriteByte_def WriteBool_def WriteInt16_def WriteInt32_def
        WriteInt64_def WriteFloat32_def WriteFloat64_def WriteDouble_def WriteString_def)
  moreover have "Append (NewStreamFromBytes []) (b # bs) = None"
    using stuck by (simp add: Append_def NewStreamFromBytes_def)
  ultimately show ?thesis using wb by simp
qed

text \<open>
  The machine additions of \<^verbatim>\<open>Seek\<close> cannot be exploited: for every 64-bit offset the wrapped
  sum is accepted exactly when the exact sum lies within the data, and then the position is the
  exact sum.
\<close>

theorem seek_wraparound_harmless:
  assumes "wf_stream s" and "int (slen s) < 2 ^ 63" and "int64_range off"
  shows "Seek off SeekCurrent s = SetPosition (int (position s) + off) s
       \<and> Seek off SeekEnd s = SetPosition (int (slen s) + off) s"
proof -
  have "SetPosition (wrap64 (int p + off)) s = SetPosition (int p + off) s"
    if "p \<le> slen s" for p
  proof (cases "int64_range (int p + off)")
    case True
    then show ?thesis by (simp add: wrap64_id)
  next
    case False
    with that assms(2,3) have big: "int p + off \<ge> 2 ^ 63" "int p + off < 2 ^ 64"
      by (auto simp: int64_range_def)
    then have "wrap64 (int p + off) = int p + off - 2 ^ 64"
      by (simp add: wrap64_def) (subst mod_pos_geq; simp)
    with big assms(2) show ?thesis by (simp add: SetPosition_def)
  qed
  with assms(1) show ?thesis by (simp add: Seek_def wf_stream_def)
qed

theorem seek_wraparound_harmless_witness:
  "Seek (2 ^ 63 - 1) SeekCurrent ((NewStreamFromBytes [1, 2])\<lparr>position := 1\<rparr>)
     = (Inl (Errorf ''position out of bounds''), (NewStreamFromBytes [1, 2])\<lparr>position := 1\<rparr>)"
  using seek_wraparound_harmless [of "(NewStreamFromBytes [1, 2])\<lparr>position := 1\<rparr>" "2 ^ 63 - 1"]
  by (simp add: NewStreamFromBytes_def wf_stream_def int64_range_def SetPosition_def)

end
