(* ===== verification/Stream_Channel.thy ===== *)
theory Stream_Channel
  imports Network_Stream
begin

text \<open>
  The channels of \<^verbatim>\<open>network/network_stream.go\<close>: \<^verbatim>\<open>Add\<close>, \<^verbatim>\<open>AddError\<close>, \<^verbatim>\<open>CloseStream\<close> and the goroutines of \<^verbatim>\<open>Listen\<close>, as a
  step relation. A call of \<^verbatim>\<open>Add\<close> is two steps, the check of the flag (with the \<^verbatim>\<open>Append\<close> before it, which has no lock
  of its own) and the send, and a call of \<^verbatim>\<open>CloseStream\<close> is four. A listener takes any case of its \<^verbatim>\<open>select\<close> that is ready;
  what it has received it holds until its callback, a step of its own, so that several listeners can call
  back in another order than they received. The callbacks are given. \<open>sent\<close>, \<open>received\<close> and \<open>clog\<close> record the
  sends, the receives and the callbacks. A panic ends the program.
\<close>

datatype listener = Selecting | HoldsData "byte list" | HoldsError go_error | Ending | Ended

datatype stream_callback = StreamData "byte list" | StreamError go_error | StreamDone

record chan_state =
  stream :: network_stream
  ch :: "byte list list"
  errCh :: "go_error list"
  closed :: bool
  ch_closed :: bool
  err_closed :: bool
  done_closed :: bool
  senders :: "byte list list"
  err_senders :: "go_error list"
  listeners :: "listener list"
  panicked :: bool
  sent :: "byte list list"
  received :: "(nat \<times> byte list) list"
  clog :: "(nat \<times> stream_callback) list"

definition chan_initial :: "network_stream \<Rightarrow> chan_state" where
  "chan_initial s = \<lparr>stream = s, ch = [], errCh = [], closed = False, ch_closed = False, err_closed = False,
     done_closed = False, senders = [], err_senders = [], listeners = [], panicked = False, sent = [], received = [], clog = []\<rparr>"

text \<open>Listener \<open>i\<close> goes to a state; it makes a callback and goes to a state.\<close>

definition set_listener :: "nat \<Rightarrow> listener \<Rightarrow> chan_state \<Rightarrow> chan_state" where
  "set_listener i l c = c\<lparr>listeners := (listeners c)[i := l]\<rparr>"

definition callback :: "nat \<Rightarrow> stream_callback \<Rightarrow> listener \<Rightarrow> chan_state \<Rightarrow> chan_state" where
  "callback i cb l c = set_listener i l (c\<lparr>clog := clog c @ [(i, cb)]\<rparr>)"

definition in_state :: "nat \<Rightarrow> listener \<Rightarrow> chan_state \<Rightarrow> bool" where
  "in_state i l c \<longleftrightarrow> \<not> panicked c \<and> i < length (listeners c) \<and> listeners c ! i = l"

inductive chan_step :: "chan_state \<Rightarrow> chan_state \<Rightarrow> bool" where
  add_check: "\<not> panicked c \<Longrightarrow> Append (stream c) d = Some s \<Longrightarrow> \<not> closed c \<Longrightarrow>
    chan_step c (c\<lparr>stream := s, senders := senders c @ [d]\<rparr>)"
| add_refused: "\<not> panicked c \<Longrightarrow> Append (stream c) d = Some s \<Longrightarrow> closed c \<Longrightarrow> chan_step c (c\<lparr>stream := s\<rparr>)"
| add_send: "\<not> panicked c \<Longrightarrow> senders c = as @ d # bs \<Longrightarrow> \<not> ch_closed c \<Longrightarrow> length (ch c) < 16 \<Longrightarrow>
    chan_step c (c\<lparr>senders := as @ bs, ch := ch c @ [d], sent := sent c @ [d]\<rparr>)"
| add_panic: "\<not> panicked c \<Longrightarrow> senders c \<noteq> [] \<Longrightarrow> ch_closed c \<Longrightarrow> chan_step c (c\<lparr>panicked := True\<rparr>)"
| error_check: "\<not> panicked c \<Longrightarrow> \<not> closed c \<Longrightarrow> chan_step c (c\<lparr>err_senders := err_senders c @ [e]\<rparr>)"
| error_send: "\<not> panicked c \<Longrightarrow> err_senders c = as @ e # bs \<Longrightarrow> \<not> err_closed c \<Longrightarrow> errCh c = [] \<Longrightarrow>
    chan_step c (c\<lparr>err_senders := as @ bs, errCh := [e]\<rparr>)"
| error_panic: "\<not> panicked c \<Longrightarrow> err_senders c \<noteq> [] \<Longrightarrow> err_closed c \<Longrightarrow> chan_step c (c\<lparr>panicked := True\<rparr>)"
| close_swap: "\<not> panicked c \<Longrightarrow> \<not> closed c \<Longrightarrow> chan_step c (c\<lparr>closed := True\<rparr>)"
| close_ch: "\<not> panicked c \<Longrightarrow> closed c \<Longrightarrow> \<not> ch_closed c \<Longrightarrow> chan_step c (c\<lparr>ch_closed := True\<rparr>)"
| close_err: "\<not> panicked c \<Longrightarrow> ch_closed c \<Longrightarrow> \<not> err_closed c \<Longrightarrow> chan_step c (c\<lparr>err_closed := True\<rparr>)"
| close_done: "\<not> panicked c \<Longrightarrow> err_closed c \<Longrightarrow> \<not> done_closed c \<Longrightarrow> chan_step c (c\<lparr>done_closed := True\<rparr>)"
| listen: "\<not> panicked c \<Longrightarrow> chan_step c (c\<lparr>listeners := listeners c @ [Selecting]\<rparr>)"
| recv_data: "in_state i Selecting c \<Longrightarrow> ch c = d # ds \<Longrightarrow>
    chan_step c (set_listener i (HoldsData d) (c\<lparr>ch := ds, received := received c @ [(i, d)]\<rparr>))"
| call_data: "in_state i (HoldsData d) c \<Longrightarrow> chan_step c (callback i (StreamData d) Selecting c)"
| recv_closed: "in_state i Selecting c \<Longrightarrow> ch c = [] \<Longrightarrow> ch_closed c \<Longrightarrow> chan_step c (set_listener i Ending c)"
| recv_error: "in_state i Selecting c \<Longrightarrow> errCh c = e # es \<Longrightarrow>
    chan_step c (set_listener i (HoldsError e) (c\<lparr>errCh := es\<rparr>))"
| call_error: "in_state i (HoldsError e) c \<Longrightarrow> chan_step c (callback i (StreamError e) Selecting c)"
| recv_error_closed: "in_state i Selecting c \<Longrightarrow> errCh c = [] \<Longrightarrow> err_closed c \<Longrightarrow> chan_step c c"
| recv_done: "in_state i Selecting c \<Longrightarrow> done_closed c \<Longrightarrow> chan_step c (set_listener i Ending c)"
| call_done: "in_state i Ending c \<Longrightarrow> chan_step c (callback i StreamDone Ended c)"

section \<open>Order of the callbacks\<close>

fun data_of :: "stream_callback list \<Rightarrow> byte list list" where
  "data_of [] = []"
| "data_of (StreamData d # l) = d # data_of l"
| "data_of (_ # l) = data_of l"

lemma data_of_append [simp]: "data_of (xs @ ys) = data_of xs @ data_of ys"
  by (induction xs rule: data_of.induct) simp_all

text \<open>The entries of one listener in a record of all.\<close>

definition entries_of :: "nat \<Rightarrow> (nat \<times> 'a) list \<Rightarrow> 'a list" where
  "entries_of i l = map snd (filter (\<lambda>x. fst x = i) l)"

lemma entries_of_simps [simp]:
  "entries_of j (l @ [(i, x)]) = entries_of j l @ (if i = j then [x] else [])" "entries_of j [] = []"
  by (simp_all add: entries_of_def)

lemma entries_of_new: "fst ` set l \<subseteq> {..<n} \<Longrightarrow> entries_of n l = []"
  by (force simp: entries_of_def filter_empty_conv)

lemma entries_of_single:
  assumes "fst ` set l \<subseteq> {..<1::nat}"
  shows "entries_of 0 l = map snd l"
proof -
  have "filter (\<lambda>x. fst x = 0) l = l" using assms by (force simp: filter_id_conv)
  then show ?thesis by (simp add: entries_of_def)
qed

fun held :: "listener \<Rightarrow> byte list list" where
  "held (HoldsData d) = [d]"
| "held _ = []"

text \<open>A listener that has ended has reported the end, as its last callback; no other has.\<close>

definition done_ok :: "bool \<Rightarrow> stream_callback list \<Rightarrow> bool" where
  "done_ok active cbs \<longleftrightarrow> (if active then StreamDone \<notin> set cbs else \<exists>xs. cbs = xs @ [StreamDone] \<and> StreamDone \<notin> set xs)"

lemma done_ok_simps [simp]:
  "done_ok True [] = True" "cb \<noteq> StreamDone \<Longrightarrow> done_ok True (cbs @ [cb]) = done_ok True cbs"
  "done_ok False (cbs @ [StreamDone]) = done_ok True cbs"
  by (auto simp: done_ok_def)

text \<open>
  What a listener has passed to \<^verbatim>\<open>onData\<close>, and the chunk it may hold, are what it has received, in order; the
  chunks received, in the order of the receives, and those in the channel are the chunks sent.
\<close>

definition listener_ok :: "chan_state \<Rightarrow> nat \<Rightarrow> bool" where
  "listener_ok c i \<longleftrightarrow> data_of (entries_of i (clog c)) @ held (listeners c ! i) = entries_of i (received c)
     \<and> done_ok (listeners c ! i \<noteq> Ended) (entries_of i (clog c))"

definition chan_ok :: "chan_state \<Rightarrow> bool" where
  "chan_ok c \<longleftrightarrow> map snd (received c) @ ch c = sent c \<and> length (ch c) \<le> 16 \<and> length (errCh c) \<le> 1
     \<and> fst ` set (received c) \<union> fst ` set (clog c) \<subseteq> {..<length (listeners c)}
     \<and> (\<forall>i < length (listeners c). listener_ok c i)"

lemma chan_ok_initial: "chan_ok (chan_initial s)"
  by (simp add: chan_ok_def chan_initial_def)

lemmas chan_ok_defs = chan_ok_def listener_ok_def set_listener_def callback_def in_state_def

lemma chan_step_ok: "chan_step c c' \<Longrightarrow> chan_ok c \<Longrightarrow> chan_ok c'"
proof (induction rule: chan_step.induct)
  case (listen c)
  then show ?case by (auto simp: chan_ok_defs nth_append entries_of_new less_Suc_eq)
qed (auto simp: chan_ok_defs nth_list_update)

lemma chan_ok_single:
  assumes "chan_ok c" and "length (listeners c) = 1"
  shows "data_of (map snd (clog c)) @ held (listeners c ! 0) @ ch c = sent c"
proof -
  from assms have "entries_of 0 (clog c) = map snd (clog c)" "entries_of 0 (received c) = map snd (received c)"
    by (simp_all add: chan_ok_def entries_of_single)
  moreover from assms have "data_of (entries_of 0 (clog c)) @ held (listeners c ! 0) = entries_of 0 (received c)"
    by (simp add: chan_ok_def listener_ok_def)
  ultimately show ?thesis using assms(1) by (simp add: chan_ok_def flip: append_assoc)
qed

text \<open>
  C37: in every interleaving of senders, listeners and the closing of the stream, the chunks received are the first
  of the chunks sent, in the order of the sends, each by one listener, and the channel holds the rest, at most
  16. Every listener passes what it has received to \<^verbatim>\<open>onData\<close>, in the order in which it received it, holding back
  at most the last chunk, and reports the end at most once, as its last callback. With a single listener the
  data callbacks are so, in order, the chunks sent, less the one it may hold and those in the channel; with
  several, the order holds only for each of them.
\<close>

theorem stream_delivery_fifo:
  assumes "chan_step\<^sup>*\<^sup>* (chan_initial s) c"
  shows "chan_ok c \<and> (length (listeners c) = 1 \<longrightarrow> data_of (map snd (clog c)) @ held (listeners c ! 0) @ ch c = sent c)"
proof -
  from assms have "chan_ok c" by (induction rule: rtranclp_induct) (simp_all add: chan_ok_initial chan_step_ok)
  with chan_ok_single show ?thesis by blast
qed

subsection \<open>Runs\<close>

text \<open>A stream with listeners, and one more \<^verbatim>\<open>Add\<close>.\<close>

lemma reach_listener: "\<not> panicked c \<Longrightarrow> chan_step\<^sup>*\<^sup>* c (c\<lparr>listeners := listeners c @ [Selecting]\<rparr>)"
  by (blast intro: listen)

lemma reach_add:
  assumes "\<not> panicked c" "\<not> closed c" "\<not> ch_closed c" "senders c = []" "length (ch c) < 16" and "Append (stream c) d = Some s"
  shows "chan_step\<^sup>*\<^sup>* c (c\<lparr>stream := s, ch := ch c @ [d], sent := sent c @ [d]\<rparr>)"
proof -
  let ?b = "c\<lparr>stream := s, senders := senders c @ [d]\<rparr>"
  have "chan_step c ?b" by (rule add_check) (use assms in simp_all)
  moreover have "chan_step ?b (?b\<lparr>senders := [] @ [], ch := ch ?b @ [d], sent := sent ?b @ [d]\<rparr>)"
    by (rule add_send [of _ "[]" d "[]"]) (use assms in simp_all)
  moreover have "?b\<lparr>senders := [] @ [], ch := ch ?b @ [d], sent := sent ?b @ [d]\<rparr>
      = c\<lparr>stream := s, ch := ch c @ [d], sent := sent c @ [d]\<rparr>" using assms(4) by (cases c) simp
  ultimately show ?thesis by (metis (no_types, lifting) converse_rtranclp_into_rtranclp r_into_rtranclp)
qed

text \<open>A stream after one \<^verbatim>\<open>Add\<close> with one listener waiting.\<close>

definition added :: "network_stream \<Rightarrow> network_stream \<Rightarrow> byte list \<Rightarrow> chan_state" where
  "added s s' d = (chan_initial s)\<lparr>stream := s', listeners := [Selecting], ch := [d], sent := [d]\<rparr>"

lemma reach_added:
  assumes "Append s d = Some s'"
  shows "chan_step\<^sup>*\<^sup>* (chan_initial s) (added s s' d)"
  using rtranclp_trans [OF reach_listener reach_add, of "chan_initial s" d s'] assms
  by (simp add: chan_initial_def added_def)

lemma sample_append: "\<exists>s'. Append (NewNetworkStream 8) [1, 2] = Some s'"
proof -
  have "\<not> Option.is_none (Append (NewNetworkStream 8) [1, 2])" by code_simp
  then show ?thesis by (simp add: Option.is_none_def)
qed

text \<open>The listener receives the chunk and calls back.\<close>

lemma reach_received:
  assumes "Append s d = Some s'"
  shows "chan_step\<^sup>*\<^sup>* (chan_initial s) ((added s s' d)\<lparr>ch := [], received := [(0, d)], clog := [(0, StreamData d)]\<rparr>)"
proof -
  let ?b = "set_listener 0 (HoldsData d) ((added s s' d)\<lparr>ch := [], received := received (added s s' d) @ [(0, d)]\<rparr>)"
  have "chan_step (added s s' d) ?b" by (rule recv_data) (simp_all add: in_state_def added_def chan_initial_def)
  moreover have "chan_step ?b (callback 0 (StreamData d) Selecting ?b)"
    by (rule call_data) (simp add: in_state_def set_listener_def added_def chan_initial_def)
  moreover have "callback 0 (StreamData d) Selecting ?b = (added s s' d)\<lparr>ch := [], received := [(0, d)], clog := [(0, StreamData d)]\<rparr>"
    by (simp add: callback_def set_listener_def added_def chan_initial_def)
  ultimately show ?thesis using reach_added [OF assms] by (metis (no_types, lifting) rtranclp.rtrancl_into_rtrancl)
qed

theorem stream_delivery_fifo_witness:
  "\<exists>c. chan_step\<^sup>*\<^sup>* (chan_initial (NewNetworkStream 8)) c \<and> length (listeners c) = 1 \<and> clog c = [(0, StreamData [1, 2])]
    \<and> chan_ok c \<and> data_of (map snd (clog c)) @ held (listeners c ! 0) @ ch c = sent c"
proof -
  obtain s' where s': "Append (NewNetworkStream 8) [1, 2] = Some s'" using sample_append ..
  let ?c = "(added (NewNetworkStream 8) s' [1, 2])\<lparr>ch := [], received := [(0, [1, 2])], clog := [(0, StreamData [1, 2])]\<rparr>"
  have "length (listeners ?c) = 1 \<and> clog ?c = [(0, StreamData [1, 2])]" by (simp add: added_def)
  with reach_received [OF s'] stream_delivery_fifo [OF reach_received [OF s']] show ?thesis by blast
qed

text \<open>With two listeners the callbacks can come in another order than the sends.\<close>

theorem two_listeners_can_reorder:
  assumes "Append s d = Some s'" and "Append s' d' = Some s''"
  shows "\<exists>c. chan_step\<^sup>*\<^sup>* (chan_initial s) c \<and> sent c = [d, d'] \<and> clog c = [(1, StreamData d'), (0, StreamData d)]"
proof -
  let ?two = "(added s s' d)\<lparr>listeners := [Selecting, Selecting]\<rparr>"
  let ?a = "?two\<lparr>stream := s'', ch := [d, d'], sent := [d, d']\<rparr>"
  let ?b = "set_listener 0 (HoldsData d) (?a\<lparr>ch := [d'], received := received ?a @ [(0, d)]\<rparr>)"
  let ?c = "set_listener 1 (HoldsData d') (?b\<lparr>ch := [], received := received ?b @ [(1, d')]\<rparr>)"
  let ?d = "callback 1 (StreamData d') Selecting ?c"
  let ?e = "callback 0 (StreamData d) Selecting ?d"
  note defs = in_state_def set_listener_def callback_def added_def chan_initial_def
  have "chan_step\<^sup>*\<^sup>* (added s s' d) ?two" using reach_listener [of "added s s' d"] by (simp add: defs)
  moreover have "chan_step\<^sup>*\<^sup>* ?two ?a" using reach_add [of ?two d' s''] assms by (simp add: defs)
  moreover have "chan_step ?a ?b" by (rule recv_data) (simp_all add: defs)
  moreover have "chan_step ?b ?c" by (rule recv_data) (simp_all add: defs)
  moreover have "chan_step ?c ?d" by (rule call_data) (simp add: defs)
  moreover have "chan_step ?d ?e" by (rule call_data) (simp add: defs)
  ultimately have "chan_step\<^sup>*\<^sup>* (chan_initial s) ?e"
    using reach_added [OF assms(1)] by (meson rtranclp.rtrancl_into_rtrancl rtranclp_trans)
  moreover have "sent ?e = [d, d'] \<and> clog ?e = [(1, StreamData d'), (0, StreamData d)]" by (simp add: defs)
  ultimately show ?thesis by blast
qed

text \<open>The steps of \<^verbatim>\<open>CloseStream\<close>.\<close>

lemma reach_closed:
  assumes "\<not> panicked c" and "\<not> closed c" and "\<not> ch_closed c" and "\<not> err_closed c" and "\<not> done_closed c"
  shows "chan_step\<^sup>*\<^sup>* c (c\<lparr>closed := True, ch_closed := True, err_closed := True, done_closed := True\<rparr>)"
proof -
  have "chan_step c (c\<lparr>closed := True\<rparr>)" by (rule close_swap [OF assms(1,2)])
  moreover have "chan_step (c\<lparr>closed := True\<rparr>) (c\<lparr>closed := True, ch_closed := True\<rparr>)"
    using close_ch [of "c\<lparr>closed := True\<rparr>"] assms by simp
  moreover have "chan_step (c\<lparr>closed := True, ch_closed := True\<rparr>) (c\<lparr>closed := True, ch_closed := True, err_closed := True\<rparr>)"
    using close_err [of "c\<lparr>closed := True, ch_closed := True\<rparr>"] assms by simp
  moreover have "chan_step (c\<lparr>closed := True, ch_closed := True, err_closed := True\<rparr>)
      (c\<lparr>closed := True, ch_closed := True, err_closed := True, done_closed := True\<rparr>)"
    using close_done [of "c\<lparr>closed := True, ch_closed := True, err_closed := True\<rparr>"] assms by simp
  ultimately show ?thesis by (meson r_into_rtranclp rtranclp_trans)
qed

text \<open>
  Closing a stream can lose data: a chunk sent before \<^verbatim>\<open>CloseStream\<close> may never reach the only listener,
  whose \<^verbatim>\<open>select\<close> may take the closed channel \<^verbatim>\<open>doneCh\<close> although the chunk is waiting.
\<close>

theorem close_can_lose_data:
  assumes "Append s d = Some s'"
  shows "\<exists>c. chan_step\<^sup>*\<^sup>* (chan_initial s) c \<and> sent c = [d] \<and> clog c = [(0, StreamDone)] \<and> listeners c = [Ended]"
proof -
  let ?b = "(added s s' d)\<lparr>closed := True, ch_closed := True, err_closed := True, done_closed := True\<rparr>"
  let ?c = "set_listener 0 Ending ?b"
  let ?d = "callback 0 StreamDone Ended ?c"
  note defs = in_state_def set_listener_def callback_def added_def chan_initial_def
  have "chan_step\<^sup>*\<^sup>* (added s s' d) ?b" by (rule reach_closed) (simp_all add: defs)
  moreover have "chan_step ?b ?c" by (rule recv_done) (simp_all add: defs)
  moreover have "chan_step ?c ?d" by (rule call_done) (simp add: defs)
  ultimately have "chan_step\<^sup>*\<^sup>* (chan_initial s) ?d"
    using reach_added [OF assms] by (meson rtranclp.rtrancl_into_rtrancl rtranclp_trans)
  moreover have "sent ?d = [d] \<and> clog ?d = [(0, StreamDone)] \<and> listeners ?d = [Ended]" by (simp add: defs)
  ultimately show ?thesis by blast
qed

theorem close_can_lose_data_witness:
  "\<exists>c. chan_step\<^sup>*\<^sup>* (chan_initial (NewNetworkStream 8)) c \<and> sent c = [[1, 2]] \<and> clog c = [(0, StreamDone)]"
proof -
  obtain s' where "Append (NewNetworkStream 8) [1, 2] = Some s'" using sample_append ..
  from close_can_lose_data [OF this] show ?thesis by blast
qed

text \<open>
  A call of \<^verbatim>\<open>Add\<close> that has seen the open flag panics when \<^verbatim>\<open>CloseStream\<close> closes the channel before the send.
\<close>

theorem add_can_panic:
  assumes "Append s d = Some s'"
  shows "\<exists>c. chan_step\<^sup>*\<^sup>* (chan_initial s) c \<and> panicked c"
proof -
  let ?a = "(chan_initial s)\<lparr>stream := s', senders := [d]\<rparr>"
  let ?b = "?a\<lparr>closed := True, ch_closed := True, err_closed := True, done_closed := True\<rparr>"
  have "chan_step (chan_initial s) ?a"
    using add_check [of "chan_initial s" d s'] assms by (simp add: chan_initial_def)
  moreover have "chan_step\<^sup>*\<^sup>* ?a ?b" by (rule reach_closed) (simp_all add: chan_initial_def)
  moreover have "chan_step ?b (?b\<lparr>panicked := True\<rparr>)" by (rule add_panic) (simp_all add: chan_initial_def)
  ultimately have "chan_step\<^sup>*\<^sup>* (chan_initial s) (?b\<lparr>panicked := True\<rparr>)"
    by (meson converse_rtranclp_into_rtranclp rtranclp.rtrancl_into_rtrancl)
  moreover have "panicked (?b\<lparr>panicked := True\<rparr>)" by (simp add: chan_initial_def)
  ultimately show ?thesis by blast
qed

theorem add_can_panic_witness: "\<exists>c. chan_step\<^sup>*\<^sup>* (chan_initial (NewNetworkStream 8)) c \<and> panicked c"
proof -
  obtain s' where "Append (NewNetworkStream 8) [1, 2] = Some s'" using sample_append ..
  from add_can_panic [OF this] show ?thesis .
qed

end
