(* ===== verification/Net_Conn.thy ===== *)
theory Net_Conn
  imports Prelude
begin

text \<open>
  The \<^verbatim>\<open>net.Conn\<close> values the sources read from and write to, and \<^verbatim>\<open>io.ReadFull\<close> and
  \<^verbatim>\<open>io.ReadAll\<close> over them. The peer is not part of the program: a transport connection carries
  a script of what its successive \<^verbatim>\<open>Read\<close> calls deliver (bytes, an error, or both) and of how its
  \<^verbatim>\<open>Write\<close> calls end, so a statement for all scripts is a statement for all peers and all ways
  the network cuts the data. On top of it sit the wrapper \<^verbatim>\<open>preReadConn\<close> of
  \<^verbatim>\<open>network/handler/http_handler.go\<close> and a TLS connection, whose plaintext side is again such a
  script.

  The locale \<open>reader\<close> is the contract of \<^verbatim>\<open>io.Reader\<close> as the callers rely on it, with the byte
  stream a reader still has to deliver as the abstraction; \<^verbatim>\<open>ReadFull\<close> and \<^verbatim>\<open>ReadAll\<close> are
  verified once against it.
\<close>

subsection \<open>Transport connections\<close>

record conn =
  inbound :: "(byte list \<times> go_error option) list"
  wscript :: "(nat \<times> go_error option) list"
  sent :: "byte list"
  conn_open :: bool
  rd_deadline :: bool
  wr_deadline :: bool

definition ErrNetClosed :: go_error where
  "ErrNetClosed = NetError False ''use of closed network connection''"

text \<open>
  \<^verbatim>\<open>Read\<close> with a buffer of \<open>m\<close> bytes: what fits of the next delivery. An error may come with the last data
  (\<^verbatim>\<open>crypto/tls\<close> returns data with \<^verbatim>\<open>io.EOF\<close> when a close notification is pending); the next read reports
  it again, alone.
\<close>

definition conn_read :: "nat \<Rightarrow> conn \<Rightarrow> (byte list \<times> go_error option) \<times> conn" where
  "conn_read m c =
     (if \<not> conn_open c then (([], Some ErrNetClosed), c)
      else case inbound c of
        [] \<Rightarrow> (([], Some EOF), c)
      | (d, e) # rest \<Rightarrow>
          if m < length d then ((take m d, None), c\<lparr>inbound := (drop m d, e) # rest\<rparr>)
          else ((d, e), c\<lparr>inbound := (if d \<noteq> [] \<and> e \<noteq> None then ([], e) # rest else rest)\<rparr>))"

text \<open>\<^verbatim>\<open>Write\<close>: the number of bytes taken, and the error.\<close>

definition conn_write :: "byte list \<Rightarrow> conn \<Rightarrow> (nat \<times> go_error option) \<times> conn" where
  "conn_write b c =
     (if \<not> conn_open c then ((0, Some ErrNetClosed), c)
      else case wscript c of
        [] \<Rightarrow> ((length b, None), c\<lparr>sent := sent c @ b\<rparr>)
      | (n, e) # rest \<Rightarrow>
          ((min n (length b), e), c\<lparr>wscript := rest, sent := sent c @ take n b\<rparr>))"

definition conn_close :: "conn \<Rightarrow> go_error option \<times> conn" where
  "conn_close c = (if conn_open c then None else Some ErrNetClosed, c\<lparr>conn_open := False\<rparr>)"

subsection \<open>Connections with wrappers\<close>

datatype nconn =
    TCPConn conn
  | PreReadConn "byte list" nconn
  | TLSConn conn nconn

text \<open>\<^verbatim>\<open>preReadConn.Read\<close> serves the bytes read too early first.\<close>

fun nread :: "nat \<Rightarrow> nconn \<Rightarrow> (byte list \<times> go_error option) \<times> nconn" where
  "nread m (TCPConn c) = (let (r, c') = conn_read m c in (r, TCPConn c'))"
| "nread m (PreReadConn pre c) =
     (if pre \<noteq> [] then ((take m pre, None), PreReadConn (drop m pre) c)
      else let (r, c') = nread m c in (r, PreReadConn [] c'))"
| "nread m (TLSConn p c) = (let (r, p') = conn_read m p in (r, TLSConn p' c))"

fun nwrite :: "byte list \<Rightarrow> nconn \<Rightarrow> (nat \<times> go_error option) \<times> nconn" where
  "nwrite b (TCPConn c) = (let (r, c') = conn_write b c in (r, TCPConn c'))"
| "nwrite b (PreReadConn pre c) = (let (r, c') = nwrite b c in (r, PreReadConn pre c'))"
| "nwrite b (TLSConn p c) = (let (r, p') = conn_write b p in (r, TLSConn p' c))"

text \<open>Closing a TLS connection closes the transport below it.\<close>

fun nclose :: "nconn \<Rightarrow> go_error option \<times> nconn" where
  "nclose (TCPConn c) = (let (r, c') = conn_close c in (r, TCPConn c'))"
| "nclose (PreReadConn pre c) = (let (r, c') = nclose c in (r, PreReadConn pre c'))"
| "nclose (TLSConn p c) =
     (let (r, p') = conn_close p; (r', c') = nclose c
      in (case r of None \<Rightarrow> r' | Some e \<Rightarrow> Some e, TLSConn p' c'))"

text \<open>\<^verbatim>\<open>SetReadDeadline\<close>, \<^verbatim>\<open>SetWriteDeadline\<close>, \<^verbatim>\<open>SetDeadline\<close>: armed or cleared (zero time).\<close>

fun set_deadlines :: "(conn \<Rightarrow> conn) \<Rightarrow> nconn \<Rightarrow> nconn" where
  "set_deadlines f (TCPConn c) = TCPConn (f c)"
| "set_deadlines f (PreReadConn pre c) = PreReadConn pre (set_deadlines f c)"
| "set_deadlines f (TLSConn p c) = TLSConn (f p) (set_deadlines f c)"

definition SetReadDeadline :: "bool \<Rightarrow> nconn \<Rightarrow> nconn" where
  "SetReadDeadline b = set_deadlines (\<lambda>c. c\<lparr>rd_deadline := b\<rparr>)"

definition SetWriteDeadline :: "bool \<Rightarrow> nconn \<Rightarrow> nconn" where
  "SetWriteDeadline b = set_deadlines (\<lambda>c. c\<lparr>wr_deadline := b\<rparr>)"

definition SetDeadline :: "bool \<Rightarrow> nconn \<Rightarrow> nconn" where
  "SetDeadline b = set_deadlines (\<lambda>c. c\<lparr>rd_deadline := b, wr_deadline := b\<rparr>)"

text \<open>What the connection's user has sent; whether the connection and its transport are open;
  whether a deadline is armed anywhere.\<close>

fun nsent :: "nconn \<Rightarrow> byte list" where
  "nsent (TCPConn c) = sent c"
| "nsent (PreReadConn pre c) = nsent c"
| "nsent (TLSConn p c) = sent p"

fun nopen :: "nconn \<Rightarrow> bool" where
  "nopen (TCPConn c) \<longleftrightarrow> conn_open c"
| "nopen (PreReadConn pre c) \<longleftrightarrow> nopen c"
| "nopen (TLSConn p c) \<longleftrightarrow> conn_open p \<and> nopen c"

text \<open>The transport socket at the bottom: open as long as nothing closed it.\<close>

fun socket_open :: "nconn \<Rightarrow> bool" where
  "socket_open (TCPConn c) \<longleftrightarrow> conn_open c"
| "socket_open (PreReadConn pre c) \<longleftrightarrow> socket_open c"
| "socket_open (TLSConn p c) \<longleftrightarrow> socket_open c"

fun deadline_armed :: "nconn \<Rightarrow> bool" where
  "deadline_armed (TCPConn c) \<longleftrightarrow> rd_deadline c \<or> wr_deadline c"
| "deadline_armed (PreReadConn pre c) \<longleftrightarrow> deadline_armed c"
| "deadline_armed (TLSConn p c) \<longleftrightarrow> rd_deadline p \<or> wr_deadline p \<or> deadline_armed c"

lemma socket_closed_nclose [simp]: "\<not> socket_open (snd (nclose c))"
  by (induction c) (auto simp: conn_close_def split: prod.split)

lemma nclose_socket: "nclose c = (r, c') \<Longrightarrow> \<not> socket_open c'"
  using socket_closed_nclose [of c] by simp

lemma SetDeadline_clears [simp]: "\<not> deadline_armed (SetDeadline False c)"
  by (induction c) (simp_all add: SetDeadline_def)

lemma nsent_set_deadlines:
  "(\<And>c. sent (f c) = sent c) \<Longrightarrow> nsent (set_deadlines f c) = nsent c"
  by (induction c) simp_all

lemma socket_open_set_deadlines:
  "(\<And>c. conn_open (f c) = conn_open c) \<Longrightarrow> socket_open (set_deadlines f c) = socket_open c"
  by (induction c) simp_all

lemma nsent_deadlines [simp]: "nsent (SetReadDeadline b c) = nsent c"
  "nsent (SetWriteDeadline b c) = nsent c" "nsent (SetDeadline b c) = nsent c"
  by (simp_all add: SetReadDeadline_def SetWriteDeadline_def SetDeadline_def nsent_set_deadlines)

lemma socket_open_deadlines [simp]: "socket_open (SetReadDeadline b c) = socket_open c"
  "socket_open (SetWriteDeadline b c) = socket_open c" "socket_open (SetDeadline b c) = socket_open c"
  by (simp_all add: SetReadDeadline_def SetWriteDeadline_def SetDeadline_def socket_open_set_deadlines)

lemma nsent_nread [simp]: "nsent (snd (nread m c)) = nsent c"
  by (induction c) (auto simp: conn_read_def split: prod.split list.split)

lemma nread_nsent: "nread m c = (r, c') \<Longrightarrow> nsent c' = nsent c"
  using nsent_nread [of m c] by simp

lemma socket_open_nread [simp]: "socket_open (snd (nread m c)) = socket_open c"
  by (induction c) (auto simp: conn_read_def split: prod.split list.split)

lemma socket_open_nwrite [simp]: "socket_open (snd (nwrite b c)) = socket_open c"
  by (induction c) (auto simp: conn_write_def split: prod.split list.split)

lemma nread_socket: "nread m c = (r, c') \<Longrightarrow> socket_open c' = socket_open c"
  using socket_open_nread [of m c] by simp

lemma nwrite_socket: "nwrite b c = (r, c') \<Longrightarrow> socket_open c' = socket_open c"
  using socket_open_nwrite [of b c] by simp

subsection \<open>What a connection still delivers\<close>

fun script_stream :: "(byte list \<times> go_error option) list \<Rightarrow> byte list \<times> go_error" where
  "script_stream [] = ([], EOF)"
| "script_stream ((d, None) # rest) = (let (bs, e) = script_stream rest in (d @ bs, e))"
| "script_stream ((d, Some e) # rest) = (d, e)"

definition conn_stream :: "conn \<Rightarrow> byte list \<times> go_error" where
  "conn_stream c = (if conn_open c then script_stream (inbound c) else ([], ErrNetClosed))"

text \<open>
  A delivery is regular when it is data, an error alone, or data with \<^verbatim>\<open>io.EOF\<close>. The sockets of \<^verbatim>\<open>net\<close> deliver the
  first two, \<^verbatim>\<open>crypto/tls\<close> also the third; it returns data with another error only when a fatal alert of
  the peer is pending, which is not regular.
\<close>

definition regular :: "byte list \<times> go_error option \<Rightarrow> bool" where
  "regular ev \<longleftrightarrow> (if fst ev = [] then snd ev \<noteq> None else snd ev \<in> {None, Some EOF})"

definition conn_regular :: "conn \<Rightarrow> bool" where
  "conn_regular c \<longleftrightarrow> list_all regular (inbound c)"

definition conn_budget :: "conn \<Rightarrow> nat" where
  "conn_budget c = sum_list (map (\<lambda>ev. Suc (length (fst ev))) (inbound c))"

fun nstream :: "nconn \<Rightarrow> byte list \<times> go_error" where
  "nstream (TCPConn c) = conn_stream c"
| "nstream (PreReadConn pre c) = (let (bs, e) = nstream c in (pre @ bs, e))"
| "nstream (TLSConn p c) = conn_stream p"

fun nregular :: "nconn \<Rightarrow> bool" where
  "nregular (TCPConn c) \<longleftrightarrow> conn_regular c"
| "nregular (PreReadConn pre c) \<longleftrightarrow> nregular c"
| "nregular (TLSConn p c) \<longleftrightarrow> conn_regular p"

fun nbudget :: "nconn \<Rightarrow> nat" where
  "nbudget (TCPConn c) = conn_budget c"
| "nbudget (PreReadConn pre c) = length pre + nbudget c"
| "nbudget (TLSConn p c) = conn_budget p"

subsection \<open>Readers\<close>

text \<open>
  \<^verbatim>\<open>io.ReadFull(r, buf)\<close> with \<open>n = len(buf)\<close>: the bytes read and the error. The fuel bounds the
  number of reads; \<open>reader.read_full_ok\<close> and \<open>reader.read_full_err\<close> show that the budget of the
  source is enough.
\<close>

fun read_full_loop ::
    "nat \<Rightarrow> (nat \<Rightarrow> 's \<Rightarrow> (byte list \<times> go_error option) \<times> 's) \<Rightarrow> nat \<Rightarrow> byte list \<Rightarrow> 's
     \<Rightarrow> (byte list \<times> go_error option) \<times> 's" where
  "read_full_loop 0 rd n acc s = ((acc, Some ErrNoProgress), s)"
| "read_full_loop (Suc fuel) rd n acc s =
     (if n \<le> length acc then ((acc, None), s)
      else case rd (n - length acc) s of
        ((d, None), s') \<Rightarrow> read_full_loop fuel rd n (acc @ d) s'
      | ((d, Some e), s') \<Rightarrow>
          if n \<le> length (acc @ d) then ((acc @ d, None), s')
          else if acc @ d \<noteq> [] \<and> e = EOF then ((acc @ d, Some ErrUnexpectedEOF), s')
          else ((acc @ d, Some e), s'))"

text \<open>
  \<^verbatim>\<open>io.ReadAll(r)\<close>: \<open>room n\<close> is the free space of the growing slice when it holds \<open>n\<close> bytes.
  \<^verbatim>\<open>io.EOF\<close> ends the loop without an error.
\<close>

fun read_all_loop ::
    "nat \<Rightarrow> (nat \<Rightarrow> 's \<Rightarrow> (byte list \<times> go_error option) \<times> 's) \<Rightarrow> (nat \<Rightarrow> nat) \<Rightarrow> byte list \<Rightarrow> 's
     \<Rightarrow> (byte list \<times> go_error option) \<times> 's" where
  "read_all_loop 0 rd room acc s = ((acc, Some ErrNoProgress), s)"
| "read_all_loop (Suc fuel) rd room acc s =
     (case rd (room (length acc)) s of
        ((d, None), s') \<Rightarrow> read_all_loop fuel rd room (acc @ d) s'
      | ((d, Some e), s') \<Rightarrow> ((acc @ d, if e = EOF then None else Some e), s'))"

text \<open>
  \<open>byte_source\<close>: successive reads deliver the stream and end with its error, which may come with
  the last data; this is enough for \<^verbatim>\<open>io.ReadAll\<close>. A \<open>reader\<close> delivers an error alone, or \<^verbatim>\<open>io.EOF\<close>
  with data and then again alone, as sockets and \<^verbatim>\<open>bufio\<close> readers do.
\<close>

locale byte_source =
  fixes rd :: "nat \<Rightarrow> 's \<Rightarrow> (byte list \<times> go_error option) \<times> 's"
    and invar :: "'s \<Rightarrow> bool"
    and stream :: "'s \<Rightarrow> byte list \<times> go_error"
    and budget :: "'s \<Rightarrow> nat"
  assumes rd_len: "invar s \<Longrightarrow> 0 < m \<Longrightarrow> rd m s = ((d, eo), s') \<Longrightarrow> length d \<le> m"
    and rd_invar: "invar s \<Longrightarrow> 0 < m \<Longrightarrow> rd m s = ((d, None), s') \<Longrightarrow> invar s'"
    and rd_data: "invar s \<Longrightarrow> 0 < m \<Longrightarrow> rd m s = ((d, None), s') \<Longrightarrow>
      stream s = (d @ fst (stream s'), snd (stream s'))"
    and rd_last: "invar s \<Longrightarrow> 0 < m \<Longrightarrow> rd m s = ((d, Some e), s') \<Longrightarrow> stream s = (d, e)"
    and rd_budget: "invar s \<Longrightarrow> 0 < m \<Longrightarrow> rd m s = ((d, None), s') \<Longrightarrow> budget s' < budget s"
begin

lemma read_all_loop_result:
  assumes "invar s" and "budget s < fuel" and "\<And>n. 0 < room n"
  shows "\<exists>s'. read_all_loop fuel rd room acc s =
     ((acc @ fst (stream s), if snd (stream s) = EOF then None else Some (snd (stream s))), s')"
  using assms(1,2)
proof (induction fuel arbitrary: acc s)
  case 0
  then show ?case by simp
next
  case (Suc fuel)
  obtain d e s' where rd: "rd (room (length acc)) s = ((d, e), s')" by (metis surj_pair)
  note pos = assms(3) [of "length acc"]
  show ?case
  proof (cases e)
    case None
    note rd' = rd [unfolded None]
    have "\<exists>t. read_all_loop fuel rd room (acc @ d) s' =
       (((acc @ d) @ fst (stream s'), if snd (stream s') = EOF then None else Some (snd (stream s'))), t)"
      using rd_invar [OF Suc.prems(1) pos rd'] rd_budget [OF Suc.prems(1) pos rd'] Suc.prems
      by (intro Suc.IH) auto
    with rd' rd_data [OF Suc.prems(1) pos rd'] show ?thesis by auto
  next
    case (Some err)
    with rd_last [OF Suc.prems(1) pos] rd have "stream s = (d, err)" by simp
    with rd Some show ?thesis by auto
  qed
qed

end

locale reader = byte_source +
  assumes rd_again: "invar s \<Longrightarrow> 0 < m \<Longrightarrow> rd m s = ((d, Some e), s') \<Longrightarrow> d \<noteq> [] \<Longrightarrow>
    e = EOF \<and> invar s' \<and> stream s' = ([], EOF)"
begin

lemma read_full_loop_ok:
  assumes "invar s" and "budget s < fuel" and "n \<le> length acc + length (fst (stream s))"
    and "length acc \<le> n"
  shows "\<exists>s'. read_full_loop fuel rd n acc s = ((acc @ take (n - length acc) (fst (stream s)), None), s')
           \<and> invar s' \<and> stream s' = (drop (n - length acc) (fst (stream s)), snd (stream s))"
  using assms
proof (induction fuel arbitrary: acc s)
  case 0
  then show ?case by simp
next
  case (Suc fuel)
  show ?case
  proof (cases "n \<le> length acc")
    case True
    with Suc.prems show ?thesis by simp
  next
    case False
    obtain d e s' where rd: "rd (n - length acc) s = ((d, e), s')" by (metis surj_pair)
    have pos: "0 < n - length acc" using False by simp
    show ?thesis
    proof (cases e)
      case None
      note rd' = rd [unfolded None]
      have st: "stream s = (d @ fst (stream s'), snd (stream s'))"
        using rd_data [OF Suc.prems(1) pos rd'] .
      have len: "length d \<le> n - length acc"
        using rd_len [OF Suc.prems(1) pos rd] .
      have "\<exists>t. read_full_loop fuel rd n (acc @ d) s'
            = ((acc @ d @ take (n - length (acc @ d)) (fst (stream s')), None), t)
          \<and> invar t \<and> stream t = (drop (n - length (acc @ d)) (fst (stream s')), snd (stream s'))"
        using Suc.IH [of s' "acc @ d"] rd_invar [OF Suc.prems(1) pos rd']
          rd_budget [OF Suc.prems(1) pos rd'] Suc.prems len st False by auto
      with False rd' st len show ?thesis by auto
    next
      case (Some err)
      with rd_last [OF Suc.prems(1) pos] rd have st: "stream s = (d, err)" by simp
      then have "n \<le> length (acc @ d)" "d \<noteq> []" using Suc.prems(3,4) False by auto
      with rd_again [OF Suc.prems(1) pos] rd_len [OF Suc.prems(1) pos rd] rd Some st False show ?thesis by auto
    qed
  qed
qed

lemma read_full_loop_err:
  assumes "invar s" and "budget s < fuel" and "length acc + length (fst (stream s)) < n"
  shows "\<exists>s'. read_full_loop fuel rd n acc s =
     ((acc @ fst (stream s), Some (if acc @ fst (stream s) \<noteq> [] \<and> snd (stream s) = EOF
         then ErrUnexpectedEOF else snd (stream s))), s')"
  using assms
proof (induction fuel arbitrary: acc s)
  case 0
  then show ?case by simp
next
  case (Suc fuel)
  obtain d e s' where rd: "rd (n - length acc) s = ((d, e), s')" by (metis surj_pair)
  have pos: "0 < n - length acc" using Suc.prems by simp
  show ?case
  proof (cases e)
    case None
    note rd' = rd [unfolded None]
    have st: "stream s = (d @ fst (stream s'), snd (stream s'))"
      using rd_data [OF Suc.prems(1) pos rd'] .
    have "\<exists>t. read_full_loop fuel rd n (acc @ d) s' =
       (((acc @ d) @ fst (stream s'), Some (if (acc @ d) @ fst (stream s') \<noteq> [] \<and> snd (stream s') = EOF
         then ErrUnexpectedEOF else snd (stream s'))), t)"
      using rd_invar [OF Suc.prems(1) pos rd'] rd_budget [OF Suc.prems(1) pos rd'] Suc.prems st
      by (intro Suc.IH) auto
    with rd' st pos show ?thesis by auto
  next
    case (Some err)
    with rd_last [OF Suc.prems(1) pos] rd have "stream s = (d, err)" by simp
    with Suc.prems rd Some show ?thesis by auto
  qed
qed

end

subsection \<open>Connections are readers\<close>

lemma script_stream_split:
  "script_stream ((x, e) # rest) = (take m x @ fst (script_stream ((drop m x, e) # rest)), snd (script_stream ((drop m x, e) # rest)))"
  by (cases e) (auto simp: case_prod_beta append_assoc [symmetric] simp del: append_assoc)

lemma conn_read_laws:
  assumes "conn_regular c" and "0 < m" and "conn_read m c = ((d, e), c')"
  shows "length d \<le> m"
    and "e = None \<Longrightarrow> d \<noteq> [] \<and> conn_regular c' \<and> conn_stream c = (d @ fst (conn_stream c'), snd (conn_stream c'))
           \<and> conn_budget c' < conn_budget c"
    and "e = Some err \<Longrightarrow> conn_stream c = (d, err) \<and> (d \<noteq> [] \<longrightarrow> err = EOF \<and> conn_regular c' \<and> conn_stream c' = ([], EOF))"
  using assms script_stream_split [of "fst (hd (inbound c))" "snd (hd (inbound c))" "tl (inbound c)" m]
  by (auto simp: conn_read_def conn_regular_def conn_stream_def conn_budget_def regular_def
      split: if_splits list.splits prod.splits option.splits)

text \<open>The laws in one statement, for the induction over the wrappers.\<close>

definition read_lawful :: "nat \<Rightarrow> nconn \<Rightarrow> bool" where
  "read_lawful m c \<longleftrightarrow> (\<forall>d e c'. nread m c = ((d, e), c') \<longrightarrow> length d \<le> m \<and>
     (case e of
        None \<Rightarrow> d \<noteq> [] \<and> nregular c' \<and> nstream c = (d @ fst (nstream c'), snd (nstream c'))
                \<and> nbudget c' < nbudget c
      | Some err \<Rightarrow> nstream c = (d, err) \<and> (d \<noteq> [] \<longrightarrow> err = EOF \<and> nregular c' \<and> nstream c' = ([], EOF))))"

lemma read_lawful_nconn: "nregular c \<Longrightarrow> 0 < m \<Longrightarrow> read_lawful m c"
proof (induction c)
  case (TCPConn c)
  obtain d e c' where rd: "conn_read m c = ((d, e), c')" by (metis surj_pair)
  with conn_read_laws [OF _ _ rd] TCPConn show ?case by (cases e) (auto simp: read_lawful_def)
next
  case (PreReadConn pre c)
  show ?case
  proof (cases "pre = []")
    case True
    obtain d e c' where rd: "nread m c = ((d, e), c')" by (metis surj_pair)
    from PreReadConn.IH PreReadConn.prems rd have "length d \<le> m \<and> (case e of
        None \<Rightarrow> d \<noteq> [] \<and> nregular c' \<and> nstream c = (d @ fst (nstream c'), snd (nstream c')) \<and> nbudget c' < nbudget c
      | Some err \<Rightarrow> nstream c = (d, err) \<and> (d \<noteq> [] \<longrightarrow> err = EOF \<and> nregular c' \<and> nstream c' = ([], EOF)))"
      by (simp add: read_lawful_def)
    with True rd show ?thesis by (cases e) (auto simp: read_lawful_def case_prod_beta)
  next
    case False
    then have "length pre - m < length pre" using PreReadConn.prems by simp
    with False PreReadConn.prems show ?thesis
      by (auto simp: read_lawful_def case_prod_beta append_assoc [symmetric] simp del: append_assoc)
  qed
next
  case (TLSConn p c)
  obtain d e p' where rd: "conn_read m p = ((d, e), p')" by (metis surj_pair)
  with conn_read_laws [OF _ _ rd] TLSConn show ?case by (cases e) (auto simp: read_lawful_def)
qed

lemma nread_laws:
  assumes "nregular c" and "0 < m" and "nread m c = ((d, e), c')"
  shows "length d \<le> m"
    and "e = None \<Longrightarrow> nregular c'"
    and "e = None \<Longrightarrow> nstream c = (d @ fst (nstream c'), snd (nstream c'))"
    and "e = None \<Longrightarrow> nbudget c' < nbudget c"
    and "e = Some err \<Longrightarrow> nstream c = (d, err)"
    and "e = None \<Longrightarrow> d \<noteq> []"
    and "e = Some err \<Longrightarrow> d \<noteq> [] \<Longrightarrow> err = EOF \<and> nregular c' \<and> nstream c' = ([], EOF)"
  using read_lawful_nconn [OF assms(1,2)] assms(3) by (auto simp: read_lawful_def)

interpretation nconn_reader: reader nread nregular nstream nbudget
proof (unfold_locales, goal_cases)
  case (1 s m d eo s')
  then show ?case by (rule nread_laws(1))
next
  case (2 s m d s')
  then show ?case by (rule nread_laws(2) [OF _ _ _ refl])
next
  case (3 s m d s')
  then show ?case by (rule nread_laws(3) [OF _ _ _ refl])
next
  case (4 s m d e s')
  then show ?case by (rule nread_laws(5) [OF _ _ _ refl])
next
  case (5 s m d s')
  then show ?case by (rule nread_laws(4) [OF _ _ _ refl])
next
  case (6 s m d e s')
  then show ?case by (rule nread_laws(7) [OF _ _ _ refl])
qed

text \<open>\<^verbatim>\<open>io.ReadFull(conn, buf)\<close> and \<^verbatim>\<open>conn.Write(b)\<close> as the handlers use them.\<close>

definition conn_read_full :: "nat \<Rightarrow> (nconn, byte list) io" where
  "conn_read_full n = (\<lambda>c. case read_full_loop (Suc (nbudget c)) nread n [] c of
      ((d, None), c') \<Rightarrow> (Inr d, c')
    | ((d, Some e), c') \<Rightarrow> (Inl e, c'))"

definition conn_write_all :: "byte list \<Rightarrow> (nconn, unit) io" where
  "conn_write_all b = (\<lambda>c. case nwrite b c of
      ((n, None), c') \<Rightarrow> (Inr (), c')
    | ((n, Some e), c') \<Rightarrow> (Inl e, c'))"

lemma conn_read_full_ok:
  assumes "nregular c" and "nstream c = (bs @ rest, e)" and "length bs = n"
  shows "\<exists>c'. conn_read_full n c = (Inr bs, c') \<and> nregular c' \<and> nstream c' = (rest, e)"
  using nconn_reader.read_full_loop_ok [of c "Suc (nbudget c)" n "[]"] assms
  by (auto simp: conn_read_full_def)

lemma conn_read_full_err:
  assumes "nregular c" and "length (fst (nstream c)) < n"
  shows "\<exists>c'. conn_read_full n c = (Inl (if fst (nstream c) \<noteq> [] \<and> snd (nstream c) = EOF
      then ErrUnexpectedEOF else snd (nstream c)), c')"
  using nconn_reader.read_full_loop_err [of c "Suc (nbudget c)" "[]" n] assms
  by (auto simp: conn_read_full_def)

lemma conn_read_full_cases:
  assumes "nregular c" and "conn_read_full n c = (Inr d, c')"
  shows "length d = n \<and> nregular c' \<and> nstream c = (d @ fst (nstream c'), snd (nstream c'))"
proof (cases "n \<le> length (fst (nstream c))")
  case True
  obtain bs e where st: "nstream c = (bs, e)" by force
  with True have "nstream c = (take n bs @ drop n bs, e)" "length (take n bs) = n" by simp_all
  from conn_read_full_ok [OF assms(1) this] assms(2) show ?thesis
    using st \<open>length (take n bs) = n\<close> by auto
next
  case False
  with conn_read_full_err [OF assms(1), of n] assms(2) show ?thesis by auto
qed

text \<open>Reading leaves what was sent, and the open state, alone.\<close>

lemma read_full_loop_frame:
  assumes "\<And>m s. P (snd (rd m s)) = P s"
  shows "P (snd (read_full_loop fuel rd n acc s)) = P s"
  using assms
proof (induction fuel arbitrary: acc s)
  case 0
  then show ?case by simp
next
  case (Suc fuel)
  obtain d e s' where rd: "rd (n - length acc) s = ((d, e), s')" by (metis surj_pair)
  with Suc.prems [of "n - length acc" s] have "P s' = P s" by simp
  with rd Suc show ?case by (cases e) simp_all
qed

lemma conn_read_full_frame [simp]:
  "nsent (snd (conn_read_full n c)) = nsent c"
  "socket_open (snd (conn_read_full n c)) = socket_open c"
proof -
  have "snd (conn_read_full n c) = snd (read_full_loop (Suc (nbudget c)) nread n [] c)"
    by (auto simp: conn_read_full_def split: prod.split option.split)
  then show "nsent (snd (conn_read_full n c)) = nsent c"
    "socket_open (snd (conn_read_full n c)) = socket_open c"
    using read_full_loop_frame [of "\<lambda>x. nsent x = nsent c" nread "Suc (nbudget c)" n "[]" c]
      read_full_loop_frame [of socket_open nread "Suc (nbudget c)" n "[]" c]
    by (simp_all del: read_full_loop.simps)
qed

end
