(* ===== verification/Go_Strings.thy ===== *)
theory Go_Strings
  imports Prelude "HOL-Library.Sublist"
begin

text \<open>
  What the sources use of Go's \<^verbatim>\<open>strings\<close>, \<^verbatim>\<open>bytes\<close>, \<^verbatim>\<open>strconv\<close>, \<^verbatim>\<open>unicode/utf8\<close> and
  \<^verbatim>\<open>net\<close> string helpers, on byte strings. White space is the Unicode white space that
  \<^verbatim>\<open>strings.TrimSpace\<close> and \<^verbatim>\<open>strings.Fields\<close> know, recognised by its UTF-8 encoding. Case
  mapping covers ASCII and the few other code points that map to an ASCII letter (the Kelvin
  sign, the dotted capital and dotless small i, the long s); every other byte is left alone, so
  a comparison with an ASCII text has the outcome it has in Go.
\<close>

subsection \<open>Searching and splitting\<close>

text \<open>\<^verbatim>\<open>strings.Index\<close>, with \<^term>\<open>None\<close> for \<open>-1\<close>.\<close>

fun index_of :: "'a list \<Rightarrow> 'a list \<Rightarrow> nat option" where
  "index_of [] sub = (if sub = [] then Some 0 else None)"
| "index_of (x # xs) sub =
     (if prefix sub (x # xs) then Some 0 else map_option Suc (index_of xs sub))"

definition contains :: "'a list \<Rightarrow> 'a list \<Rightarrow> bool" where
  "contains s sub \<longleftrightarrow> index_of s sub \<noteq> None"

lemma take_prefix_eq: "prefix xs ys \<Longrightarrow> take (length xs) ys = xs"
  by (auto simp: prefix_def)

lemma index_of_Some:
  "index_of s sub = Some i \<Longrightarrow> i + length sub \<le> length s \<and> take (length sub) (drop i s) = sub"
proof (induction s arbitrary: i)
  case Nil
  then show ?case by (simp split: if_splits)
next
  case (Cons x xs)
  then show ?case
    by (auto simp: take_prefix_eq dest: prefix_length_le split: if_splits)
qed

lemma index_of_first: "index_of s sub = Some i \<Longrightarrow> j < i \<Longrightarrow> \<not> prefix sub (drop j s)"
proof (induction s arbitrary: i j)
  case Nil
  then show ?case by (simp split: if_splits)
next
  case (Cons x xs)
  then show ?case by (cases j) (auto split: if_splits)
qed

lemma index_of_decomp:
  assumes "index_of s sub = Some i"
  shows "s = take i s @ sub @ drop (i + length sub) s"
proof -
  have "take (length sub) (drop i s) = sub"
    using index_of_Some [OF assms] by simp
  then have "drop i s = sub @ drop (length sub) (drop i s)"
    by (metis append_take_drop_id)
  then show ?thesis by (metis add.commute append_take_drop_id drop_drop)
qed

lemma index_of_None: "index_of s sub = None \<Longrightarrow> \<not> prefix sub (drop j s)"
proof (induction s arbitrary: j)
  case Nil
  then show ?case by (auto split: if_splits)
next
  case (Cons x xs)
  then show ?case by (cases j) (auto split: if_splits)
qed

lemma index_of_prefix: "prefix sub s \<Longrightarrow> index_of s sub = Some 0"
  by (cases s) auto

lemma contains_iff_sublist: "contains s sub \<longleftrightarrow> sublist sub s"
proof
  assume "contains s sub"
  then obtain i where "index_of s sub = Some i" by (auto simp: contains_def)
  then show "sublist sub s" by (metis index_of_decomp sublist_appendI)
next
  assume "sublist sub s"
  then obtain ps ss where "s = ps @ sub @ ss" by (auto simp: sublist_def)
  then have "prefix sub (drop (length ps) s)" by simp
  then show "contains s sub" by (metis contains_def index_of_None)
qed

text \<open>\<^verbatim>\<open>strings.HasPrefix\<close> and \<^verbatim>\<open>strings.HasSuffix\<close> are \<^const>\<open>prefix\<close> and \<^const>\<open>suffix\<close>.\<close>

abbreviation has_prefix :: "string \<Rightarrow> string \<Rightarrow> bool" where
  "has_prefix s p \<equiv> prefix p s"

abbreviation has_suffix :: "string \<Rightarrow> string \<Rightarrow> bool" where
  "has_suffix s p \<equiv> suffix p s"

text \<open>\<^verbatim>\<open>strings.Split\<close> with a non-empty separator.\<close>

function split_on :: "string \<Rightarrow> string \<Rightarrow> string list" where
  "split_on sep s =
     (case index_of s sep of
        None \<Rightarrow> [s]
      | Some i \<Rightarrow> if sep = [] then [s] else take i s # split_on sep (drop (i + length sep) s))"
  by pat_completeness auto
termination
proof (relation "measure (length \<circ> snd)", simp)
  fix sep s i assume "index_of s sep = Some i" and "sep \<noteq> []"
  then show "((sep, drop (i + length sep) s), sep, s) \<in> measure (length \<circ> snd)"
    using index_of_Some [of s sep i] by (cases sep) auto
qed

declare split_on.simps [simp del]

text \<open>\<^verbatim>\<open>strings.Join\<close>.\<close>

fun join :: "string \<Rightarrow> string list \<Rightarrow> string" where
  "join sep [] = []"
| "join sep [s] = s"
| "join sep (s # t # ts) = s @ sep @ join sep (t # ts)"

lemma split_on_ne: "split_on sep s \<noteq> []"
  by (subst split_on.simps) (simp split: option.split)

lemma join_Cons: "ss \<noteq> [] \<Longrightarrow> join sep (s # ss) = s @ sep @ join sep ss"
  by (cases ss) simp_all

lemma join_split_on: "join sep (split_on sep s) = s"
proof (induction sep s rule: split_on.induct)
  case (1 sep s)
  show ?case
  proof (cases "index_of s sep")
    case None
    then show ?thesis by (subst split_on.simps) simp
  next
    case (Some i)
    show ?thesis
    proof (cases "sep = []")
      case True
      with Some show ?thesis by (subst split_on.simps) simp
    next
      case False
      with Some 1 have "join sep (split_on sep (drop (i + length sep) s)) = drop (i + length sep) s"
        by blast
      with Some False show ?thesis
        by (subst split_on.simps)
          (simp add: join_Cons split_on_ne index_of_decomp [OF Some, symmetric])
    qed
  qed
qed

text \<open>\<^verbatim>\<open>strings.TrimRight(s, cutset)\<close> for an ASCII cutset.\<close>

definition trim_right_set :: "string \<Rightarrow> string \<Rightarrow> string" where
  "trim_right_set cutset s = rev (dropWhile (\<lambda>c. c \<in> set cutset) (rev s))"

text \<open>\<^verbatim>\<open>strings.TrimSuffix\<close>.\<close>

definition trim_suffix :: "string \<Rightarrow> string \<Rightarrow> string" where
  "trim_suffix suf s = (if has_suffix s suf then take (length s - length suf) s else s)"

text \<open>\<^verbatim>\<open>strings.Cut\<close>: before, after, found.\<close>

definition cut_at :: "string \<Rightarrow> string \<Rightarrow> string \<times> string \<times> bool" where
  "cut_at s sep = (case index_of s sep of
      None \<Rightarrow> (s, [], False)
    | Some i \<Rightarrow> (take i s, drop (i + length sep) s, True))"

text \<open>\<^verbatim>\<open>strings.ReplaceAll\<close> of one character by a text.\<close>

definition replace_char :: "char \<Rightarrow> string \<Rightarrow> string \<Rightarrow> string" where
  "replace_char c t s = concat (map (\<lambda>x. if x = c then t else [x]) s)"

subsection \<open>White space\<close>

text \<open>The UTF-8 encodings of the white space of \<^verbatim>\<open>unicode.IsSpace\<close>.\<close>

definition spaces :: "string list" where
  "spaces =
     map (\<lambda>c. [c]) [CHR 9, CHR 10, CHR 11, CHR 12, CHR 13, CHR 32]
     @ [[CHR 0xC2, CHR 0x85], [CHR 0xC2, CHR 0xA0], [CHR 0xE1, CHR 0x9A, CHR 0x80]]
     @ map (\<lambda>c. [CHR 0xE2, CHR 0x80, c])
         [CHR 0x80, CHR 0x81, CHR 0x82, CHR 0x83, CHR 0x84, CHR 0x85, CHR 0x86, CHR 0x87,
          CHR 0x88, CHR 0x89, CHR 0x8A, CHR 0xA8, CHR 0xA9, CHR 0xAF]
     @ [[CHR 0xE2, CHR 0x81, CHR 0x9F], [CHR 0xE3, CHR 0x80, CHR 0x80]]"

text \<open>The size of the white-space character at the head of a string, 0 if there is none.\<close>

definition space_len :: "string \<Rightarrow> nat" where
  "space_len s = (case find (\<lambda>w. prefix w s) spaces of None \<Rightarrow> 0 | Some w \<Rightarrow> length w)"

definition space_len_end :: "string \<Rightarrow> nat" where
  "space_len_end s = (case find (\<lambda>w. suffix w s) spaces of None \<Rightarrow> 0 | Some w \<Rightarrow> length w)"

lemma spaces_ne: "w \<in> set spaces \<Longrightarrow> w \<noteq> []"
  by (auto simp: spaces_def)

lemma space_len_le: "space_len s \<le> length s"
  by (auto simp: space_len_def find_Some_iff dest!: prefix_length_le split: option.split)

lemma space_len_end_le: "space_len_end s \<le> length s"
  by (auto simp: space_len_end_def find_Some_iff dest!: suffix_length_le split: option.split)

lemma space_len_Nil [simp]: "space_len [] = 0" "space_len_end [] = 0"
  using space_len_le [of "[]"] space_len_end_le [of "[]"] by simp_all

function trim_left_space :: "string \<Rightarrow> string" where
  "trim_left_space s = (if space_len s = 0 then s else trim_left_space (drop (space_len s) s))"
  by pat_completeness auto
termination
proof (relation "measure length", simp)
  fix s assume "space_len s \<noteq> 0"
  then show "(drop (space_len s) s, s) \<in> measure length"
    using space_len_le [of s] by simp
qed

function trim_right_space :: "string \<Rightarrow> string" where
  "trim_right_space s =
     (if space_len_end s = 0 then s else trim_right_space (take (length s - space_len_end s) s))"
  by pat_completeness auto
termination
proof (relation "measure length", simp)
  fix s assume "space_len_end s \<noteq> 0"
  then show "(take (length s - space_len_end s) s, s) \<in> measure length"
    using space_len_end_le [of s] by simp
qed

declare trim_left_space.simps [simp del] trim_right_space.simps [simp del]

text \<open>\<^verbatim>\<open>strings.TrimSpace\<close>.\<close>

definition trim_space :: "string \<Rightarrow> string" where
  "trim_space s = trim_right_space (trim_left_space s)"

lemma trim_space_Nil [simp]: "trim_space [] = []"
  by (simp add: trim_space_def trim_left_space.simps trim_right_space.simps)

lemma space_len_eq_0: "space_len s = 0 \<longleftrightarrow> (\<forall>w \<in> set spaces. \<not> prefix w s)"
  using spaces_ne by (auto simp: space_len_def find_None_iff find_Some_iff split: option.split)

lemma space_len_end_eq_0: "space_len_end s = 0 \<longleftrightarrow> (\<forall>w \<in> set spaces. \<not> suffix w s)"
  using spaces_ne by (auto simp: space_len_end_def find_None_iff find_Some_iff split: option.split)

lemma trim_left_space_clean: "space_len (trim_left_space s) = 0"
proof (induction s rule: trim_left_space.induct)
  case (1 s)
  then show ?case by (cases "space_len s = 0") (simp_all add: trim_left_space.simps [of s])
qed

lemma trim_right_space_clean: "space_len_end (trim_right_space s) = 0"
proof (induction s rule: trim_right_space.induct)
  case (1 s)
  then show ?case by (cases "space_len_end s = 0") (simp_all add: trim_right_space.simps [of s])
qed

lemma trim_right_space_prefix: "prefix (trim_right_space s) s"
proof (induction s rule: trim_right_space.induct)
  case (1 s)
  show ?case
  proof (cases "space_len_end s = 0")
    case True
    then show ?thesis by (simp add: trim_right_space.simps [of s])
  next
    case False
    with 1 have "prefix (trim_right_space s) (take (length s - space_len_end s) s)"
      by (simp add: trim_right_space.simps [of s])
    then show ?thesis using take_is_prefix prefix_order.trans by blast
  qed
qed

lemma trim_space_clean: "space_len (trim_space s) = 0" "space_len_end (trim_space s) = 0"
proof -
  have "prefix (trim_space s) (trim_left_space s)"
    by (simp add: trim_space_def trim_right_space_prefix)
  then show "space_len (trim_space s) = 0"
    using trim_left_space_clean [of s] by (auto simp: space_len_eq_0 intro: prefix_order.trans)
  show "space_len_end (trim_space s) = 0"
    by (simp add: trim_space_def trim_right_space_clean)
qed

lemma trim_space_id: "space_len s = 0 \<Longrightarrow> space_len_end s = 0 \<Longrightarrow> trim_space s = s"
  by (simp add: trim_space_def trim_left_space.simps [of s] trim_right_space.simps [of s])

lemma trim_space_idem [simp]: "trim_space (trim_space s) = trim_space s"
  by (intro trim_space_id trim_space_clean)

text \<open>\<^verbatim>\<open>strings.Fields\<close>: the maximal runs without white space.\<close>

fun fields_aux :: "string \<Rightarrow> string \<Rightarrow> string list" where
  "fields_aux cur [] = (if cur = [] then [] else [rev cur])"
| "fields_aux cur (c # cs) =
     (if space_len (c # cs) = 0 then fields_aux (c # cur) cs
      else (if cur = [] then [] else [rev cur]) @ fields_aux [] (drop (space_len (c # cs) - 1) cs))"

definition fields :: "string \<Rightarrow> string list" where
  "fields s = fields_aux [] s"

subsection \<open>Case mapping\<close>

definition ascii_lower :: "char \<Rightarrow> char" where
  "ascii_lower c = (let n = of_char c :: nat in if 65 \<le> n \<and> n \<le> 90 then char_of (n + 32) else c)"

definition ascii_upper :: "char \<Rightarrow> char" where
  "ascii_upper c = (let n = of_char c :: nat in if 97 \<le> n \<and> n \<le> 122 then char_of (n - 32) else c)"

text \<open>Maps single bytes by \<open>f\<close>, except that an encoding listed in \<open>tbl\<close> becomes its character.\<close>

fun map_text :: "(char \<Rightarrow> char) \<Rightarrow> (string \<times> char) list \<Rightarrow> string \<Rightarrow> string" where
  "map_text f tbl [] = []"
| "map_text f tbl (c # cs) =
     (case find (\<lambda>(k, _). prefix k (c # cs)) tbl of
        Some (k, r) \<Rightarrow> r # map_text f tbl (drop (length k - 1) cs)
      | None \<Rightarrow> f c # map_text f tbl cs)"

text \<open>\<^verbatim>\<open>strings.ToLower\<close>, \<^verbatim>\<open>strings.ToUpper\<close> and \<^verbatim>\<open>strings.EqualFold\<close>.\<close>

definition to_lower :: "string \<Rightarrow> string" where
  "to_lower = map_text ascii_lower
     [([CHR 0xE2, CHR 0x84, CHR 0xAA], CHR ''k''), ([CHR 0xC4, CHR 0xB0], CHR ''i'')]"

definition to_upper :: "string \<Rightarrow> string" where
  "to_upper = map_text ascii_upper
     [([CHR 0xC5, CHR 0xBF], CHR ''S''), ([CHR 0xC4, CHR 0xB1], CHR ''I'')]"

definition case_fold :: "string \<Rightarrow> string" where
  "case_fold = map_text ascii_lower
     [([CHR 0xE2, CHR 0x84, CHR 0xAA], CHR ''k''), ([CHR 0xC5, CHR 0xBF], CHR ''s'')]"

definition equal_fold :: "string \<Rightarrow> string \<Rightarrow> bool" where
  "equal_fold s t \<longleftrightarrow> case_fold s = case_fold t"

definition ascii :: "string \<Rightarrow> bool" where
  "ascii s \<longleftrightarrow> list_all (\<lambda>c. (of_char c :: nat) < 128) s"

lemma ascii_simps [simp]: "ascii []" "ascii (c # cs) \<longleftrightarrow> (of_char c :: nat) < 128 \<and> ascii cs"
  by (simp_all add: ascii_def)

lemma map_text_ascii:
  assumes "ascii s" and "list_all (\<lambda>(k, _). k \<noteq> [] \<and> 128 \<le> (of_char (hd k) :: nat)) tbl"
  shows "map_text f tbl s = map f s"
  using assms(1)
proof (induction s)
  case Nil
  then show ?case by simp
next
  case (Cons c cs)
  have "\<not> prefix k (c # cs)" if "(k, r) \<in> set tbl" for k r
    using that assms(2) Cons.prems by (cases k) (auto simp: list_all_iff)
  then have "find (\<lambda>(k, _). prefix k (c # cs)) tbl = None"
    by (auto simp: find_None_iff)
  with Cons show ?case by simp
qed

lemma to_lower_ascii: "ascii s \<Longrightarrow> to_lower s = map ascii_lower s"
  unfolding to_lower_def by (rule map_text_ascii) simp_all

lemma to_upper_ascii: "ascii s \<Longrightarrow> to_upper s = map ascii_upper s"
  unfolding to_upper_def by (rule map_text_ascii) simp_all

lemma case_fold_ascii: "ascii s \<Longrightarrow> case_fold s = map ascii_lower s"
  unfolding case_fold_def by (rule map_text_ascii) simp_all

lemma equal_fold_refl [simp]: "equal_fold s s"
  by (simp add: equal_fold_def)

lemma equal_fold_sym: "equal_fold s t \<longleftrightarrow> equal_fold t s"
  by (auto simp: equal_fold_def)

lemma equal_fold_trans: "equal_fold s t \<Longrightarrow> equal_fold t u \<Longrightarrow> equal_fold s u"
  by (simp add: equal_fold_def)

subsection \<open>Numbers\<close>

text \<open>The value of a digit in any base up to 36, as \<^verbatim>\<open>strconv.ParseUint\<close> reads it.\<close>

definition digit_value :: "char \<Rightarrow> nat option" where
  "digit_value c = (let n = of_char c :: nat in
     if 48 \<le> n \<and> n \<le> 57 then Some (n - 48)
     else if 97 \<le> n \<and> n \<le> 122 then Some (n - 97 + 10)
     else if 65 \<le> n \<and> n \<le> 90 then Some (n - 65 + 10)
     else None)"

fun parse_digits :: "nat \<Rightarrow> nat \<Rightarrow> string \<Rightarrow> nat option" where
  "parse_digits base acc [] = Some acc"
| "parse_digits base acc (c # cs) =
     (case digit_value c of
        None \<Rightarrow> None
      | Some d \<Rightarrow> if d < base then parse_digits base (acc * base + d) cs else None)"

definition parse_uint :: "nat \<Rightarrow> string \<Rightarrow> nat option" where
  "parse_uint base s = (if s = [] then None else parse_digits base 0 s)"

text \<open>\<^verbatim>\<open>strconv.ParseInt(s, base, 64)\<close>; a syntax or a range error is \<^term>\<open>None\<close>.\<close>

definition parse_int :: "nat \<Rightarrow> string \<Rightarrow> int option" where
  "parse_int base s =
     (case s of
        [] \<Rightarrow> None
      | c # cs \<Rightarrow>
          Option.bind
            (if c = CHR ''-'' then map_option (\<lambda>n. - int n) (parse_uint base cs)
             else if c = CHR ''+'' then map_option int (parse_uint base cs)
             else map_option int (parse_uint base s))
            (\<lambda>v. if int64_range v then Some v else None))"

text \<open>\<^verbatim>\<open>strconv.Atoi\<close> on a 64-bit target.\<close>

definition atoi :: "string \<Rightarrow> int option" where
  "atoi = parse_int 10"

text \<open>\<^verbatim>\<open>strconv.Itoa\<close> and \<^verbatim>\<open>%d\<close>.\<close>

definition digit_char :: "nat \<Rightarrow> char" where
  "digit_char d = char_of (48 + d)"

fun show_nat :: "nat \<Rightarrow> string" where
  "show_nat n = (if n < 10 then [digit_char n] else show_nat (n div 10) @ [digit_char (n mod 10)])"

declare show_nat.simps [simp del]

definition itoa :: "int \<Rightarrow> string" where
  "itoa i = (if i < 0 then CHR ''-'' # show_nat (nat (- i)) else show_nat (nat i))"

lemma digit_char_numeral [simp]:
  "digit_char 0 = CHR ''0''" "digit_char 1 = CHR ''1''" "digit_char (Suc 0) = CHR ''1''"
  "digit_char 2 = CHR ''2''" "digit_char 3 = CHR ''3''" "digit_char 4 = CHR ''4''"
  "digit_char 5 = CHR ''5''" "digit_char 6 = CHR ''6''" "digit_char 7 = CHR ''7''"
  "digit_char 8 = CHR ''8''" "digit_char 9 = CHR ''9''"
  by (simp_all add: digit_char_def char_of_def bit_0)

lemma of_char_digit_char: "d < 10 \<Longrightarrow> (of_char (digit_char d) :: nat) = 48 + d"
  by (simp add: digit_char_def)

lemma digit_value_digit_char [simp]: "d < 10 \<Longrightarrow> digit_value (digit_char d) = Some d"
  by (simp add: digit_value_def of_char_digit_char)

lemma parse_digits_append:
  "parse_digits b acc (xs @ ys) = Option.bind (parse_digits b acc xs) (\<lambda>a. parse_digits b a ys)"
  by (induction xs arbitrary: acc) (auto split: option.split)

lemma show_nat_ne [simp]: "show_nat n \<noteq> []"
  by (subst show_nat.simps) simp

lemma parse_digits_show_nat: "parse_digits 10 0 (show_nat n) = Some n"
proof (induction n rule: show_nat.induct)
  case (1 n)
  show ?case
  proof (cases "n < 10")
    case True
    then show ?thesis by (subst show_nat.simps) simp
  next
    case False
    with 1 show ?thesis by (subst show_nat.simps) (simp add: parse_digits_append)
  qed
qed

lemma hd_show_nat: "\<exists>d ds. show_nat n = digit_char d # ds \<and> d < 10"
proof (induction n rule: show_nat.induct)
  case (1 n)
  show ?case
  proof (cases "n < 10")
    case True
    then show ?thesis by (subst show_nat.simps) auto
  next
    case False
    with 1 obtain d ds where "show_nat (n div 10) = digit_char d # ds \<and> d < 10" by blast
    with False show ?thesis by (subst show_nat.simps) auto
  qed
qed

lemma digit_char_not_sign: "d < 10 \<Longrightarrow> digit_char d \<noteq> CHR ''-'' \<and> digit_char d \<noteq> CHR ''+''"
  using of_char_digit_char [of d] by auto

lemma atoi_itoa: "int64_range i \<Longrightarrow> atoi (itoa i) = Some i"
proof (cases "i < 0")
  case True
  then show "int64_range i \<Longrightarrow> ?thesis"
    by (simp add: atoi_def itoa_def parse_int_def parse_uint_def parse_digits_show_nat)
next
  case False
  obtain d ds where "show_nat (nat i) = digit_char d # ds" "d < 10" using hd_show_nat by blast
  with False show "int64_range i \<Longrightarrow> ?thesis"
    using parse_digits_show_nat [of "nat i"] digit_char_not_sign [of d]
    by (simp add: atoi_def itoa_def parse_int_def parse_uint_def)
qed

lemma atoi_range: "atoi s = Some v \<Longrightarrow> int64_range v"
  by (auto simp: atoi_def parse_int_def Option.bind_eq_Some_conv split: list.splits if_splits)

lemma parse_int_range: "parse_int b s = Some v \<Longrightarrow> int64_range v"
  by (auto simp: parse_int_def Option.bind_eq_Some_conv split: list.splits if_splits)

subsection \<open>UTF-8\<close>

text \<open>
  \<^verbatim>\<open>utf8.DecodeRuneInString\<close>: the code point at the head and its size; an invalid encoding is
  \<^verbatim>\<open>RuneError\<close> (65533) of size 1.
\<close>

definition cont_byte :: "nat \<Rightarrow> nat \<Rightarrow> string \<Rightarrow> nat \<Rightarrow> bool" where
  "cont_byte lo hi s i \<longleftrightarrow> i < length s \<and> lo \<le> of_char (s ! i) \<and> of_char (s ! i) \<le> hi"

definition decode_rune :: "string \<Rightarrow> nat \<times> nat" where
  "decode_rune s = (case s of [] \<Rightarrow> (65533, 0) | c # cs \<Rightarrow>
     let b = of_char c :: nat; v = (\<lambda>i. of_char (s ! i) mod 64 :: nat) in
     if b < 0x80 then (b, 1)
     else if 0xC2 \<le> b \<and> b \<le> 0xDF \<and> cont_byte 0x80 0xBF s 1 then ((b mod 32) * 64 + v 1, 2)
     else if 0xE0 \<le> b \<and> b \<le> 0xEF
        \<and> cont_byte (if b = 0xE0 then 0xA0 else 0x80) (if b = 0xED then 0x9F else 0xBF) s 1
        \<and> cont_byte 0x80 0xBF s 2 then ((b mod 16) * 4096 + v 1 * 64 + v 2, 3)
     else if 0xF0 \<le> b \<and> b \<le> 0xF4
        \<and> cont_byte (if b = 0xF0 then 0x90 else 0x80) (if b = 0xF4 then 0x8F else 0xBF) s 1
        \<and> cont_byte 0x80 0xBF s 2 \<and> cont_byte 0x80 0xBF s 3
       then ((b mod 8) * 262144 + v 1 * 4096 + v 2 * 64 + v 3, 4)
     else (65533, 1))"

text \<open>\<^verbatim>\<open>for _, r := range s\<close>.\<close>

fun runes :: "string \<Rightarrow> nat list" where
  "runes [] = []"
| "runes (c # cs) = (let (r, n) = decode_rune (c # cs) in r # runes (drop (n - 1) cs))"

lemma decode_rune_ascii: "(of_char c :: nat) < 128 \<Longrightarrow> decode_rune (c # cs) = (of_char c, 1)"
  by (simp add: decode_rune_def)

lemma runes_ascii: "ascii s \<Longrightarrow> runes s = map of_char s"
  by (induction s) (simp_all add: decode_rune_ascii)

subsection \<open>Addresses\<close>

text \<open>\<^verbatim>\<open>net.JoinHostPort\<close>.\<close>

definition join_host_port :: "string \<Rightarrow> string \<Rightarrow> string" where
  "join_host_port host port =
     (if CHR '':'' \<in> set host then ''['' @ host @ '']:'' @ port else host @ '':'' @ port)"

subsection \<open>Quoting\<close>

text \<open>\<^verbatim>\<open>%q\<close> as it appears in error messages; exact for ASCII texts.\<close>

definition hex_char :: "nat \<Rightarrow> char" where
  "hex_char d = (if d < 10 then char_of (48 + d) else char_of (87 + d))"

definition quote_char :: "char \<Rightarrow> string" where
  "quote_char c = (let n = of_char c :: nat in
     if c = CHR 34 then [CHR 92, CHR 34]
     else if c = CHR 92 then [CHR 92, CHR 92]
     else if n = 7 then [CHR 92, CHR ''a'']
     else if n = 8 then [CHR 92, CHR ''b'']
     else if n = 12 then [CHR 92, CHR ''f'']
     else if n = 10 then [CHR 92, CHR ''n'']
     else if n = 13 then [CHR 92, CHR ''r'']
     else if n = 9 then [CHR 92, CHR ''t'']
     else if n = 11 then [CHR 92, CHR ''v'']
     else if 32 \<le> n \<and> n < 127 then [c]
     else [CHR 92, CHR ''x'', hex_char (n div 16), hex_char (n mod 16)])"

definition go_quote :: "string \<Rightarrow> string" where
  "go_quote s = CHR 34 # concat (map quote_char s) @ [CHR 34]"

text \<open>\<^verbatim>\<open>hex.EncodeToString\<close>.\<close>

definition hex_encode :: "byte list \<Rightarrow> string" where
  "hex_encode bs = concat (map (\<lambda>b. [hex_char (unat b div 16), hex_char (unat b mod 16)]) bs)"

text \<open>Carriage return and line feed.\<close>

abbreviation crlf :: string where
  "crlf \<equiv> [CHR 13, CHR 10]"

end
