(* ===== verification/Bufio.thy ===== *)
theory Bufio
  imports Net_Conn Go_Strings
begin

text \<open>
  \<^verbatim>\<open>bufio.Reader\<close> (default size 4096) over a connection, as the HTTP and WebSocket clients use
  it: \<^verbatim>\<open>Read\<close>, \<^verbatim>\<open>ReadString('\n')\<close> and \<^verbatim>\<open>io.ReadFull\<close> on it. The reader is shown to satisfy the
  contract \<open>reader\<close>, and a line read from it depends only on the byte stream, not on how the
  network delivered it.
\<close>

record bufio =
  bbuf :: "byte list"
  berr :: "go_error option"
  bsrc :: nconn

definition bufio_size :: nat where
  "bufio_size = 4096"

definition bufio_new :: "nconn \<Rightarrow> bufio" where
  "bufio_new c = \<lparr>bbuf = [], berr = None, bsrc = c\<rparr>"

definition bufio_read :: "nat \<Rightarrow> bufio \<Rightarrow> (byte list \<times> go_error option) \<times> bufio" where
  "bufio_read m b =
     (if m = 0 then
        (if bbuf b \<noteq> [] then (([], None), b) else (([], berr b), b\<lparr>berr := None\<rparr>))
      else if bbuf b \<noteq> [] then ((take m (bbuf b), None), b\<lparr>bbuf := drop m (bbuf b)\<rparr>)
      else case berr b of
        Some e \<Rightarrow> (([], Some e), b\<lparr>berr := None\<rparr>)
      | None \<Rightarrow>
          if bufio_size \<le> m then (case nread m (bsrc b) of (r, c) \<Rightarrow> (r, b\<lparr>bsrc := c\<rparr>))
          else (case nread bufio_size (bsrc b) of ((d, e), c) \<Rightarrow>
                  if d = [] then (([], e), b\<lparr>bsrc := c\<rparr>)
                  else ((take m d, None), b\<lparr>bbuf := drop m d, berr := e, bsrc := c\<rparr>)))"

text \<open>\<^verbatim>\<open>fill\<close>: up to 100 reads into the free part of the buffer.\<close>

fun bufio_fill :: "nat \<Rightarrow> bufio \<Rightarrow> bufio" where
  "bufio_fill 0 b = b\<lparr>berr := Some ErrNoProgress\<rparr>"
| "bufio_fill (Suc tries) b =
     (case nread (bufio_size - length (bbuf b)) (bsrc b) of ((d, e), c) \<Rightarrow>
        let b' = b\<lparr>bbuf := bbuf b @ d, bsrc := c\<rparr> in
        case e of
          Some err \<Rightarrow> b'\<lparr>berr := Some err\<rparr>
        | None \<Rightarrow> if d \<noteq> [] then b' else bufio_fill tries b')"

definition nl :: byte where
  "nl = 10"

definition bufio_measure :: "bufio \<Rightarrow> nat" where
  "bufio_measure b = 2 * nbudget (bsrc b) + length (bbuf b) + (if berr b = None then 1 else 0)"

lemma conn_read_budget:
  "conn_read m c = ((d, e), c') \<Longrightarrow> 0 < m \<Longrightarrow>
   2 * conn_budget c' + length d \<le> 2 * conn_budget c
   \<and> (e = None \<longrightarrow> 2 * conn_budget c' + length d < 2 * conn_budget c)"
  by (auto simp: conn_read_def conn_budget_def split: if_splits list.splits prod.splits)

lemma nread_budget:
  "nread m c = ((d, e), c') \<Longrightarrow> 0 < m \<Longrightarrow>
   2 * nbudget c' + length d \<le> 2 * nbudget c
   \<and> (e = None \<longrightarrow> 2 * nbudget c' + length d < 2 * nbudget c)"
proof (induction c arbitrary: c')
  case (TCPConn c)
  then show ?case using conn_read_budget [of m c d e] by (auto split: prod.splits)
next
  case (PreReadConn pre c)
  show ?case
  proof (cases "pre = []")
    case True
    with PreReadConn show ?thesis by (auto split: prod.splits)
  next
    case False
    then have "0 < length pre" by simp
    with False PreReadConn.prems show ?thesis by (auto simp: min_def)
  qed
next
  case (TLSConn p c)
  then show ?case using conn_read_budget [of m p d e] by (auto split: prod.splits)
qed

lemma bufio_fill_measure:
  "length (bbuf b) < bufio_size \<Longrightarrow> berr b = None \<Longrightarrow> bufio_measure (bufio_fill tries b) < bufio_measure b"
proof (induction tries arbitrary: b)
  case 0
  then show ?case by (simp add: bufio_measure_def)
next
  case (Suc tries)
  obtain d e c where rd: "nread (bufio_size - length (bbuf b)) (bsrc b) = ((d, e), c)"
    by (metis surj_pair)
  have bud: "2 * nbudget c + length d \<le> 2 * nbudget (bsrc b)"
    "e = None \<Longrightarrow> 2 * nbudget c + length d < 2 * nbudget (bsrc b)"
    using nread_budget [OF rd] Suc.prems by auto
  show ?case
  proof (cases "e = None \<and> d = []")
    case True
    let ?b = "b\<lparr>bsrc := c\<rparr>"
    have "bufio_measure (bufio_fill tries ?b) < bufio_measure ?b"
      using Suc.prems by (intro Suc.IH) simp_all
    moreover have "bufio_measure ?b < bufio_measure b"
      using bud True by (simp add: bufio_measure_def)
    ultimately show ?thesis using rd True by simp
  next
    case False
    with rd bud Suc.prems show ?thesis
      by (cases e) (auto simp: bufio_measure_def Let_def)
  qed
qed

text \<open>
  \<^verbatim>\<open>ReadString('\n')\<close>: the text up to and including the delimiter, or what there was and the
  error. A full buffer without the delimiter is set aside and refilled.
\<close>

function read_string_loop :: "byte list \<Rightarrow> bufio \<Rightarrow> (byte list \<times> go_error option) \<times> bufio" where
  "read_string_loop acc b =
     (if nl \<in> set (bbuf b) then
        ((acc @ takeWhile (\<lambda>x. x \<noteq> nl) (bbuf b) @ [nl], None),
         b\<lparr>bbuf := tl (dropWhile (\<lambda>x. x \<noteq> nl) (bbuf b))\<rparr>)
      else case berr b of
        Some e \<Rightarrow> ((acc @ bbuf b, Some e), b\<lparr>bbuf := [], berr := None\<rparr>)
      | None \<Rightarrow>
          if bufio_size \<le> length (bbuf b) then read_string_loop (acc @ bbuf b) (b\<lparr>bbuf := []\<rparr>)
          else read_string_loop acc (bufio_fill 100 b))"
  by pat_completeness auto
termination
proof (relation "measure (bufio_measure \<circ> snd)", simp_all)
  fix b :: bufio assume "bufio_size \<le> length (bbuf b)"
  then show "bufio_measure (b\<lparr>bbuf := []\<rparr>) < bufio_measure b"
    by (auto simp: bufio_measure_def bufio_size_def)
next
  fix b :: bufio assume "\<not> bufio_size \<le> length (bbuf b)" and "berr b = None"
  then show "bufio_measure (bufio_fill 100 b) < bufio_measure b"
    by (intro bufio_fill_measure) simp_all
qed

declare read_string_loop.simps [simp del]

definition read_string :: "bufio \<Rightarrow> (byte list \<times> go_error option) \<times> bufio" where
  "read_string b = read_string_loop [] b"

text \<open>\<^verbatim>\<open>io.ReadFull(reader, buf)\<close>.\<close>

definition bufio_budget :: "bufio \<Rightarrow> nat" where
  "bufio_budget b = length (bbuf b) + 2 * nbudget (bsrc b)"

definition bufio_read_full :: "nat \<Rightarrow> (bufio, byte list) io" where
  "bufio_read_full n = (\<lambda>b. case read_full_loop (Suc (bufio_budget b)) bufio_read n [] b of
      ((d, None), b') \<Rightarrow> (Inr d, b')
    | ((d, Some e), b') \<Rightarrow> (Inl e, b'))"

subsection \<open>The stream view\<close>

definition bufio_stream :: "bufio \<Rightarrow> byte list \<times> go_error" where
  "bufio_stream b = (case berr b of
      Some e \<Rightarrow> (bbuf b, e)
    | None \<Rightarrow> (bbuf b @ fst (nstream (bsrc b)), snd (nstream (bsrc b))))"

definition bufio_regular :: "bufio \<Rightarrow> bool" where
  "bufio_regular b \<longleftrightarrow> nregular (bsrc b)"

lemma bufio_stream_new [simp]: "bufio_stream (bufio_new c) = nstream c"
  by (simp add: bufio_stream_def bufio_new_def)

lemma bufio_regular_new [simp]: "bufio_regular (bufio_new c) = nregular c"
  by (simp add: bufio_regular_def bufio_new_def)

lemma nread_error_regular: "nregular c \<Longrightarrow> nread m c = (r, c') \<Longrightarrow> nregular c'"
proof (induction c arbitrary: c')
  case (TCPConn c)
  then show ?case
    by (auto simp: conn_read_def conn_regular_def regular_def split: if_splits list.splits prod.splits)
next
  case (PreReadConn pre c)
  then show ?case by (auto split: if_splits prod.splits)
next
  case (TLSConn p c)
  then show ?case
    by (auto simp: conn_read_def conn_regular_def regular_def split: if_splits list.splits prod.splits)
qed

text \<open>Under the contract of the source, one read fills or fails.\<close>

lemma bufio_fill_regular:
  assumes "bufio_regular b" and "length (bbuf b) < bufio_size" and "berr b = None"
  shows "bufio_regular (bufio_fill (Suc n) b) \<and> bufio_stream (bufio_fill (Suc n) b) = bufio_stream b"
proof -
  obtain d e c where rd: "nread (bufio_size - length (bbuf b)) (bsrc b) = ((d, e), c)"
    by (metis surj_pair)
  have reg: "nregular (bsrc b)" and pos: "0 < bufio_size - length (bbuf b)"
    using assms by (simp_all add: bufio_regular_def)
  note reg' = nread_error_regular [OF reg rd]
  show ?thesis
  proof (cases e)
    case None
    have st: "nstream (bsrc b) = (d @ fst (nstream c), snd (nstream c))"
      using nread_laws(3) [OF reg pos rd None] .
    have "d \<noteq> []"
      using nread_laws(6) [OF reg pos rd None] .
    with None rd st reg' assms show ?thesis
      by (simp add: bufio_stream_def bufio_regular_def Let_def)
  next
    case (Some err)
    with nread_laws(5) [OF reg pos rd Some] rd reg' assms show ?thesis
      by (simp add: bufio_stream_def bufio_regular_def Let_def)
  qed
qed

lemma bufio_read_lawful:
  assumes reg: "bufio_regular b" and pos: "0 < m" and rd: "bufio_read m b = ((d, e), b')"
  shows "length d \<le> m \<and> (case e of
     None \<Rightarrow> bufio_regular b' \<and> bufio_stream b = (d @ fst (bufio_stream b'), snd (bufio_stream b'))
             \<and> bufio_budget b' < bufio_budget b \<and> d \<noteq> []
   | Some err \<Rightarrow> bufio_stream b = (d, err) \<and> (d \<noteq> [] \<longrightarrow> err = EOF \<and> bufio_regular b' \<and> bufio_stream b' = ([], EOF)))"
proof (cases "bbuf b = [] \<and> berr b = None")
  case False
  then have "bbuf b \<noteq> [] \<Longrightarrow> length (bbuf b) - m < length (bbuf b)" using pos by simp
  with False pos rd reg show ?thesis
    by (cases "berr b") (auto simp: bufio_read_def bufio_stream_def bufio_regular_def bufio_budget_def
        split: option.splits if_splits dest!: sym [of "Some _"])
next
  case True
  let ?k = "if bufio_size \<le> m then m else bufio_size"
  obtain d' e' c where nrd: "nread ?k (bsrc b) = ((d', e'), c)" by (metis surj_pair)
  have reg': "nregular (bsrc b)" and k: "0 < ?k"
    using reg pos by (auto simp: bufio_regular_def bufio_size_def)
  note laws = nread_laws [OF reg' k nrd]
  show ?thesis
  proof (cases e')
    case None
    then have bud: "2 * nbudget c + length d' < 2 * nbudget (bsrc b)"
      using nread_budget [OF nrd k] by simp
    note None' = laws(2-4) [OF None] laws(6) [OF None]
    show ?thesis
      using True pos rd nrd None None' laws(1) bud
      by (auto simp: bufio_read_def bufio_stream_def bufio_regular_def bufio_budget_def
          split: if_splits)
  next
    case (Some err)
    then have bud: "2 * nbudget c + length d' \<le> 2 * nbudget (bsrc b)"
      using nread_budget [OF nrd k] by simp
    then have "length d' - m + 2 * nbudget c < 2 * nbudget (bsrc b)" if "d' \<noteq> []"
      using that pos by (cases d') auto
    then show ?thesis
      using laws(1) laws(5) [OF Some] laws(7) [OF Some] True pos rd nrd Some bud
      by (auto simp: bufio_read_def bufio_stream_def bufio_regular_def bufio_budget_def split: if_splits)
  qed
qed

interpretation bufio_reader: reader bufio_read bufio_regular bufio_stream bufio_budget
proof (unfold_locales, goal_cases)
  case (1 s m d eo s')
  from bufio_read_lawful [OF this] show ?case by simp
next
  case (2 s m d s')
  from bufio_read_lawful [OF this] show ?case by simp
next
  case (3 s m d s')
  from bufio_read_lawful [OF this] show ?case by simp
next
  case (4 s m d e s')
  from bufio_read_lawful [OF this] show ?case by simp
next
  case (5 s m d s')
  from bufio_read_lawful [OF this] show ?case by simp
next
  case (6 s m d e s')
  from bufio_read_lawful [OF this(1-3)] this(4) show ?case by simp
qed

lemma bufio_read_full_ok:
  assumes "bufio_regular b" and "bufio_stream b = (bs @ rest, e)" and "length bs = n"
  shows "\<exists>b'. bufio_read_full n b = (Inr bs, b') \<and> bufio_regular b' \<and> bufio_stream b' = (rest, e)"
  using bufio_reader.read_full_loop_ok [of b "Suc (bufio_budget b)" n "[]"] assms
  by (auto simp: bufio_read_full_def)

lemma bufio_read_full_err:
  assumes "bufio_regular b" and "length (fst (bufio_stream b)) < n"
  shows "\<exists>b'. bufio_read_full n b = (Inl (if fst (bufio_stream b) \<noteq> [] \<and> snd (bufio_stream b) = EOF
      then ErrUnexpectedEOF else snd (bufio_stream b)), b')"
  using bufio_reader.read_full_loop_err [of b "Suc (bufio_budget b)" "[]" n] assms
  by (auto simp: bufio_read_full_def)

lemma bufio_read_full_cases:
  assumes "bufio_regular b" and "bufio_read_full n b = (Inr d, b')"
  shows "length d = n \<and> bufio_regular b'
     \<and> bufio_stream b = (d @ fst (bufio_stream b'), snd (bufio_stream b'))"
proof (cases "n \<le> length (fst (bufio_stream b))")
  case True
  obtain bs e where st: "bufio_stream b = (bs, e)" by force
  with True have "bufio_stream b = (take n bs @ drop n bs, e)" "length (take n bs) = n" by simp_all
  from bufio_read_full_ok [OF assms(1) this] assms(2) show ?thesis
    using st \<open>length (take n bs) = n\<close> by auto
next
  case False
  with bufio_read_full_err [OF assms(1), of n] assms(2) show ?thesis by auto
qed

text \<open>A line depends only on the stream.\<close>

lemma read_string_loop_stream:
  assumes "bufio_regular b"
  shows "if nl \<in> set (fst (bufio_stream b))
     then \<exists>b'. read_string_loop acc b
            = ((acc @ takeWhile (\<lambda>x. x \<noteq> nl) (fst (bufio_stream b)) @ [nl], None), b')
          \<and> bufio_regular b'
          \<and> bufio_stream b' = (tl (dropWhile (\<lambda>x. x \<noteq> nl) (fst (bufio_stream b))), snd (bufio_stream b))
     else \<exists>b'. read_string_loop acc b = ((acc @ fst (bufio_stream b), Some (snd (bufio_stream b))), b')"
  using assms
proof (induction acc b rule: read_string_loop.induct)
  case (1 acc b)
  show ?case
  proof (cases "nl \<in> set (bbuf b)")
    case True
    then have "dropWhile (\<lambda>x. x \<noteq> nl) (bbuf b) \<noteq> []" by (auto simp: dropWhile_eq_Nil_conv)
    with True "1.prems" show ?thesis
      by (subst read_string_loop.simps)
        (auto simp: bufio_stream_def bufio_regular_def split: option.split)
  next
    case nonl: False
    show ?thesis
    proof (cases "berr b")
      case (Some e)
      with nonl show ?thesis
        by (subst read_string_loop.simps) (auto simp: bufio_stream_def)
    next
      case None
      show ?thesis
      proof (cases "bufio_size \<le> length (bbuf b)")
        case True
        have "read_string_loop acc b = read_string_loop (acc @ bbuf b) (b\<lparr>bbuf := []\<rparr>)"
          using nonl None True by (subst read_string_loop.simps) simp
        moreover have "bufio_stream b = (bbuf b @ fst (bufio_stream (b\<lparr>bbuf := []\<rparr>)),
            snd (bufio_stream (b\<lparr>bbuf := []\<rparr>)))"
          using None by (simp add: bufio_stream_def)
        moreover have "bufio_regular (b\<lparr>bbuf := []\<rparr>)"
          using "1.prems" by (simp add: bufio_regular_def)
        moreover note "1.IH"(1) [OF nonl None True calculation(3)]
        ultimately show ?thesis
          using nonl by (auto simp: while_append_notin split: if_splits)
      next
        case False
        have eq: "read_string_loop acc b = read_string_loop acc (bufio_fill 100 b)"
          using nonl None False by (subst read_string_loop.simps) simp
        have reg: "bufio_regular (bufio_fill 100 b)"
          and st: "bufio_stream (bufio_fill 100 b) = bufio_stream b"
          using bufio_fill_regular [of b 99] "1.prems" False None by simp_all
        show ?thesis
          using "1.IH"(2) [OF nonl None False reg] unfolding eq st .
      qed
    qed
  qed
qed

lemma read_string_line:
  assumes "bufio_regular b" and "bufio_stream b = (l @ nl # rest, e)" and "nl \<notin> set l"
  shows "\<exists>b'. read_string b = ((l @ [nl], None), b') \<and> bufio_regular b' \<and> bufio_stream b' = (rest, e)"
  using read_string_loop_stream [OF assms(1), of "[]"] assms(2,3)
  by (auto simp: read_string_def while_append_notin)

lemma read_string_no_line:
  assumes "bufio_regular b" and "nl \<notin> set (fst (bufio_stream b))"
  shows "\<exists>b'. read_string b = ((fst (bufio_stream b), Some (snd (bufio_stream b))), b')"
  using read_string_loop_stream [OF assms(1), of "[]"] assms(2) by (simp add: read_string_def)

subsection \<open>Reading leaves the sent bytes and the socket alone\<close>

lemma bufio_read_frame [simp]:
  "nsent (bsrc (snd (bufio_read m b))) = nsent (bsrc b)"
  "socket_open (bsrc (snd (bufio_read m b))) = socket_open (bsrc b)"
  using nsent_nread [of m "bsrc b"] nsent_nread [of bufio_size "bsrc b"]
    socket_open_nread [of m "bsrc b"] socket_open_nread [of bufio_size "bsrc b"]
  by (auto simp: bufio_read_def split: option.split prod.split simp del: nsent_nread socket_open_nread)

lemma bufio_fill_frame:
  "nsent (bsrc (bufio_fill n b)) = nsent (bsrc b) \<and> socket_open (bsrc (bufio_fill n b)) = socket_open (bsrc b)"
proof (induction n arbitrary: b)
  case 0
  then show ?case by simp
next
  case (Suc n)
  obtain d e c where rd: "nread (bufio_size - length (bbuf b)) (bsrc b) = ((d, e), c)"
    by (metis surj_pair)
  have "nsent c = nsent (bsrc b)" "socket_open c = socket_open (bsrc b)"
    using nsent_nread [of "bufio_size - length (bbuf b)" "bsrc b"]
      socket_open_nread [of "bufio_size - length (bbuf b)" "bsrc b"] rd by simp_all
  with rd Suc.IH show ?case
    by (cases e) (auto simp: Let_def)
qed

lemma read_string_loop_frame:
  "nsent (bsrc (snd (read_string_loop acc b))) = nsent (bsrc b)
   \<and> socket_open (bsrc (snd (read_string_loop acc b))) = socket_open (bsrc b)"
proof (induction acc b rule: read_string_loop.induct)
  case (1 acc b)
  then show ?case
    using bufio_fill_frame [of 100 b]
    by (subst (1 2) read_string_loop.simps) (auto split: option.split)
qed

lemma read_string_frame [simp]:
  "nsent (bsrc (snd (read_string b))) = nsent (bsrc b)"
  "socket_open (bsrc (snd (read_string b))) = socket_open (bsrc b)"
  by (simp_all add: read_string_def read_string_loop_frame)

lemma bufio_read_full_frame [simp]:
  "nsent (bsrc (snd (bufio_read_full n b))) = nsent (bsrc b)"
  "socket_open (bsrc (snd (bufio_read_full n b))) = socket_open (bsrc b)"
proof -
  have "snd (bufio_read_full n b) = snd (read_full_loop (Suc (bufio_budget b)) bufio_read n [] b)"
    by (auto simp: bufio_read_full_def split: prod.split option.split)
  then show "nsent (bsrc (snd (bufio_read_full n b))) = nsent (bsrc b)"
    "socket_open (bsrc (snd (bufio_read_full n b))) = socket_open (bsrc b)"
    using read_full_loop_frame [of "\<lambda>x. nsent (bsrc x) = nsent (bsrc b)" bufio_read "Suc (bufio_budget b)" n "[]" b]
      read_full_loop_frame [of "\<lambda>x. socket_open (bsrc x)" bufio_read "Suc (bufio_budget b)" n "[]" b]
    by (simp_all del: read_full_loop.simps)
qed

subsection \<open>A reader over given deliveries\<close>

definition ex_bufio :: "(byte list \<times> go_error option) list \<Rightarrow> bufio" where
  "ex_bufio deliveries = bufio_new (TCPConn \<lparr>inbound = deliveries, wscript = [], sent = [],
     conn_open = True, rd_deadline = False, wr_deadline = False\<rparr>)"

lemma ex_bufio_regular [simp]: "bufio_regular (ex_bufio ds) \<longleftrightarrow> list_all regular ds"
  by (simp add: ex_bufio_def conn_regular_def)

lemma ex_bufio_stream [simp]: "bufio_stream (ex_bufio ds) = script_stream ds"
  by (simp add: ex_bufio_def conn_stream_def)

subsection \<open>Reading uses up the budget\<close>

lemma bufio_read_budget:
  assumes "bufio_read m b = ((d, e), b')" and "0 < m"
  shows "bufio_budget b' \<le> bufio_budget b \<and> (e = None \<or> d \<noteq> [] \<longrightarrow> bufio_budget b' < bufio_budget b)"
proof (cases "bbuf b = [] \<and> berr b = None")
  case False
  with assms show ?thesis by (auto simp: bufio_read_def bufio_budget_def split: option.splits if_splits)
next
  case True
  show ?thesis
  proof (cases "bufio_size \<le> m")
    case big: True
    with True assms nread_budget [of m "bsrc b" d e] show ?thesis
      by (cases d) (auto simp: bufio_read_def bufio_budget_def split: prod.splits)
  next
    case False
    obtain d2 e2 c2 where r2: "nread bufio_size (bsrc b) = ((d2, e2), c2)" by (metis surj_pair)
    have "2 * nbudget c2 + length d2 \<le> 2 * nbudget (bsrc b)"
      "e2 = None \<Longrightarrow> 2 * nbudget c2 + length d2 < 2 * nbudget (bsrc b)"
      using nread_budget [OF r2] by (auto simp: bufio_size_def)
    moreover from this have "length d2 - m + 2 * nbudget c2 < 2 * nbudget (bsrc b)" if "d2 \<noteq> []"
    proof -
      have "length d2 - m < length d2" using assms(2) that by simp
      with calculation(1) show ?thesis by linarith
    qed
    ultimately show ?thesis using True False assms r2
      by (cases "d2 = []") (auto simp: bufio_read_def bufio_budget_def split: if_splits)
  qed
qed

lemma read_full_loop_budget:
  "read_full_loop fuel bufio_read n acc b = ((d, x), b') \<Longrightarrow>
   bufio_budget b' \<le> bufio_budget b \<and> (x = None \<and> length acc < n \<longrightarrow> bufio_budget b' < bufio_budget b)"
proof (induction fuel arbitrary: acc b)
  case 0
  then show ?case by auto
next
  case (Suc fuel)
  show ?case
  proof (cases "n \<le> length acc")
    case True
    with Suc.prems show ?thesis by auto
  next
    case False
    obtain d1 e1 b1 where r: "bufio_read (n - length acc) b = ((d1, e1), b1)" by (metis surj_pair)
    with False bufio_read_budget [OF r] Suc show ?thesis
      by (cases e1) (fastforce split: if_splits)+
  qed
qed

lemma bufio_read_full_budget:
  "bufio_read_full n b = (x, b') \<Longrightarrow> bufio_budget b' \<le> bufio_budget b
     \<and> ((\<exists>d. x = Inr d) \<and> 0 < n \<longrightarrow> bufio_budget b' < bufio_budget b)"
  using read_full_loop_budget [of "Suc (bufio_budget b)" n "[]" b]
  by (auto simp: bufio_read_full_def simp del: read_full_loop.simps split: prod.splits option.splits)

end
