(* ===== verification/Tcp_Client.thy ===== *)
theory Tcp_Client
  imports Net_Conn "HOL-Library.Sublist"
begin

text \<open>
  \<^verbatim>\<open>TCPClient\<close> of \<^verbatim>\<open>network/tcp_client.go\<close>: the wrapper of a connection with an atomic closed
  flag, its \<^verbatim>\<open>Write\<close>, \<^verbatim>\<open>WriteFull\<close>, \<^verbatim>\<open>Read\<close>, \<^verbatim>\<open>ReadFull\<close> and \<^verbatim>\<open>Close\<close>, and the goroutines of
  \<^verbatim>\<open>Listen\<close> as a step relation in which the cancellation of the context and the loop interleave.
  A client is made by \<^verbatim>\<open>NewTCPClient\<close> or \<^verbatim>\<open>NewTLSClient\<close> only, which store a non-nil connection,
  so the nil tests of the methods have no counterpart here.
\<close>

record tcp_client =
  tconn :: nconn
  ttimeout :: int
  isClosed :: bool

text \<open>\<^verbatim>\<open>Close\<close> after the swap of the flag, and \<^verbatim>\<open>Read\<close> after its test of the flag.\<close>

definition close_conn :: "tcp_client \<Rightarrow> go_error option \<times> tcp_client" where
  "close_conn c = (case nclose (tconn c) of (r, k) \<Rightarrow> (r, c\<lparr>tconn := k\<rparr>))"

definition Close :: "tcp_client \<Rightarrow> go_error option \<times> tcp_client" where
  "Close c = (if isClosed c then (None, c) else close_conn (c\<lparr>isClosed := True\<rparr>))"

definition Write :: "byte list \<Rightarrow> tcp_client \<Rightarrow> (nat \<times> go_error option) \<times> tcp_client" where
  "Write b c =
     (if isClosed c then ((0, Some ErrTCPClientClosed), c)
      else (case nwrite b (tconn c) of ((n, e), k) \<Rightarrow>
              ((n, e), if e \<noteq> None then c\<lparr>tconn := k, isClosed := True\<rparr> else c\<lparr>tconn := k\<rparr>)))"

function WriteFull :: "byte list \<Rightarrow> (tcp_client, unit) io" where
  "WriteFull b c =
     (if b = [] then (Inr (), c)
      else case Write b c of
        ((n, Some e), c') \<Rightarrow> (Inl e, c')
      | ((n, None), c') \<Rightarrow> if n = 0 then (Inl ErrShortWrite, c') else WriteFull (drop n b) c')"
  by pat_completeness auto
termination
  by (relation "measure (length \<circ> fst)") auto

declare WriteFull.simps [simp del]

definition read_conn :: "nat \<Rightarrow> tcp_client \<Rightarrow> (byte list \<times> go_error option) \<times> tcp_client" where
  "read_conn m c = (case nread m (tconn c) of ((d, e), k) \<Rightarrow>
     ((d, e), if e \<noteq> None then c\<lparr>tconn := k, isClosed := True\<rparr> else c\<lparr>tconn := k\<rparr>))"

definition Read :: "nat \<Rightarrow> tcp_client \<Rightarrow> (byte list \<times> go_error option) \<times> tcp_client" where
  "Read m c = (if isClosed c then (([], Some ErrTCPClientClosed), c) else read_conn m c)"

text \<open>\<^verbatim>\<open>ReadFull\<close> returns its zero-initialised buffer with the error.\<close>

definition ReadFull :: "int \<Rightarrow> tcp_client \<Rightarrow> (byte list \<times> go_error option) \<times> tcp_client" where
  "ReadFull n c =
     (if isClosed c then (([], Some ErrTCPClientClosed), c)
      else if n \<le> 0 then (([], None), c)
      else
        let k0 = (if 0 < ttimeout c then SetReadDeadline True (tconn c) else tconn c) in
        case read_full_loop (Suc (nbudget k0)) nread (nat n) [] k0 of ((d, e), k1) \<Rightarrow>
        let k2 = (if 0 < ttimeout c then SetReadDeadline False k1 else k1);
            buf = d @ replicate (nat n - length d) 0 in
        if e \<noteq> None then ((buf, e), c\<lparr>tconn := k2, isClosed := True\<rparr>)
        else ((buf, None), c\<lparr>tconn := k2\<rparr>))"

subsection \<open>Listen\<close>

text \<open>
  The reading goroutine has three points at which the other goroutine can run: the loop head,
  the test of the flag at the start of \<^verbatim>\<open>client.Read\<close> and the blocking read of the connection.
  The watcher of the context swaps the flag and then closes the connection. A call of a callback
  is an entry of the log.
\<close>

datatype listen_event = OnData "byte list" | OnError go_error | OnDone

datatype listen_pc = LoopHead | EnterRead | Blocked | Finished

datatype watcher_pc = Waiting | Swapped | Exited

record tcp_listen =
  lclient :: tcp_client
  lpc :: listen_pc
  llog :: "listen_event list"
  ldone :: bool
  lctx_done :: bool
  lwatcher :: watcher_pc

definition listen_start :: "tcp_client \<Rightarrow> tcp_listen" where
  "listen_start c = \<lparr>lclient = c, lpc = LoopHead, llog = [], ldone = False, lctx_done = False,
     lwatcher = Waiting\<rparr>"

definition callDone :: "tcp_listen \<Rightarrow> tcp_listen" where
  "callDone l = (if ldone l then l else l\<lparr>ldone := True, llog := llog l @ [OnDone]\<rparr>)"

definition finish :: "tcp_listen \<Rightarrow> tcp_listen" where
  "finish l = (callDone l)\<lparr>lpc := Finished\<rparr>"

definition after_read :: "byte list \<Rightarrow> go_error option \<Rightarrow> tcp_listen \<Rightarrow> tcp_listen" where
  "after_read d e l = (case e of
      Some err \<Rightarrow>
        if errors_is err ErrTCPClientClosed \<or> errors_is err EOF then finish l
        else if is_net_timeout err then l\<lparr>lpc := LoopHead\<rparr>
        else finish (l\<lparr>llog := llog l @ [OnError err]\<rparr>)
    | None \<Rightarrow>
        (if d \<noteq> [] then l\<lparr>llog := llog l @ [OnData d], lpc := LoopHead\<rparr> else l\<lparr>lpc := LoopHead\<rparr>))"

definition listen_buf_size :: nat where
  "listen_buf_size = 16 * 1024"

text \<open>One step of the reading goroutine, and one of the watcher once the context is done.\<close>

definition listen_loop :: "tcp_listen \<Rightarrow> tcp_listen" where
  "listen_loop l = (case lpc l of
      LoopHead \<Rightarrow> if isClosed (lclient l) then finish l else l\<lparr>lpc := EnterRead\<rparr>
    | EnterRead \<Rightarrow> if isClosed (lclient l) then after_read [] (Some ErrTCPClientClosed) l
                   else l\<lparr>lpc := Blocked\<rparr>
    | Blocked \<Rightarrow> (case read_conn listen_buf_size (lclient l) of
        ((d, e), c) \<Rightarrow> after_read d e (l\<lparr>lclient := c\<rparr>))
    | Finished \<Rightarrow> l)"

definition listen_watcher :: "tcp_listen \<Rightarrow> tcp_listen" where
  "listen_watcher l = (case lwatcher l of
      Waiting \<Rightarrow> if isClosed (lclient l) then l\<lparr>lwatcher := Exited\<rparr>
                 else l\<lparr>lwatcher := Swapped, lclient := (lclient l)\<lparr>isClosed := True\<rparr>\<rparr>
    | Swapped \<Rightarrow> l\<lparr>lwatcher := Exited, lclient := snd (close_conn (lclient l))\<rparr>
    | Exited \<Rightarrow> l)"

inductive listen_step :: "tcp_listen \<Rightarrow> tcp_listen \<Rightarrow> bool" where
  loop: "lpc l \<noteq> Finished \<Longrightarrow> listen_step l (listen_loop l)"
| cancel: "\<not> lctx_done l \<Longrightarrow> listen_step l (l\<lparr>lctx_done := True\<rparr>)"
| watcher: "lctx_done l \<Longrightarrow> lwatcher l \<noteq> Exited \<Longrightarrow> listen_step l (listen_watcher l)"

inductive_cases listen_stepE: "listen_step l l'"

subsection \<open>Writes\<close>

lemma conn_write_sent:
  "conn_write b c = ((n, e), c') \<Longrightarrow> n \<le> length b \<and> sent c' = sent c @ take n b"
  by (auto simp: conn_write_def min_def split: if_splits list.splits prod.splits)

lemma nwrite_sent:
  "nwrite b c = ((n, e), c') \<Longrightarrow> n \<le> length b \<and> nsent c' = nsent c @ take n b"
proof (induction c arbitrary: c')
  case (TCPConn c)
  then show ?case using conn_write_sent [of b c n e] by (auto split: prod.splits)
next
  case (PreReadConn pre c)
  then show ?case by (auto split: prod.splits)
next
  case (TLSConn p c)
  then show ?case using conn_write_sent [of b p n e] by (auto split: prod.splits)
qed

lemma Write_sent:
  "Write b c = ((n, e), c') \<Longrightarrow> nsent (tconn c') = nsent (tconn c) @ take n b \<and> n \<le> length b
     \<and> (e \<noteq> None \<longrightarrow> isClosed c') \<and> (e = None \<longrightarrow> \<not> isClosed c \<and> \<not> isClosed c')"
  using nwrite_sent [of b "tconn c"] by (auto simp: Write_def split: if_splits prod.splits)

lemma WriteFull_Nil [simp]: "WriteFull [] c = (Inr (), c)"
  by (simp add: WriteFull.simps)

text \<open>A connection that takes all the bytes it is given.\<close>

fun nwrites_all :: "nconn \<Rightarrow> bool" where
  "nwrites_all (TCPConn c) \<longleftrightarrow> conn_open c \<and> wscript c = []"
| "nwrites_all (PreReadConn pre c) \<longleftrightarrow> nwrites_all c"
| "nwrites_all (TLSConn p c) \<longleftrightarrow> conn_open p \<and> wscript p = []"

lemma nwrite_all:
  "nwrites_all c \<Longrightarrow> \<exists>c'. nwrite b c = ((length b, None), c') \<and> nwrites_all c'
     \<and> nsent c' = nsent c @ b \<and> nstream c' = nstream c \<and> nregular c' = nregular c
     \<and> socket_open c' = socket_open c"
  by (induction c)
    (auto simp: conn_write_def conn_stream_def conn_regular_def split: prod.split)

lemma nwrites_all_deadlines [simp]:
  "nwrites_all (SetReadDeadline v c) = nwrites_all c"
  "nwrites_all (SetWriteDeadline v c) = nwrites_all c"
  "nwrites_all (SetDeadline v c) = nwrites_all c"
  by (induction c) (auto simp: SetReadDeadline_def SetWriteDeadline_def SetDeadline_def)

lemma nstream_deadlines [simp]:
  "nstream (SetReadDeadline v c) = nstream c" "nstream (SetWriteDeadline v c) = nstream c"
  "nstream (SetDeadline v c) = nstream c"
  by (induction c)
    (auto simp: SetReadDeadline_def SetWriteDeadline_def SetDeadline_def conn_stream_def)

lemma nregular_deadlines [simp]:
  "nregular (SetReadDeadline v c) = nregular c" "nregular (SetWriteDeadline v c) = nregular c"
  "nregular (SetDeadline v c) = nregular c"
  by (induction c)
    (auto simp: SetReadDeadline_def SetWriteDeadline_def SetDeadline_def conn_regular_def)

lemma nbudget_deadlines [simp]:
  "nbudget (SetReadDeadline v c) = nbudget c" "nbudget (SetWriteDeadline v c) = nbudget c"
  "nbudget (SetDeadline v c) = nbudget c"
  by (induction c)
    (auto simp: SetReadDeadline_def SetWriteDeadline_def SetDeadline_def conn_budget_def)

lemma nwrites_all_nread [simp]: "nwrites_all (snd (nread m c)) = nwrites_all c"
  by (induction c) (auto simp: conn_read_def split: prod.split list.split)

lemma WriteFull_all:
  assumes "nwrites_all (tconn c)" and "\<not> isClosed c"
  shows "\<exists>c'. WriteFull b c = (Inr (), c') \<and> nwrites_all (tconn c') \<and> \<not> isClosed c'
     \<and> nsent (tconn c') = nsent (tconn c) @ b \<and> nstream (tconn c') = nstream (tconn c)
     \<and> nregular (tconn c') = nregular (tconn c) \<and> ttimeout c' = ttimeout c
     \<and> socket_open (tconn c') = socket_open (tconn c)"
proof (cases "b = []")
  case True
  with assms show ?thesis by simp
next
  case False
  obtain k where k: "nwrite b (tconn c) = ((length b, None), k)" "nwrites_all k"
    "nsent k = nsent (tconn c) @ b" "nstream k = nstream (tconn c)"
    "nregular k = nregular (tconn c)" "socket_open k = socket_open (tconn c)"
    using nwrite_all [OF assms(1)] by blast
  with False assms(2) have "WriteFull b c = (Inr (), c\<lparr>tconn := k\<rparr>)"
    by (subst WriteFull.simps) (simp add: Write_def)
  with k assms(2) show ?thesis by simp
qed

lemma WriteFull_open: "WriteFull b c = (Inr x, c') \<Longrightarrow> isClosed c' = isClosed c"
proof (induction b c rule: WriteFull.induct)
  case (1 b c)
  then show ?case
    using Write_sent [of b c]
    by (subst (asm) (2) WriteFull.simps) (auto split: if_splits prod.splits option.splits)
qed

text \<open>
  C14: \<^verbatim>\<open>WriteFull\<close> returns on every connection. Without an error the connection has taken
  exactly the bytes given, in order, however the connection splits the writes; with an error it
  has taken a proper prefix of them, and the client is then closed unless the error is
  \<^verbatim>\<open>io.ErrShortWrite\<close>.
\<close>

theorem WriteFull_sends_all_or_prefix:
  "case WriteFull b c of
     (Inr _, c') \<Rightarrow> nsent (tconn c') = nsent (tconn c) @ b
   | (Inl e, c') \<Rightarrow> (\<exists>n. nsent (tconn c') = nsent (tconn c) @ take n b)
                    \<and> (isClosed c' \<or> e = ErrShortWrite) \<and> b \<noteq> []"
proof (induction b c rule: WriteFull.induct)
  case (1 b c)
  obtain n e c' where wr: "Write b c = ((n, e), c')" by (metis surj_pair)
  note facts = Write_sent [OF wr]
  show ?case
  proof (cases "b = []")
    case True
    then show ?thesis by simp
  next
    case nonempty: False
    show ?thesis
    proof (cases e)
      case (Some err)
      with nonempty wr facts show ?thesis
        by (subst WriteFull.simps) (auto simp: nonempty)
    next
      case None
      show ?thesis
      proof (cases "n = 0")
        case True
        with nonempty wr facts None show ?thesis
          by (subst WriteFull.simps) (auto simp: nonempty)
      next
        case False
        have eq: "WriteFull b c = WriteFull (drop n b) c'"
          using nonempty wr None False by (subst WriteFull.simps) simp
        have "take n b @ drop n b = b" and "\<And>k. take n b @ take k (drop n b) = take (n + k) b"
          by (simp_all add: take_add)
        with "1.IH" [OF nonempty wr [symmetric] refl None False] facts nonempty show ?thesis
          unfolding eq
          by (auto split: sum.splits prod.splits)
      qed
    qed
  qed
qed

lemma read_failure_keeps_socket_aux:
  "Read m c = ((d, Some e), c') \<Longrightarrow> isClosed c' \<and> socket_open (tconn c') = socket_open (tconn c)"
  by (auto simp: Read_def read_conn_def split: if_splits prod.splits dest: nread_socket)

lemma write_failure_keeps_socket_aux:
  "Write b c = ((n, Some e), c') \<Longrightarrow> isClosed c' \<and> socket_open (tconn c') = socket_open (tconn c)"
  by (auto simp: Write_def split: if_splits prod.splits dest: nwrite_socket)

text \<open>
  C40: after a failed \<^verbatim>\<open>Read\<close> or \<^verbatim>\<open>Write\<close> the closed flag is set, so that \<^verbatim>\<open>Close\<close> returns nil
  without closing the connection: an open socket stays open.
\<close>

theorem failed_io_leaks_socket:
  assumes "Read m c = ((d, Some e), c') \<or> Write b c = ((n, Some e), c')"
    and "socket_open (tconn c)"
  shows "Close c' = (None, c') \<and> socket_open (tconn c')"
  using assms read_failure_keeps_socket_aux [of m c d e c']
    write_failure_keeps_socket_aux [of b c n e c']
  by (auto simp: Close_def)

definition ex_reset_conn :: conn where
  "ex_reset_conn = \<lparr>inbound = [([1, 2], None), ([], Some (NetError True ''i/o timeout''))], wscript = [],
     sent = [], conn_open = True, rd_deadline = False, wr_deadline = False\<rparr>"

definition ex_client :: "conn \<Rightarrow> tcp_client" where
  "ex_client c = \<lparr>tconn = TCPConn c, ttimeout = 0, isClosed = False\<rparr>"

lemma failed_io_leaks_socket_witness:
  "let c = snd (Read 4 (ex_client ex_reset_conn)); c' = snd (Read 4 c)
   in Close c' = (None, c') \<and> socket_open (tconn c')"
  unfolding Let_def
  by (rule failed_io_leaks_socket [where m = 4 and d = "[]" and e = "NetError True ''i/o timeout''"
        and c = "snd (Read 4 (ex_client ex_reset_conn))" and b = "[]" and n = 0])
    (simp_all add: Read_def read_conn_def ex_client_def ex_reset_conn_def conn_read_def)

subsection \<open>What the callbacks of Listen see\<close>

lemma nclose_stream_prefix: "prefix (fst (nstream (snd (nclose c)))) (fst (nstream c))"
  by (induction c) (auto simp: conn_close_def conn_stream_def split: prod.split)

lemma nclose_regular: "nregular c \<Longrightarrow> nregular (snd (nclose c))"
  by (induction c) (auto simp: conn_close_def conn_regular_def split: prod.split)

text \<open>The shape of the log: the data in order, then at most one error, then the end, once.\<close>

definition log_tail_ok :: "listen_pc \<Rightarrow> bool \<Rightarrow> listen_event list \<Rightarrow> bool" where
  "log_tail_ok pc d t \<longleftrightarrow>
     (if pc = Finished then d \<and> (t = [OnDone] \<or> (\<exists>e. t = [OnError e, OnDone] \<and> \<not> is_net_timeout e))
      else \<not> d \<and> t = [])"

definition listen_inv :: "byte list \<Rightarrow> tcp_listen \<Rightarrow> bool" where
  "listen_inv s l \<longleftrightarrow> (\<exists>ds t. llog l = map OnData ds @ t \<and> log_tail_ok (lpc l) (ldone l) t
     \<and> [] \<notin> set ds \<and> prefix (concat ds) s
     \<and> (lpc l = Blocked \<or> \<not> isClosed (lclient l) \<longrightarrow>
          nregular (tconn (lclient l)) \<and> prefix (concat ds @ fst (nstream (tconn (lclient l)))) s))"

lemma listen_inv_start:
  "nregular (tconn c) \<Longrightarrow> listen_inv (fst (nstream (tconn c))) (listen_start c)"
  by (auto simp: listen_inv_def listen_start_def log_tail_ok_def intro!: exI [of _ "[]"])

lemma listen_inv_finish:
  assumes "listen_inv s l" and "lpc l \<noteq> Finished"
  shows "listen_inv s (finish l)"
  using assms by (auto simp: listen_inv_def log_tail_ok_def finish_def callDone_def)

lemma listen_inv_blocked:
  assumes inv: "listen_inv s l" and pc: "lpc l = Blocked"
  shows "listen_inv s (listen_loop l)"
proof -
  obtain ds where ds: "llog l = map OnData ds" "\<not> ldone l" "[] \<notin> set ds" "prefix (concat ds) s"
    and reg: "nregular (tconn (lclient l))"
    and pre: "prefix (concat ds @ fst (nstream (tconn (lclient l)))) s"
    using inv pc by (auto simp: listen_inv_def log_tail_ok_def)
  obtain d e k where rd: "nread listen_buf_size (tconn (lclient l)) = ((d, e), k)" by (metis surj_pair)
  have pos: "0 < listen_buf_size" by (simp add: listen_buf_size_def)
  note laws = nread_laws [OF reg pos rd]
  show ?thesis
  proof (cases e)
    case None
    then have "prefix ((concat ds @ d) @ fst (nstream k)) s" using laws(3) pre by simp
    then have "prefix (concat ds @ d) s" by (rule append_prefixD)
    with None laws(2,3,6) rd pc ds pre show ?thesis
      by (auto simp: listen_inv_def listen_loop_def read_conn_def after_read_def log_tail_ok_def
          intro!: exI [of _ "ds @ [d]"])
  next
    case (Some err)
    with rd pc ds show ?thesis
      by (auto simp: listen_inv_def listen_loop_def read_conn_def after_read_def log_tail_ok_def
          finish_def callDone_def intro!: exI [of _ ds])
  qed
qed

lemma listen_inv_loop:
  assumes inv: "listen_inv s l" and pc: "lpc l \<noteq> Finished"
  shows "listen_inv s (listen_loop l)"
proof (cases "lpc l")
  case LoopHead
  with listen_inv_finish [OF inv pc] inv show ?thesis
    by (auto simp: listen_loop_def) (auto simp: listen_inv_def log_tail_ok_def)
next
  case EnterRead
  with listen_inv_finish [OF inv pc] inv show ?thesis
    by (auto simp: listen_loop_def after_read_def) (auto simp: listen_inv_def log_tail_ok_def)
next
  case Blocked
  with inv show ?thesis by (rule listen_inv_blocked)
next
  case Finished
  with pc show ?thesis by simp
qed

lemma listen_inv_watcher:
  assumes inv: "listen_inv s l"
  shows "listen_inv s (listen_watcher l)"
proof -
  obtain r k where cl: "nclose (tconn (lclient l)) = (r, k)" by force
  have "prefix (fst (nstream k)) (fst (nstream (tconn (lclient l))))"
    and "nregular (tconn (lclient l)) \<Longrightarrow> nregular k"
    using nclose_stream_prefix [of "tconn (lclient l)"] nclose_regular [of "tconn (lclient l)"] cl
    by simp_all
  then have "prefix (xs @ fst (nstream (tconn (lclient l)))) s \<Longrightarrow> prefix (xs @ fst (nstream k)) s" for xs
    by (meson prefix_order.trans same_prefix_prefix)
  with inv cl \<open>_ \<Longrightarrow> nregular k\<close> show ?thesis
    by (cases "lwatcher l") (auto simp: listen_inv_def listen_watcher_def close_conn_def)
qed

lemma listen_step_inv: "listen_step l l' \<Longrightarrow> listen_inv s l \<Longrightarrow> listen_inv s l'"
proof (induction rule: listen_step.induct)
  case (loop l)
  then show ?case by (simp add: listen_inv_loop)
next
  case (cancel l)
  then show ?case by (simp add: listen_inv_def)
next
  case (watcher l)
  then show ?case by (simp add: listen_inv_watcher)
qed

lemma listen_steps_inv: "listen_step\<^sup>*\<^sup>* l l' \<Longrightarrow> listen_inv s l \<Longrightarrow> listen_inv s l'"
  by (induction rule: rtranclp_induct) (auto intro: listen_step_inv)

text \<open>
  C6: in every interleaving of the reading goroutine with a cancellation of the context, the
  calls of \<^verbatim>\<open>onData\<close> carry non-empty chunks that together are a prefix of what the peer sent; they
  are followed, when the goroutine has ended, by at most one \<^verbatim>\<open>onError\<close> and then exactly one
  \<^verbatim>\<open>onDone\<close>, and by nothing before.
\<close>

theorem listen_callbacks_ordered:
  assumes "nregular (tconn c)" and "listen_step\<^sup>*\<^sup>* (listen_start c) l"
  shows "\<exists>ds t. llog l = map OnData ds @ t \<and> [] \<notin> set ds \<and> prefix (concat ds) (fst (nstream (tconn c)))
     \<and> (if lpc l = Finished then t = [OnDone] \<or> (\<exists>e. t = [OnError e, OnDone]) else t = [])"
  using listen_steps_inv [OF assms(2) listen_inv_start [OF assms(1)]]
  by (auto simp: listen_inv_def log_tail_ok_def split: if_splits)

lemma listen_loop_steps:
  "list_all (\<lambda>i. lpc ((listen_loop ^^ i) l) \<noteq> Finished) [0..<n] \<Longrightarrow> listen_step\<^sup>*\<^sup>* l ((listen_loop ^^ n) l)"
proof (induction n)
  case 0
  then show ?case by simp
next
  case (Suc n)
  then have "listen_step\<^sup>*\<^sup>* l ((listen_loop ^^ n) l)" "listen_step ((listen_loop ^^ n) l) ((listen_loop ^^ Suc n) l)"
    by (auto intro: listen_step.loop)
  then show ?case by (rule rtranclp.rtrancl_into_rtrancl)
qed

definition ex_listen :: "nat \<Rightarrow> tcp_listen" where
  "ex_listen n = (listen_loop ^^ n) (listen_start (ex_client ex_reset_conn))"

lemmas ex_listen_defs = ex_listen_def listen_start_def ex_client_def ex_reset_conn_def listen_loop_def
  read_conn_def after_read_def finish_def callDone_def conn_read_def listen_buf_size_def funpow_numeral

lemma listen_callbacks_ordered_witness:
  "\<exists>ds t. llog (ex_listen 7) = map OnData ds @ t \<and> [] \<notin> set ds \<and> prefix (concat ds) [1, 2]
     \<and> (if lpc (ex_listen 7) = Finished then t = [OnDone] \<or> (\<exists>e. t = [OnError e, OnDone]) else t = [])"
proof -
  have "[0..<7] = [0, 1, 2, 3, 4, 5, 6]" by (simp add: upt_rec)
  then have "list_all (\<lambda>i. lpc ((listen_loop ^^ i) (listen_start (ex_client ex_reset_conn))) \<noteq> Finished) [0..<7]"
    by (simp add: ex_listen_defs)
  then have "listen_step\<^sup>*\<^sup>* (listen_start (ex_client ex_reset_conn)) (ex_listen 7)"
    unfolding ex_listen_def by (rule listen_loop_steps)
  moreover have "nregular (tconn (ex_client ex_reset_conn))"
    "fst (nstream (tconn (ex_client ex_reset_conn))) = [1, 2]"
    by (simp_all add: ex_client_def ex_reset_conn_def conn_regular_def regular_def conn_stream_def)
  ultimately show ?thesis using listen_callbacks_ordered by metis
qed

text \<open>
  A read that times out ends the listener: \<^verbatim>\<open>client.Read\<close> has set the closed flag, so the
  loop does not read again after the \<^verbatim>\<open>continue\<close> of the timeout branch but calls \<^verbatim>\<open>onDone\<close>,
  without an \<^verbatim>\<open>onError\<close>.
\<close>

theorem listen_timeout_ends:
  assumes "lpc l = Blocked" and "\<not> ldone l"
    and "nread listen_buf_size (tconn (lclient l)) = ((d, Some e), k)" and "is_net_timeout e"
  shows "llog (listen_loop (listen_loop l)) = llog l @ [OnDone]
     \<and> lpc (listen_loop (listen_loop l)) = Finished"
proof -
  have "\<not> errors_is e ErrTCPClientClosed" "\<not> errors_is e EOF"
    using assms(4) by (cases e; simp)+
  with assms show ?thesis
    by (simp add: listen_loop_def read_conn_def after_read_def finish_def callDone_def)
qed

lemma listen_timeout_ends_witness:
  "llog (listen_loop (listen_loop (ex_listen 5))) = llog (ex_listen 5) @ [OnDone]
     \<and> lpc (listen_loop (listen_loop (ex_listen 5))) = Finished"
  by (rule listen_timeout_ends [where d = "[]" and e = "NetError True ''i/o timeout''"
        and k = "TCPConn (ex_reset_conn\<lparr>inbound := []\<rparr>)"])
    (simp_all add: ex_listen_defs)

end
