(* ===== verification/WebSocket_Frame.thy ===== *)
theory WebSocket_Frame
  imports Bufio Tcp_Client
begin

text \<open>
  The wire format of \<^verbatim>\<open>network/websocket_client.go\<close>: \<^verbatim>\<open>buildClientWebSocketFrame\<close>,
  \<^verbatim>\<open>readWebSocketFrameWithLimit\<close> and the payload of close frames. The reader is generic in the
  \<^verbatim>\<open>io.Reader\<close> as in the code; the locale \<open>full_reader\<close> states what it needs of
  \<^verbatim>\<open>io.ReadFull\<close>, and is interpreted for plain connections and for \<^verbatim>\<open>bufio\<close> readers.
\<close>

definition wsOpContinuation :: byte where "wsOpContinuation = 0"
definition wsOpText :: byte where "wsOpText = 1"
definition wsOpBinary :: byte where "wsOpBinary = 2"
definition wsOpClose :: byte where "wsOpClose = 8"
definition wsOpPing :: byte where "wsOpPing = 9"
definition wsOpPong :: byte where "wsOpPong = 10"

lemmas ws_opcodes = wsOpContinuation_def wsOpText_def wsOpBinary_def wsOpClose_def wsOpPing_def
  wsOpPong_def

record websocketFrame =
  Fin :: bool
  Opcode :: byte
  Masked :: bool
  Payload :: "byte list"

definition int64Max :: "64 word" where
  "int64Max = drop_bit 1 (NOT 0)"

text \<open>The masking loop: byte \<open>i\<close> is combined with byte \<open>i mod 4\<close> of the key.\<close>

definition mask_payload :: "byte list \<Rightarrow> byte list \<Rightarrow> byte list" where
  "mask_payload key p = map (\<lambda>i. p ! i XOR key ! (i mod 4)) [0..<length p]"

text \<open>The result of \<^verbatim>\<open>rand.Read\<close> for the key is a parameter.\<close>

definition buildClientWebSocketFrame ::
    "go_error + byte list \<Rightarrow> byte \<Rightarrow> byte list \<Rightarrow> go_error + byte list" where
  "buildClientWebSocketFrame rnd opcode payload =
     (let first = 0x80 OR (opcode AND 0x0F);
          payloadLen = length payload;
          maskBit = 0x80 :: byte;
          lenField =
            (if payloadLen \<le> 125 then [maskBit OR word_of_nat payloadLen]
             else if payloadLen \<le> 65535 then
               (maskBit OR 126) # be_bytes 2 (word_of_nat payloadLen :: 16 word)
             else (maskBit OR 127) # be_bytes 8 (word_of_nat payloadLen :: 64 word))
      in case rnd of
        Inl err \<Rightarrow> Inl err
      | Inr maskKey \<Rightarrow> Inr (first # lenField @ maskKey @ mask_payload maskKey payload))"

text \<open>\<open>rf n\<close> is \<^verbatim>\<open>io.ReadFull\<close> of \<open>n\<close> bytes from the reader. First the switch on the length,
  then the key and the payload, then the whole function.\<close>

definition read_payload_len :: "(nat \<Rightarrow> ('s, byte list) io) \<Rightarrow> byte \<Rightarrow> ('s, 64 word) io" where
  "read_payload_len rf h =
     (let len7 = ucast (h AND 0x7F) in
      if len7 = (126 :: 64 word) then bindE (rf 2) (\<lambda>ext. returnE (ucast (be_word ext :: 16 word)))
      else if len7 = 127 then bindE (rf 8) (\<lambda>ext. returnE (be_word ext))
      else returnE len7)"

definition read_frame_payload ::
    "(nat \<Rightarrow> ('s, byte list) io) \<Rightarrow> bool \<Rightarrow> 64 word \<Rightarrow> ('s, byte list) io" where
  "read_frame_payload rf masked payloadLen =
     bindE (if masked then rf 4 else returnE (replicate 4 0)) (\<lambda>maskKey.
     bindE (if 0 < payloadLen then rf (unat payloadLen) else returnE []) (\<lambda>payload.
     returnE (if masked then mask_payload maskKey payload else payload)))"

definition readWebSocketFrameWithLimit ::
    "(nat \<Rightarrow> ('s, byte list) io) \<Rightarrow> int \<Rightarrow> ('s, websocketFrame) io" where
  "readWebSocketFrameWithLimit rf maxPayloadSize =
     bindE (rf 2) (\<lambda>header.
     let fin = (header ! 0 AND 0x80 \<noteq> 0);
         opcode = header ! 0 AND 0x0F;
         masked = (header ! 1 AND 0x80 \<noteq> 0) in
     bindE (read_payload_len rf (header ! 1)) (\<lambda>payloadLen.
     bindE (guardE (\<not> (0 < maxPayloadSize \<and> word_of_int maxPayloadSize < payloadLen))
              (Errorf (''websocket payload too large: '' @ show_nat (unat payloadLen) @ '' > ''
                       @ itoa maxPayloadSize))) (\<lambda>_.
     bindE (guardE (\<not> int64Max < payloadLen) (Errorf ''websocket payload too large'')) (\<lambda>_.
     bindE (read_frame_payload rf masked payloadLen) (\<lambda>payload.
     returnE \<lparr>Fin = fin, Opcode = opcode, Masked = masked, Payload = payload\<rparr>)))))"

text \<open>Close payloads.\<close>

definition parseWebSocketClosePayload :: "byte list \<Rightarrow> 16 word \<times> string" where
  "parseWebSocketClosePayload payload =
     (if length payload < 2 then (1000, '''')
      else (be_word (take 2 payload),
            if 2 < length payload then string_of (drop 2 payload) else ''''))"

definition close_payload :: "16 word \<Rightarrow> string \<Rightarrow> byte list" where
  "close_payload code reason = be_bytes 2 code @ bytes_of reason"

subsection \<open>Masking\<close>

lemma length_mask_payload [simp]: "length (mask_payload key p) = length p"
  by (simp add: mask_payload_def)

lemma mask_payload_involution [codec_simps]: "mask_payload key (mask_payload key p) = p"
  by (rule nth_equalityI) (simp_all add: mask_payload_def xor.assoc)

lemma mask_payload_Nil [simp]: "mask_payload key [] = []"
  by (simp add: mask_payload_def)

subsection \<open>The format of a frame\<close>

text \<open>
  RFC 6455, section 5.2, as a specification: the FIN bit and the opcode, the mask bit and the
  payload length in 7, 7+16 or 7+64 bits, the masking key when there is one, the payload.
\<close>

definition length_field :: "bool \<Rightarrow> nat \<Rightarrow> byte list" where
  "length_field masked n =
     (let m = (if masked then 0x80 else 0 :: byte) in
      if n \<le> 125 then [m OR word_of_nat n]
      else if n \<le> 65535 then (m OR 126) # be_bytes 2 (word_of_nat n :: 16 word)
      else (m OR 127) # be_bytes 8 (word_of_nat n :: 64 word))"

definition encode_frame :: "bool \<Rightarrow> byte \<Rightarrow> byte list option \<Rightarrow> byte list \<Rightarrow> byte list" where
  "encode_frame fin opcode key payload =
     ((if fin then 0x80 else 0) OR (opcode AND 0x0F)) # length_field (key \<noteq> None) (length payload)
     @ (case key of None \<Rightarrow> payload | Some k \<Rightarrow> k @ mask_payload k payload)"

lemma buildClientWebSocketFrame_encodes:
  "buildClientWebSocketFrame (Inr key) opcode payload = Inr (encode_frame True opcode (Some key) payload)"
  by (simp add: buildClientWebSocketFrame_def encode_frame_def length_field_def Let_def)

lemma byte_flag_bits:
  fixes w :: byte
  shows "(0x80 OR (w AND 0x0F)) AND 0x80 \<noteq> 0" "(w AND 0x0F) AND 0x80 = 0"
    "(0x80 OR (w AND 0x0F)) AND 0x0F = w AND 0x0F" "(w AND 0x0F) AND 0x0F = w AND 0x0F"
    "(0x80 OR w) AND 0x80 \<noteq> 0" "(0x80 OR w) AND 0x7F = w AND 0x7F"
  by (simp_all add: bit.conj_disj_distrib2 and.assoc)

lemma small_and_mask:
  "n \<le> 127 \<Longrightarrow> (word_of_nat n :: byte) AND 0x7F = word_of_nat n"
  "n \<le> 127 \<Longrightarrow> (word_of_nat n :: byte) AND 0x80 = 0"
proof -
  assume n: "n \<le> 127"
  have "(word_of_nat n :: byte) AND mask 7 = word_of_nat n"
  proof (rule unsigned_word_eqI)
    have "take_bit 7 n = n" using n by (simp add: take_bit_nat_eq_self)
    then show "unat ((word_of_nat n :: byte) AND mask 7) = unat (word_of_nat n :: byte)"
      using n by (simp add: flip: take_bit_eq_mask)
        (simp add: unsigned_take_bit_eq unsigned_of_nat take_bit_nat_eq_self)
  qed
  then show *: "(word_of_nat n :: byte) AND 0x7F = word_of_nat n"
    by (simp add: mask_eq_exp_minus_1)
  have "((word_of_nat n :: byte) AND 0x7F) AND 0x80 = 0" by (simp add: and.assoc)
  with * show "(word_of_nat n :: byte) AND 0x80 = 0" by simp
qed

lemma length_field_flag:
  assumes "length_field m n = h # ext"
  shows "(h AND 0x80 \<noteq> 0) = m"
  using assms small_and_mask(2) [of n]
  by (auto simp: length_field_def Let_def byte_flag_bits split: if_splits)

lemma length_field_cases:
  assumes "length_field m n = h # ext" and "n < 2 ^ 63"
  obtains "n \<le> 125" "ucast (h AND 0x7F) = (word_of_nat n :: 64 word)" "ext = []"
  | "125 < n" "n \<le> 65535" "h AND 0x7F = 126" "ext = be_bytes 2 (word_of_nat n :: 16 word)"
  | "65535 < n" "h AND 0x7F = 127" "ext = be_bytes 8 (word_of_nat n :: 64 word)"
proof -
  have "ucast (word_of_nat n :: byte) = (word_of_nat n :: 64 word)" if "n \<le> 125"
    by (rule unsigned_word_eqI) (use that in \<open>simp add: unsigned_of_nat unsigned_ucast_eq take_bit_nat_eq_self\<close>)
  with assms that show ?thesis
    by (auto simp: length_field_def Let_def byte_flag_bits small_and_mask split: if_splits)
qed

lemma word_of_nat_extend:
  assumes "n \<le> 65535"
  shows "ucast (word_of_nat n :: 16 word) = (word_of_nat n :: 64 word)"
  by (rule unsigned_word_eqI)
    (use assms in \<open>simp add: unsigned_of_nat unsigned_ucast_eq take_bit_nat_eq_self\<close>)

lemma small_not_escape:
  "n \<le> 125 \<Longrightarrow> (word_of_nat n :: 64 word) \<noteq> 126 \<and> (word_of_nat n :: 64 word) \<noteq> 127"
  by (auto simp: word_unat_eq_iff unsigned_of_nat take_bit_nat_eq_self)

lemma unat_length_field: "n < 2 ^ 63 \<Longrightarrow> unat (word_of_nat n :: 64 word) = n"
  by (simp add: unsigned_of_nat take_bit_nat_eq_self)

lemma payload_limits:
  assumes "n < 2 ^ 63" and "limit \<le> 0 \<or> int n \<le> limit" and "limit < 2 ^ 63"
  shows "\<not> (0 < limit \<and> (word_of_int limit :: 64 word) < word_of_nat n)"
    and "\<not> int64Max < (word_of_nat n :: 64 word)"
proof -
  have "uint (word_of_int limit :: 64 word) = limit" if "0 < limit"
    using that assms(3) by (simp add: unsigned_of_int take_bit_int_eq_self)
  moreover have "uint (word_of_nat n :: 64 word) = int n"
    using assms(1) by (simp add: unsigned_of_nat take_bit_int_eq_self flip: of_nat_take_bit)
      (simp add: take_bit_nat_eq_self)
  moreover have "uint int64Max = 0x7FFFFFFFFFFFFFFF"
    by (simp add: int64Max_def mask_eq_exp_minus_1 unsigned_drop_bit_eq)
  ultimately show "\<not> (0 < limit \<and> (word_of_int limit :: 64 word) < word_of_nat n)"
    and "\<not> int64Max < (word_of_nat n :: 64 word)"
    using assms by (auto simp: word_less_def)
qed

subsection \<open>Reading frames\<close>

locale full_reader =
  fixes rf :: "nat \<Rightarrow> ('s, byte list) io"
    and invar :: "'s \<Rightarrow> bool"
    and stream :: "'s \<Rightarrow> byte list \<times> go_error"
  assumes rf_ok: "invar s \<Longrightarrow> stream s = (bs @ rest, e) \<Longrightarrow>
      \<exists>s'. rf (length bs) s = (Inr bs, s') \<and> invar s' \<and> stream s' = (rest, e)"
    and rf_only: "invar s \<Longrightarrow> rf n s = (Inr d, s') \<Longrightarrow>
      length d = n \<and> invar s' \<and> stream s = (d @ fst (stream s'), snd (stream s'))"
    and rf_err: "invar s \<Longrightarrow> length (fst (stream s)) < n \<Longrightarrow>
      \<exists>s'. rf n s = (Inl (if fst (stream s) \<noteq> [] \<and> snd (stream s) = EOF then ErrUnexpectedEOF
                          else snd (stream s)), s')"
begin

lemma rf_ok_len:
  "invar s \<Longrightarrow> stream s = (bs @ rest, e) \<Longrightarrow> length bs = n \<Longrightarrow>
   \<exists>s'. rf n s = (Inr bs, s') \<and> invar s' \<and> stream s' = (rest, e)"
  using rf_ok by blast

text \<open>The payload length of any of the three forms.\<close>

lemma read_length_field:
  assumes s: "invar s" "stream s = (ext @ rest, e)"
    and lf: "length_field m n = h # ext" and n: "n < 2 ^ 63"
  shows "\<exists>s'. read_payload_len rf h s = (Inr (word_of_nat n), s') \<and> invar s' \<and> stream s' = (rest, e)"
  using lf n
proof (cases rule: length_field_cases)
  case 1
  with s small_not_escape [of n] show ?thesis by (simp add: read_payload_len_def Let_def)
next
  case 2
  then obtain s' where "rf 2 s = (Inr ext, s')" "invar s'" "stream s' = (rest, e)"
    using rf_ok_len [OF s, of 2] by auto
  with 2 show ?thesis
    by (simp add: read_payload_len_def bindE_Inr be_round_trip word_of_nat_extend)
next
  case 3
  then obtain s' where "rf 8 s = (Inr ext, s')" "invar s'" "stream s' = (rest, e)"
    using rf_ok_len [OF s, of 8] by auto
  with 3 show ?thesis by (simp add: read_payload_len_def bindE_Inr be_round_trip)
qed

text \<open>The key and the payload.\<close>

lemma read_frame_body:
  assumes s: "invar s" "stream s = ((case key of None \<Rightarrow> p | Some k \<Rightarrow> k @ mask_payload k p) @ rest, e)"
    and key: "pred_option (\<lambda>k. length k = 4) key" and p: "length p < 2 ^ 63"
  shows "\<exists>s'. read_frame_payload rf (key \<noteq> None) (word_of_nat (length p)) s = (Inr p, s')
    \<and> invar s' \<and> stream s' = (rest, e)"
proof -
  note len = unat_length_field [OF p]
  have nz: "(0 < (word_of_nat (length p) :: 64 word)) = (p \<noteq> [])"
    using len by (metis length_greater_0_conv unat_gt_0 word_gt_0)
  have body: "\<exists>t. (if p \<noteq> [] then rf (length p) else returnE []) s0 = (Inr q, t) \<and> invar t \<and> stream t = (rest, e)"
    if "invar s0" "stream s0 = (q @ rest, e)" "length q = length p" for s0 q
    using rf_ok_len [OF that(1,2,3)] that by (cases "p = []") auto
  show ?thesis
  proof (cases key)
    case None
    with body [of s p] s show ?thesis
      by (auto simp: read_frame_payload_def bindE_Inr nz len)
  next
    case (Some k)
    then obtain t where t: "rf 4 s = (Inr k, t)" "invar t" "stream t = (mask_payload k p @ rest, e)"
      using rf_ok_len [of s k "mask_payload k p @ rest" e 4] s key by auto
    with body [OF t(2,3)] Some show ?thesis
      by (auto simp: read_frame_payload_def bindE_Inr mask_payload_involution nz len)
  qed
qed

lemma read_frame_encoded:
  assumes s: "invar s" "stream s = (encode_frame fin op key p @ rest, e)"
    and key: "pred_option (\<lambda>k. length k = 4) key" and p: "length p < 2 ^ 63"
    and lim: "limit \<le> 0 \<or> int (length p) \<le> limit" and limit: "limit < 2 ^ 63"
  shows "\<exists>s'. readWebSocketFrameWithLimit rf limit s
      = (Inr \<lparr>Fin = fin, Opcode = op AND 0x0F, Masked = key \<noteq> None, Payload = p\<rparr>, s')
    \<and> invar s' \<and> stream s' = (rest, e)"
proof -
  obtain h ext where lf: "length_field (key \<noteq> None) (length p) = h # ext"
    by (cases "length_field (key \<noteq> None) (length p)") (auto simp: length_field_def Let_def split: if_splits)
  let ?h0 = "(if fin then 0x80 else 0) OR (op AND 0x0F) :: byte"
  let ?body = "case key of None \<Rightarrow> p | Some k \<Rightarrow> k @ mask_payload k p"
  obtain s1 where s1: "rf 2 s = (Inr [?h0, h], s1)" "invar s1" "stream s1 = (ext @ ?body @ rest, e)"
    using rf_ok_len [of s "[?h0, h]" "ext @ ?body @ rest" e 2] s lf by (auto simp: encode_frame_def)
  obtain s2 where s2: "read_payload_len rf h s1 = (Inr (word_of_nat (length p)), s2)"
    "invar s2" "stream s2 = (?body @ rest, e)"
    using read_length_field [OF s1(2,3) lf p] by blast
  have flags: "(?h0 AND 0x80 \<noteq> 0) = fin" "?h0 AND 0x0F = op AND 0x0F" "(h AND 0x80 \<noteq> 0) = (key \<noteq> None)"
    using length_field_flag [OF lf] byte_flag_bits by (auto split: if_splits)
  have lims: "(0 < limit \<and> (word_of_int limit :: 64 word) < word_of_nat (length p)) = False"
    "(int64Max < (word_of_nat (length p) :: 64 word)) = False"
    using payload_limits [OF p lim limit] by auto
  obtain s3 where s3: "read_frame_payload rf (key \<noteq> None) (word_of_nat (length p)) s2 = (Inr p, s3)"
    "invar s3" "stream s3 = (rest, e)"
    using read_frame_body [OF s2(2,3) key p] by blast
  have "readWebSocketFrameWithLimit rf limit s
      = (Inr \<lparr>Fin = fin, Opcode = op AND 0x0F, Masked = key \<noteq> None, Payload = p\<rparr>, s3)"
    unfolding readWebSocketFrameWithLimit_def bindE_Inr [of "rf 2", OF s1(1)] Let_def nth_Cons_0 nth_Cons_Suc One_nat_def flags
    by (simp only: bindE_Inr [of "read_payload_len rf h", OF s2(1)] lims not_False_eq_True guardE_simps bindE_returnE bindE_Inr [of "read_frame_payload rf (key \<noteq> None) (word_of_nat (length p))", OF s3(1)]
        returnE_apply)
  with s3 show ?thesis by blast
qed

text \<open>A declared length above the limit is refused before any payload is read.\<close>

lemma read_frame_over_limit:
  assumes s: "invar s" "stream s = (encode_frame fin op key p @ rest, e)"
    and p: "length p < 2 ^ 63" and lim: "0 < limit" "limit < int (length p)"
  shows "\<exists>s'. readWebSocketFrameWithLimit rf limit s
    = (Inl (Errorf (''websocket payload too large: '' @ show_nat (length p) @ '' > '' @ itoa limit)), s')"
proof -
  obtain h ext where lf: "length_field (key \<noteq> None) (length p) = h # ext"
    by (cases "length_field (key \<noteq> None) (length p)") (auto simp: length_field_def Let_def split: if_splits)
  let ?h0 = "(if fin then 0x80 else 0) OR (op AND 0x0F) :: byte"
  let ?body = "case key of None \<Rightarrow> p | Some k \<Rightarrow> k @ mask_payload k p"
  obtain s1 where s1: "rf 2 s = (Inr [?h0, h], s1)" "invar s1" "stream s1 = (ext @ ?body @ rest, e)"
    using rf_ok_len [of s "[?h0, h]" "ext @ ?body @ rest" e 2] s lf by (auto simp: encode_frame_def)
  obtain s2 where s2: "read_payload_len rf h s1 = (Inr (word_of_nat (length p)), s2)"
    using read_length_field [OF s1(2,3) lf p] by blast
  have "uint (word_of_int limit :: 64 word) = limit" "uint (word_of_nat (length p) :: 64 word) = int (length p)"
    using lim p unat_length_field [OF p]
    by (simp_all add: unsigned_of_int take_bit_int_eq_self uint_nat)
  then have lims: "(0 < limit \<and> (word_of_int limit :: 64 word) < word_of_nat (length p)) = True"
    using lim by (simp add: word_less_def)
  show ?thesis
    unfolding readWebSocketFrameWithLimit_def bindE_Inr [of "rf 2", OF s1(1)] Let_def nth_Cons_0 nth_Cons_Suc One_nat_def
      bindE_Inr [of "read_payload_len rf h", OF s2] lims not_True_eq_False guardE_simps bindE_failE failE_apply unat_length_field [OF p]
    by blast
qed

end

interpretation conn_full_reader: full_reader conn_read_full nregular nstream
proof (unfold_locales, goal_cases)
  case (1 s bs rest e)
  then show ?case using conn_read_full_ok by blast
next
  case (2 s n d s')
  then show ?case using conn_read_full_cases by blast
next
  case (3 s n)
  then show ?case using conn_read_full_err by blast
qed

interpretation bufio_full_reader: full_reader bufio_read_full bufio_regular bufio_stream
proof (unfold_locales, goal_cases)
  case (1 s bs rest e)
  then show ?case using bufio_read_full_ok by blast
next
  case (2 s n d s')
  then show ?case using bufio_read_full_cases by blast
next
  case (3 s n)
  then show ?case using bufio_read_full_err by blast
qed

subsection \<open>Properties of the format\<close>

text \<open>
  C9: what \<^verbatim>\<open>buildClientWebSocketFrame\<close> writes, \<^verbatim>\<open>readWebSocketFrameWithLimit\<close> reads: for every
  payload of a length an \<^verbatim>\<open>int\<close> can hold and within the limit, every masking key and every way the
  bytes arrive through the buffered reader, the frame comes back final, masked, with the low four
  bits of the opcode and the payload unchanged, and the bytes after it stay unread.
\<close>

theorem websocket_frame_round_trip:
  assumes "length key = 4" and "length payload < 2 ^ 63"
    and "limit \<le> 0 \<or> int (length payload) \<le> limit" and "limit < 2 ^ 63"
    and "buildClientWebSocketFrame (Inr key) opcode payload = Inr frame"
    and "bufio_regular b" and "bufio_stream b = (frame @ rest, e)"
  shows "\<exists>b'. readWebSocketFrameWithLimit bufio_read_full limit b
      = (Inr \<lparr>Fin = True, Opcode = opcode AND 0x0F, Masked = True, Payload = payload\<rparr>, b')
    \<and> bufio_stream b' = (rest, e) \<and> bufio_regular b'"
  using bufio_full_reader.read_frame_encoded [of b True opcode "Some key" payload rest e limit] assms
  by (auto simp: buildClientWebSocketFrame_encodes)

lemma websocket_frame_round_trip_witness:
  "\<exists>b'. readWebSocketFrameWithLimit bufio_read_full 100
        (ex_bufio [([0x81, 0x83, 1, 2], None), ([3, 4, 73, 107], None), ([0x22, 9], None)])
      = (Inr \<lparr>Fin = True, Opcode = 1, Masked = True, Payload = [72, 105, 33]\<rparr>, b')
    \<and> bufio_stream b' = ([9], EOF) \<and> bufio_regular b'"
  using websocket_frame_round_trip [of "[1, 2, 3, 4]" "[72, 105, 33]" 100 1
      "[0x81, 0x83, 1, 2, 3, 4, 73, 107, 0x22]"
      "ex_bufio [([0x81, 0x83, 1, 2], None), ([3, 4, 73, 107], None), ([0x22, 9], None)]" "[9]" EOF]
  by (simp add: buildClientWebSocketFrame_def mask_payload_def upt_rec regular_def)

text \<open>
  A frame whose declared payload length is above a positive limit is refused with the message
  that names both numbers, whatever its payload, mask or opcode; nothing of the payload is kept.
\<close>

theorem websocket_frame_limit_enforced:
  assumes "bufio_regular b" and "bufio_stream b = (encode_frame fin op key payload @ rest, e)"
    and "length payload < 2 ^ 63" and "0 < limit" and "limit < int (length payload)"
  shows "fst (readWebSocketFrameWithLimit bufio_read_full limit b)
    = Inl (Errorf (''websocket payload too large: '' @ show_nat (length payload) @ '' > '' @ itoa limit))"
  using bufio_full_reader.read_frame_over_limit [OF assms] by auto

lemma websocket_frame_limit_enforced_witness:
  "fst (readWebSocketFrameWithLimit bufio_read_full 2 (ex_bufio [([2, 3], None), ([7, 8, 9], None)]))
    = Inl (Errorf ''websocket payload too large: 3 > 2'')"
  using websocket_frame_limit_enforced [of "ex_bufio [([2, 3], None), ([7, 8, 9], None)]" False 2 None "[7, 8, 9]" "[]"
      EOF 2]
  by (simp add: regular_def encode_frame_def length_field_def
      itoa_def show_nat.simps numeral_3_eq_3 [symmetric])

text \<open>
  The payload of a close frame carries the code and the reason back unchanged, and a payload
  of fewer than two bytes reads as code 1000 without a reason.
\<close>

theorem close_payload_round_trip:
  "parseWebSocketClosePayload (close_payload code reason) = (code, reason)
   \<and> parseWebSocketClosePayload [] = (1000, []) \<and> parseWebSocketClosePayload [b] = (1000, [])"
  by (simp add: parseWebSocketClosePayload_def close_payload_def be_round_trip)

end
