(* ===== verification/Go_Url.thy ===== *)
theory Go_Url
  imports Go_Strings
begin

text \<open>
  The part of Go's \<^verbatim>\<open>net/url\<close> and \<^verbatim>\<open>net\<close> the sources use: \<^verbatim>\<open>url.Parse\<close>, \<^verbatim>\<open>Hostname\<close>,
  \<^verbatim>\<open>Port\<close>, \<^verbatim>\<open>RequestURI\<close>, \<^verbatim>\<open>ResolveReference\<close>, \<^verbatim>\<open>String\<close>, \<^verbatim>\<open>net.SplitHostPort\<close> and
  \<^verbatim>\<open>net.ParseIP\<close>, on byte strings.
\<close>

subsection \<open>Escaping\<close>

datatype encoding = encodePath | encodeUserPassword | encodeHost | encodeZone | encodeFragment

definition alnum :: "char \<Rightarrow> bool" where
  "alnum c = (let n = of_char c :: nat in
     48 \<le> n \<and> n \<le> 57 \<or> 65 \<le> n \<and> n \<le> 90 \<or> 97 \<le> n \<and> n \<le> 122)"

definition alpha :: "char \<Rightarrow> bool" where
  "alpha c = (let n = of_char c :: nat in 65 \<le> n \<and> n \<le> 90 \<or> 97 \<le> n \<and> n \<le> 122)"

definition digit :: "char \<Rightarrow> bool" where
  "digit c = (let n = of_char c :: nat in 48 \<le> n \<and> n \<le> 57)"

definition should_escape :: "encoding \<Rightarrow> char \<Rightarrow> bool" where
  "should_escape mode c =
     (if alnum c then False
      else if (mode = encodeHost \<or> mode = encodeZone)
        \<and> c \<in> set (''!$&()*+,;=:[]<>'' @ [CHR 39, CHR 34]) then False
      else if c \<in> set ''-_.~'' then False
      else if c \<in> set ''$&+,/:;=?@'' \<and> mode = encodePath then c = CHR ''?''
      else if c \<in> set ''$&+,/:;=?@'' \<and> mode = encodeUserPassword then c \<in> set ''@/?:''
      else if c \<in> set ''$&+,/:;=?@'' \<and> mode = encodeFragment then False
      else if mode = encodeFragment \<and> c \<in> set ''!()*'' then False
      else True)"

definition upper_hex :: "nat \<Rightarrow> char" where
  "upper_hex d = (if d < 10 then char_of (48 + d) else char_of (55 + d))"

definition url_escape :: "encoding \<Rightarrow> string \<Rightarrow> string" where
  "url_escape mode s = concat (map (\<lambda>c. if should_escape mode c
     then [CHR ''%'', upper_hex (of_char c div 16), upper_hex (of_char c mod 16)] else [c]) s)"

definition hex_value :: "char \<Rightarrow> nat option" where
  "hex_value c = (case digit_value c of Some d \<Rightarrow> if d < 16 then Some d else None | None \<Rightarrow> None)"

text \<open>\<^verbatim>\<open>unescape\<close>; an error is \<^term>\<open>None\<close>.\<close>

fun unescape :: "encoding \<Rightarrow> string \<Rightarrow> string option" where
  "unescape mode [] = Some []"
| "unescape mode (c # cs) =
     (if c = CHR ''%'' then
        (case cs of
           a # b # rest \<Rightarrow>
             (case (hex_value a, hex_value b) of
                (Some x, Some y) \<Rightarrow>
                  let v = char_of (16 * x + y); is25 = ([a, b] = ''25'') in
                  if mode = encodeHost \<and> x < 8 \<and> \<not> is25 then None
                  else if mode = encodeZone \<and> \<not> is25 \<and> v \<noteq> CHR '' '' \<and> should_escape encodeHost v then None
                  else map_option (\<lambda>r. v # r) (unescape mode rest)
              | _ \<Rightarrow> None)
         | _ \<Rightarrow> None)
      else if (mode = encodeHost \<or> mode = encodeZone) \<and> (of_char c :: nat) < 128 \<and> should_escape mode c
        then None
      else map_option (\<lambda>r. c # r) (unescape mode cs))"

definition valid_encoded :: "encoding \<Rightarrow> string \<Rightarrow> bool" where
  "valid_encoded mode s \<longleftrightarrow>
     list_all (\<lambda>c. c \<in> set (''!$&()*+,;=:@[]%'' @ [CHR 39]) \<or> \<not> should_escape mode c) s"

subsection \<open>The record\<close>

record url =
  Scheme :: string
  Opaque :: string
  User :: "(string \<times> string option) option"
  Host :: string
  Path :: string
  RawPath :: string
  OmitHost :: bool
  ForceQuery :: bool
  RawQuery :: string
  Fragment :: string
  RawFragment :: string

definition empty_url :: url where
  "empty_url = \<lparr>Scheme = [], Opaque = [], User = None, Host = [], Path = [], RawPath = [],
     OmitHost = False, ForceQuery = False, RawQuery = [], Fragment = [], RawFragment = []\<rparr>"

text \<open>The last position of a character.\<close>

fun last_index :: "char \<Rightarrow> string \<Rightarrow> nat option" where
  "last_index c [] = None"
| "last_index c (x # xs) =
     (case last_index c xs of Some i \<Rightarrow> Some (Suc i) | None \<Rightarrow> if x = c then Some 0 else None)"

definition valid_optional_port :: "string \<Rightarrow> bool" where
  "valid_optional_port p \<longleftrightarrow> (case p of [] \<Rightarrow> True | c # cs \<Rightarrow> c = CHR '':'' \<and> list_all digit cs)"

definition split_host_port_url :: "string \<Rightarrow> string \<times> string" where
  "split_host_port_url hp =
     (let (h, p) = (case last_index CHR '':'' hp of
            Some i \<Rightarrow> if valid_optional_port (drop i hp) then (take i hp, drop (Suc i) hp) else (hp, [])
          | None \<Rightarrow> (hp, []))
      in (if has_prefix h ''['' \<and> has_suffix h '']'' then butlast (tl h) else h, p))"

definition Hostname :: "url \<Rightarrow> string" where
  "Hostname u = fst (split_host_port_url (Host u))"

definition Port :: "url \<Rightarrow> string" where
  "Port u = snd (split_host_port_url (Host u))"

definition setPath :: "string \<Rightarrow> url \<Rightarrow> url option" where
  "setPath p u = map_option
     (\<lambda>path. u\<lparr>Path := path, RawPath := (if url_escape encodePath path = p then [] else p)\<rparr>)
     (unescape encodePath p)"

definition setFragment :: "string \<Rightarrow> url \<Rightarrow> url option" where
  "setFragment f u = map_option
     (\<lambda>frag. u\<lparr>Fragment := frag, RawFragment := (if url_escape encodeFragment frag = f then [] else f)\<rparr>)
     (unescape encodeFragment f)"

definition EscapedPath :: "url \<Rightarrow> string" where
  "EscapedPath u =
     (if RawPath u \<noteq> [] \<and> valid_encoded encodePath (RawPath u)
         \<and> unescape encodePath (RawPath u) = Some (Path u) then RawPath u
      else if Path u = ''*'' then ''*''
      else url_escape encodePath (Path u))"

definition EscapedFragment :: "url \<Rightarrow> string" where
  "EscapedFragment u =
     (if RawFragment u \<noteq> [] \<and> valid_encoded encodeFragment (RawFragment u)
         \<and> unescape encodeFragment (RawFragment u) = Some (Fragment u) then RawFragment u
      else url_escape encodeFragment (Fragment u))"

definition RequestURI :: "url \<Rightarrow> string" where
  "RequestURI u =
     (let result = (if Opaque u = [] then (if EscapedPath u = [] then ''/'' else EscapedPath u)
                    else if has_prefix (Opaque u) ''//'' then Scheme u @ '':'' @ Opaque u
                    else Opaque u)
      in if ForceQuery u \<or> RawQuery u \<noteq> [] then result @ ''?'' @ RawQuery u else result)"

subsection \<open>Parsing\<close>

text \<open>\<^verbatim>\<open>getScheme\<close>: scheme and rest, \<^term>\<open>None\<close> for a missing scheme before a colon.\<close>

fun get_scheme_aux :: "string \<Rightarrow> string \<Rightarrow> string \<Rightarrow> (string \<times> string) option" where
  "get_scheme_aux raw acc [] = Some ([], raw)"
| "get_scheme_aux raw acc (c # cs) =
     (if alpha c then get_scheme_aux raw (acc @ [c]) cs
      else if digit c \<or> c \<in> set ''+-.'' then
        (if acc = [] then Some ([], raw) else get_scheme_aux raw (acc @ [c]) cs)
      else if c = CHR '':'' then (if acc = [] then None else Some (acc, cs))
      else Some ([], raw))"

definition get_scheme :: "string \<Rightarrow> (string \<times> string) option" where
  "get_scheme raw = get_scheme_aux raw [] raw"

definition parse_host :: "string \<Rightarrow> string option" where
  "parse_host host =
     (if has_prefix host ''['' then
        (case last_index CHR '']'' host of
           None \<Rightarrow> None
         | Some i \<Rightarrow>
             if \<not> valid_optional_port (drop (Suc i) host) then None
             else case index_of (take i host) ''%25'' of
               Some z \<Rightarrow>
                 Option.bind (unescape encodeHost (take z host)) (\<lambda>h1.
                 Option.bind (unescape encodeZone (drop z (take i host))) (\<lambda>h2.
                 Option.bind (unescape encodeHost (drop i host)) (\<lambda>h3. Some (h1 @ h2 @ h3))))
             | None \<Rightarrow> unescape encodeHost host)
      else case last_index CHR '':'' host of
        Some i \<Rightarrow> if valid_optional_port (drop i host) then unescape encodeHost host else None
      | None \<Rightarrow> unescape encodeHost host)"

definition userinfo_char :: "char \<Rightarrow> bool" where
  "userinfo_char c \<longleftrightarrow> alnum c \<or> c \<in> set (''-._:~!$&()*+,;=%@'' @ [CHR 39])"

definition parse_userinfo :: "string \<Rightarrow> (string \<times> string option) option" where
  "parse_userinfo ui =
     (if \<not> list_all userinfo_char ui then None
      else if \<not> contains ui '':'' then map_option (\<lambda>u. (u, None)) (unescape encodeUserPassword ui)
      else let (u, p, _) = cut_at ui '':'' in
        Option.bind (unescape encodeUserPassword u) (\<lambda>u'.
        map_option (\<lambda>p'. (u', Some p')) (unescape encodeUserPassword p)))"

definition parse_authority :: "string \<Rightarrow> ((string \<times> string option) option \<times> string) option" where
  "parse_authority a =
     (case last_index CHR ''@'' a of
        None \<Rightarrow> map_option (\<lambda>h. (None, h)) (parse_host a)
      | Some i \<Rightarrow>
          Option.bind (parse_host (drop (Suc i) a)) (\<lambda>h.
          map_option (\<lambda>ui. (Some ui, h)) (parse_userinfo (take i a))))"

definition ctl_char :: "char \<Rightarrow> bool" where
  "ctl_char c \<longleftrightarrow> (of_char c :: nat) < 32 \<or> (of_char c :: nat) = 127"

text \<open>The query: a trailing lone question mark forces an empty one.\<close>

definition split_query :: "string \<Rightarrow> string \<times> bool \<times> string" where
  "split_query rest =
     (if has_suffix rest ''?'' \<and> length (filter (\<lambda>c. c = CHR ''?'') rest) = 1
      then (butlast rest, True, [])
      else let (p, q, _) = cut_at rest ''?'' in (p, False, q))"

text \<open>The part before the fragment.\<close>

definition parse_no_frag :: "string \<Rightarrow> url option" where
  "parse_no_frag raw =
     (if list_ex ctl_char raw then None
      else if raw = ''*'' then Some (empty_url\<lparr>Path := ''*''\<rparr>)
      else Option.bind (get_scheme raw) (\<lambda>(scheme, rest0).
        let (rest, force, query) = split_query rest0;
            u = empty_url\<lparr>Scheme := to_lower scheme, ForceQuery := force, RawQuery := query\<rparr> in
        if \<not> has_prefix rest ''/'' \<and> Scheme u \<noteq> [] then Some (u\<lparr>Opaque := rest\<rparr>)
        else if \<not> has_prefix rest ''/'' \<and> contains (fst (cut_at rest ''/'')) '':'' then None
        else if (Scheme u \<noteq> [] \<or> \<not> has_prefix rest ''///'') \<and> has_prefix rest ''//'' then
          (let a = drop 2 rest;
               (auth, path) = (case index_of a ''/'' of Some i \<Rightarrow> (take i a, drop i a) | None \<Rightarrow> (a, [])) in
           Option.bind (parse_authority auth) (\<lambda>(ui, h). setPath path (u\<lparr>User := ui, Host := h\<rparr>)))
        else setPath rest (if Scheme u \<noteq> [] \<and> has_prefix rest ''/'' then u\<lparr>OmitHost := True\<rparr> else u)))"

text \<open>\<^verbatim>\<open>url.Parse\<close>; its error is a text naming the input.\<close>

definition url_parse :: "string \<Rightarrow> go_error + url" where
  "url_parse raw =
     (let (r, frag, _) = cut_at raw ''#'' in
      case Option.bind (parse_no_frag r) (\<lambda>u. if frag = [] then Some u else setFragment frag u) of
        Some u \<Rightarrow> Inr u
      | None \<Rightarrow> Inl (Errorf (''parse '' @ go_quote raw)))"

subsection \<open>References\<close>

fun resolve_elems :: "string list \<Rightarrow> bool \<Rightarrow> string \<Rightarrow> string" where
  "resolve_elems [] first dst = dst"
| "resolve_elems (e # es) first dst =
     (if e = ''.'' then resolve_elems es False dst
      else if e = ''..'' then
        (case last_index CHR ''/'' (tl dst) of
           None \<Rightarrow> resolve_elems es True ''/''
         | Some i \<Rightarrow> resolve_elems es first (CHR ''/'' # take i (tl dst)))
      else resolve_elems es False (dst @ (if first then [] else ''/'') @ e))"

definition resolvePath :: "string \<Rightarrow> string \<Rightarrow> string" where
  "resolvePath base ref =
     (let full = (if ref = [] then base
                  else if hd ref \<noteq> CHR ''/'' then
                    (case last_index CHR ''/'' base of Some i \<Rightarrow> take (Suc i) base @ ref | None \<Rightarrow> ref)
                  else ref) in
      if full = [] then []
      else
        let elems = split_on ''/'' full;
            r0 = resolve_elems elems True ''/'';
            r = (if last elems = ''.'' \<or> last elems = ''..'' then r0 @ ''/'' else r0)
        in if has_prefix r ''//'' then tl r else r)"

definition set_path_total :: "string \<Rightarrow> url \<Rightarrow> url" where
  "set_path_total p u = (case setPath p u of Some u' \<Rightarrow> u' | None \<Rightarrow> u)"

definition ResolveReference :: "url \<Rightarrow> url \<Rightarrow> url" where
  "ResolveReference u ref =
     (let v = (if Scheme ref = [] then ref\<lparr>Scheme := Scheme u\<rparr> else ref) in
      if Scheme ref \<noteq> [] \<or> Host ref \<noteq> [] \<or> User ref \<noteq> None then
        set_path_total (resolvePath (EscapedPath ref) []) v
      else if Opaque ref \<noteq> [] then v\<lparr>User := None, Host := [], Path := []\<rparr>
      else
        let v1 = (if Path ref = [] \<and> \<not> ForceQuery ref \<and> RawQuery ref = [] then
                    (let w = v\<lparr>RawQuery := RawQuery u\<rparr> in
                     if Fragment ref = [] then w\<lparr>Fragment := Fragment u, RawFragment := RawFragment u\<rparr> else w)
                  else v) in
        if Path ref = [] \<and> Opaque u \<noteq> [] then
          v1\<lparr>Opaque := Opaque u, User := None, Host := [], Path := []\<rparr>
        else
          set_path_total (resolvePath (EscapedPath u) (EscapedPath ref)) (v1\<lparr>Host := Host u, User := User u\<rparr>))"

definition userinfo_string :: "string \<times> string option \<Rightarrow> string" where
  "userinfo_string ui = url_escape encodeUserPassword (fst ui)
     @ (case snd ui of None \<Rightarrow> [] | Some p \<Rightarrow> '':'' @ url_escape encodeUserPassword p)"

text \<open>\<^verbatim>\<open>URL.String\<close>.\<close>

definition url_string :: "url \<Rightarrow> string" where
  "url_string u =
     (let scheme = (if Scheme u \<noteq> [] then Scheme u @ '':'' else []);
          body = (if Opaque u \<noteq> [] then Opaque u
            else
              let auth =
                    (if (Scheme u \<noteq> [] \<or> Host u \<noteq> [] \<or> User u \<noteq> None)
                        \<and> \<not> (OmitHost u \<and> Host u = [] \<and> User u = None) then
                       (if Host u \<noteq> [] \<or> Path u \<noteq> [] \<or> User u \<noteq> None then ''//'' else [])
                       @ (case User u of None \<Rightarrow> [] | Some ui \<Rightarrow> userinfo_string ui @ ''@'')
                       @ url_escape encodeHost (Host u)
                     else []);
                  path = EscapedPath u;
                  slash = (if path \<noteq> [] \<and> hd path \<noteq> CHR ''/'' \<and> Host u \<noteq> [] then ''/'' else []);
                  dot = (if scheme @ auth @ slash = [] \<and> contains (fst (cut_at path ''/'')) '':''
                         then ''./'' else [])
              in auth @ slash @ dot @ path)
      in scheme @ body
         @ (if ForceQuery u \<or> RawQuery u \<noteq> [] then ''?'' @ RawQuery u else [])
         @ (if Fragment u \<noteq> [] then ''#'' @ EscapedFragment u else []))"

subsection \<open>Addresses\<close>

text \<open>
  \<^verbatim>\<open>net.ParseIP\<close> followed by \<^verbatim>\<open>To4\<close>: the four bytes of a dotted address, also when it is
  embedded in an IPv4-mapped IPv6 address; \<^term>\<open>None\<close> for anything else.
\<close>

definition ip4_field :: "string \<Rightarrow> byte option" where
  "ip4_field s =
     (if s = [] \<or> \<not> list_all digit s \<or> (hd s = CHR ''0'' \<and> s \<noteq> ''0'') then None
      else case parse_digits 10 0 s of
        Some n \<Rightarrow> if n \<le> 255 then Some (word_of_nat n) else None
      | None \<Rightarrow> None)"

definition parse_ip4 :: "string \<Rightarrow> byte list option" where
  "parse_ip4 s = (let fs = map ip4_field (split_on ''.'' s) in
     if length fs = 4 \<and> None \<notin> set fs then Some (map the fs) else None)"

text \<open>The fields of an IPv6 address: bytes so far, position of the ellipsis.\<close>

function parse_ip6_loop :: "byte list \<Rightarrow> nat option \<Rightarrow> string \<Rightarrow> (byte list \<times> nat option) option" where
  "parse_ip6_loop acc ell s =
     (if 16 \<le> length acc then (if s = [] then Some (acc, ell) else None)
      else
        let ds = takeWhile (\<lambda>c. hex_value c \<noteq> None) s; rest = drop (length ds) s in
        if ds = [] \<or> 4 < length ds then None
        else if rest \<noteq> [] \<and> hd rest = CHR ''.'' then
          (if (ell = None \<and> length acc \<noteq> 12) \<or> 16 < length acc + 4 then None
           else map_option (\<lambda>q. (acc @ q, ell)) (parse_ip4 s))
        else case parse_digits 16 0 ds of
          None \<Rightarrow> None
        | Some v \<Rightarrow>
            let acc' = acc @ [word_of_nat (v div 256), word_of_nat (v mod 256)] in
            if rest = [] then Some (acc', ell)
            else if hd rest \<noteq> CHR '':'' \<or> length rest = 1 then None
            else if rest ! 1 = CHR '':'' then
              (if ell \<noteq> None then None
               else if length rest = 2 then Some (acc', Some (length acc'))
               else parse_ip6_loop acc' (Some (length acc')) (drop 2 rest))
            else parse_ip6_loop acc' ell (drop 1 rest))"
  by pat_completeness auto
termination
  by (relation "measure (\<lambda>(acc, ell, s). 16 - length acc)") auto

declare parse_ip6_loop.simps [simp del]

definition parse_ip6 :: "string \<Rightarrow> byte list option" where
  "parse_ip6 s =
     (if CHR ''%'' \<in> set s then None
      else if s = ''::'' then Some (replicate 16 0)
      else
        case (if has_prefix s ''::'' then parse_ip6_loop [] (Some 0) (drop 2 s) else parse_ip6_loop [] None s) of
          None \<Rightarrow> None
        | Some (bs, ell) \<Rightarrow>
            if length bs < 16 then
              (case ell of None \<Rightarrow> None
               | Some i \<Rightarrow> Some (take i bs @ replicate (16 - length bs) 0 @ drop i bs))
            else (if ell = None then Some bs else None))"

definition parse_ip_to4 :: "string \<Rightarrow> byte list option" where
  "parse_ip_to4 s =
     (case find (\<lambda>c. c \<in> set ''.:%'') s of
        Some c \<Rightarrow>
          if c = CHR ''.'' then parse_ip4 s
          else if c = CHR '':'' then
            (case parse_ip6 s of
               Some bs \<Rightarrow> if take 12 bs = replicate 10 0 @ [0xFF, 0xFF] then Some (drop 12 bs) else None
             | None \<Rightarrow> None)
          else None
      | None \<Rightarrow> None)"

text \<open>\<^verbatim>\<open>net.SplitHostPort\<close> succeeds.\<close>

definition split_host_port :: "string \<Rightarrow> (string \<times> string) option" where
  "split_host_port hp =
     (case last_index CHR '':'' hp of
        None \<Rightarrow> None
      | Some i \<Rightarrow>
          if has_prefix hp ''['' then
            (case index_of hp '']'' of
               None \<Rightarrow> None
             | Some j \<Rightarrow>
                 if Suc j \<noteq> i then None
                 else if CHR ''['' \<in> set (drop 1 hp) \<or> CHR '']'' \<in> set (drop (Suc j) hp) then None
                 else Some (drop 1 (take j hp), drop (Suc i) hp))
          else if CHR '':'' \<in> set (take i hp) then None
          else if CHR ''['' \<in> set hp \<or> CHR '']'' \<in> set hp then None
          else Some (take i hp, drop (Suc i) hp))"

subsection \<open>Texts without special characters\<close>

definition graphic :: "char \<Rightarrow> bool" where
  "graphic c \<longleftrightarrow> 32 < (of_char c :: nat) \<and> (of_char c :: nat) < 127"

lemma spaces_not_graphic: "w \<in> set spaces \<Longrightarrow> \<not> graphic (hd w) \<and> \<not> graphic (last w)"
  by (auto simp: spaces_def graphic_def)

lemma trim_space_graphic:
  assumes "list_all graphic s"
  shows "trim_space s = s"
proof (rule trim_space_id)
  have "graphic (hd w)" if "prefix w s" "w \<noteq> []" for w
    using that assms by (auto simp: prefix_def list_all_iff)
  then show "space_len s = 0"
    using spaces_not_graphic spaces_ne by (auto simp: space_len_eq_0)
  have "graphic (last w)" if "suffix w s" "w \<noteq> []" for w
    using that assms by (auto simp: suffix_def list_all_iff)
  then show "space_len_end s = 0"
    using spaces_not_graphic spaces_ne by (auto simp: space_len_end_eq_0)
qed

lemma graphic_no_ctl: "list_all graphic s \<Longrightarrow> \<not> list_ex ctl_char s"
  by (auto simp: list_all_iff list_ex_iff graphic_def ctl_char_def)

lemma unescape_plain:
  assumes "CHR ''%'' \<notin> set s"
    and "mode = encodeHost \<or> mode = encodeZone \<Longrightarrow> list_all (\<lambda>c. \<not> should_escape mode c) s"
  shows "unescape mode s = Some s"
  using assms by (induction s) auto

lemma last_index_notin: "c \<notin> set s \<Longrightarrow> last_index c s = None"
  by (induction s) auto

lemma last_index_append: "c \<notin> set ys \<Longrightarrow> last_index c (xs @ c # ys) = Some (length xs)"
  by (induction xs) (simp_all add: last_index_notin)

lemma index_of_notin: "c \<notin> set s \<Longrightarrow> index_of s [c] = None"
  by (induction s) auto

lemma index_of_char: "c \<notin> set xs \<Longrightarrow> index_of (xs @ c # ys) [c] = Some (length xs)"
  by (induction xs) auto

lemma cut_at_notin: "c \<notin> set s \<Longrightarrow> cut_at s [c] = (s, [], False)"
  by (simp add: cut_at_def index_of_notin)

lemma cut_at_char: "c \<notin> set xs \<Longrightarrow> cut_at (xs @ c # ys) [c] = (xs, ys, True)"
  by (simp add: cut_at_def index_of_char)

lemma contains_char: "contains s [c] \<longleftrightarrow> c \<in> set s"
  by (metis contains_def cut_at_char index_of_char index_of_notin option.distinct(1) split_list_first)

lemma get_scheme_aux_word:
  assumes "list_all alnum t" and "acc \<noteq> [] \<or> (t \<noteq> [] \<and> alpha (hd t))"
  shows "get_scheme_aux raw acc (t @ '':'' @ rest) = Some (acc @ t, rest)"
  using assms
proof (induction t arbitrary: acc)
  case Nil
  then show ?case by (simp add: alpha_def digit_def)
next
  case (Cons c t)
  have "alnum c \<Longrightarrow> alpha c \<or> digit c" by (auto simp: alnum_def alpha_def digit_def Let_def)
  with Cons show ?case by auto
qed

lemma get_scheme_word:
  "list_all alnum t \<Longrightarrow> t \<noteq> [] \<Longrightarrow> alpha (hd t) \<Longrightarrow> get_scheme (t @ '':'' @ rest) = Some (t, rest)"
  unfolding get_scheme_def by (subst get_scheme_aux_word) simp_all

lemma split_query_none: "CHR ''?'' \<notin> set s \<Longrightarrow> split_query s = (s, False, [])"
  by (auto simp: split_query_def cut_at_notin suffix_def)

lemma digit_alnum: "digit c \<Longrightarrow> alnum c"
  by (auto simp: digit_def alnum_def Let_def)

lemma alnum_graphic: "alnum c \<Longrightarrow> graphic c"
  by (auto simp: alnum_def graphic_def Let_def)

lemma not_alnum_special:
  "\<not> alnum CHR '':''" "\<not> alnum CHR ''/''" "\<not> alnum CHR ''@''" "\<not> alnum CHR ''?''"
  "\<not> alnum CHR ''#''" "\<not> alnum CHR ''%''" "\<not> alnum CHR ''[''" "\<not> alnum CHR '']''"
  "\<not> digit CHR '':''" "\<not> digit CHR ''/''" "\<not> digit CHR ''@''" "\<not> digit CHR ''?''"
  "\<not> digit CHR ''#''" "\<not> digit CHR ''%''" "\<not> digit CHR ''[''" "\<not> digit CHR '']''"
  by (simp_all add: alnum_def digit_def)

lemma digits_show_nat: "list_all digit (show_nat n)"
proof (induction n rule: show_nat.induct)
  case (1 n)
  have "digit (digit_char d)" if "d < 10" for d
    using that by (simp add: digit_def of_char_digit_char)
  with 1 show ?case by (subst show_nat.simps) simp
qed

text \<open>A URL that is a scheme and an authority.\<close>

lemma url_parse_authority_only:
  assumes t: "list_all alnum t" "t \<noteq> []" "alpha (hd t)"
    and a: "list_all graphic a" "CHR ''/'' \<notin> set a" "CHR ''?'' \<notin> set a" "CHR ''#'' \<notin> set a"
    and pa: "parse_authority a = Some (ui, h)"
  shows "url_parse (t @ ''://'' @ a) = Inr (empty_url\<lparr>Scheme := to_lower t, User := ui, Host := h\<rparr>)"
proof -
  have tg: "list_all graphic t" using t(1) alnum_graphic by (auto simp: list_all_iff)
  have g: "list_all graphic (t @ ''://'' @ a)"
    using tg a(1) by (simp add: graphic_def)
  have nohash: "CHR ''#'' \<notin> set (t @ ''://'' @ a)"
    using t(1) a(4) not_alnum_special(5) by (auto simp: list_all_iff)
  have gs: "get_scheme (t @ ''://'' @ a) = Some (t, ''//'' @ a)"
    using get_scheme_word [OF t, of "''//'' @ a"] by simp
  have tl: "to_lower t \<noteq> []" using t(2) unfolding to_lower_def by (cases t) (auto split: option.split)
  have "t @ ''://'' @ a \<noteq> ''*''" using t(2) by (cases t) auto
  moreover have "split_query (''//'' @ a) = (''//'' @ a, False, [])"
    using a(3) by (intro split_query_none) simp
  moreover have "index_of a ''/'' = None" using a(2) by (rule index_of_notin)
  ultimately have "parse_no_frag (t @ ''://'' @ a) = Some (empty_url\<lparr>Scheme := to_lower t, User := ui, Host := h\<rparr>)"
    using graphic_no_ctl [OF g] gs tl pa
    by (simp add: parse_no_frag_def Let_def setPath_def url_escape_def) (simp add: empty_url_def)
  then show ?thesis
    using cut_at_notin [OF nohash] by (simp add: url_parse_def)
qed

subsection \<open>Plain hosts with a port\<close>

text \<open>Names, dotted addresses and IPv6 addresses without a zone.\<close>

definition host_char :: "char \<Rightarrow> bool" where
  "host_char c \<longleftrightarrow> alnum c \<or> c \<in> set ''-._~:''"

lemma host_char_plain:
  assumes "host_char c"
  shows "graphic c" "\<not> should_escape encodeHost c" "c \<notin> set ''/@?#%[]''"
  using assms not_alnum_special
  by (auto simp: host_char_def should_escape_def graphic_def dest: alnum_graphic)

lemma digit_plain:
  assumes "digit c"
  shows "graphic c" "\<not> should_escape encodeHost c" "c \<notin> set ''/@?#%[]:''"
  using assms not_alnum_special
  by (auto simp: should_escape_def dest: alnum_graphic digit_alnum)

lemma should_escape_host_special: "\<not> should_escape encodeHost CHR '':''" "\<not> should_escape encodeHost CHR ''[''"
  "\<not> should_escape encodeHost CHR '']''"
  by (simp_all add: should_escape_def)

lemma join_host_port_chars:
  assumes "list_all host_char h" and "list_all digit p" and "c \<in> set (join_host_port h p)"
  shows "graphic c \<and> \<not> should_escape encodeHost c \<and> c \<notin> set ''/@?#%''"
proof -
  have "c \<in> set h \<or> c \<in> set p \<or> c = CHR '':'' \<or> c = CHR ''['' \<or> c = CHR '']''"
    using assms(3) by (auto simp: join_host_port_def split: if_splits)
  then consider "host_char c" | "digit c" | "c \<in> {CHR '':'', CHR ''['', CHR '']''}"
    using assms(1,2) by (auto simp: list_all_iff)
  then show ?thesis
  proof cases
    case 1
    with host_char_plain [of c] show ?thesis by simp
  next
    case 2
    with digit_plain [of c] show ?thesis by simp
  next
    case 3
    with should_escape_host_special show ?thesis by (auto simp: graphic_def)
  qed
qed

lemma join_host_port_last_colon:
  "list_all digit p \<Longrightarrow> last_index CHR '':'' (join_host_port h p)
     = Some (length (if CHR '':'' \<in> set h then ''['' @ h @ '']'' else h))"
proof -
  assume "list_all digit p"
  then have "CHR '':'' \<notin> set p" using not_alnum_special by (auto simp: list_all_iff)
  from last_index_append [OF this, of "if CHR '':'' \<in> set h then ''['' @ h @ '']'' else h"]
  show ?thesis by (simp add: join_host_port_def del: last_index.simps split: if_splits)
qed

lemma parse_host_join:
  assumes h: "list_all host_char h" and p: "list_all digit p"
  shows "parse_host (join_host_port h p) = Some (join_host_port h p)"
proof -
  have un: "unescape encodeHost (join_host_port h p) = Some (join_host_port h p)"
    using join_host_port_chars [OF h p] by (intro unescape_plain) (auto simp: list_all_iff)
  have nb: "\<not> has_prefix h ''[''" using h host_char_plain(3) by (cases h) auto
  show ?thesis
  proof (cases "CHR '':'' \<in> set h")
    case True
    have "CHR '']'' \<notin> set ('':'' @ p)" using p not_alnum_special by (auto simp: list_all_iff)
    then have last: "last_index CHR '']'' (join_host_port h p) = Some (Suc (length h))"
      using last_index_append [of "CHR '']''" "'':'' @ p" "''['' @ h"] True by (simp add: join_host_port_def)
    have "CHR ''%'' \<notin> set (CHR ''['' # h)" using h host_char_plain(3) by (fastforce simp: list_all_iff)
    then have "\<not> contains (CHR ''['' # h) ''%25''"
      unfolding contains_iff_sublist by (auto dest: set_mono_sublist)
    then have "index_of (take (Suc (length h)) (join_host_port h p)) ''%25'' = None"
      using True by (simp add: join_host_port_def contains_def)
    then show ?thesis
      using True un last p by (simp add: parse_host_def join_host_port_def valid_optional_port_def)
  next
    case False
    then have "\<not> has_prefix (join_host_port h p) ''[''" using nb by (cases h) (auto simp: join_host_port_def)
    then show ?thesis
      using False un p join_host_port_last_colon [OF p, of h]
      by (simp add: parse_host_def valid_optional_port_def join_host_port_def)
  qed
qed

lemma split_host_port_url_join:
  assumes h: "list_all host_char h" and p: "list_all digit p"
  shows "split_host_port_url (join_host_port h p) = (h, p)"
proof -
  have nb: "\<not> has_prefix h ''[''" using h host_char_plain(3) by (cases h) auto
  have "has_suffix (''['' @ h @ '']'') '']''" by (metis append.assoc suffix_def)
  with join_host_port_last_colon [OF p, of h] p nb show ?thesis
    by (auto simp: split_host_port_url_def join_host_port_def valid_optional_port_def butlast_append
        simp del: last_index.simps)
qed

lemma split_host_port_join:
  assumes h: "list_all host_char h" and p: "list_all digit p"
  shows "split_host_port (join_host_port h p) = Some (h, p)"
proof -
  have nh: "CHR ''['' \<notin> set h" "CHR '']'' \<notin> set h" "CHR ''['' \<notin> set p" "CHR '']'' \<notin> set p"
    using h p host_char_plain(3) digit_plain(3) by (fastforce simp: list_all_iff)+
  then have nb: "\<not> has_prefix h ''[''" by (cases h) auto
  have "index_of (CHR ''['' # h @ CHR '']'' # '':'' @ p) '']'' = Some (Suc (length h))"
    using index_of_char [of "CHR '']''" "CHR ''['' # h"] nh by simp
  then show ?thesis
    using join_host_port_last_colon [OF p, of h] nh nb
    by (auto simp: split_host_port_def join_host_port_def simp del: last_index.simps index_of.simps)
      (cases h; simp)
qed

end
