(* ===== verification/Http_Message.thy ===== *)
theory Http_Message
  imports Bufio Go_Url
begin

text \<open>
  HTTP messages as \<^verbatim>\<open>network/http_client.go\<close> writes and reads them: header maps, the raw
  request, status lines and header blocks read from a \<^verbatim>\<open>bufio.Reader\<close>. A
  \<^verbatim>\<open>map[string]string\<close> is an association list with distinct keys. Go walks a map in an order that differs
  from one \<^verbatim>\<open>range\<close> to the next: where the result can depend on it, the order is an argument (\<open>range_order\<close>),
  and the list of the caller's headers stands for the order in which the one loop over it visits them.
\<close>

type_synonym headers = "(string \<times> string) list"

definition defaultHTTPUserAgent :: string where
  "defaultHTTPUserAgent = ''DesKaOne/0.0.1''"

subsection \<open>Header maps\<close>

definition hasHeader :: "headers \<Rightarrow> string \<Rightarrow> bool" where
  "hasHeader hs key \<longleftrightarrow> list_ex (\<lambda>(k, _). equal_fold (trim_space k) key) hs"

text \<open>\<open>ord key hs\<close>: the entries of \<open>hs\<close> in the order in which the lookup of \<open>key\<close> visits them.\<close>

type_synonym range_order = "string \<Rightarrow> headers \<Rightarrow> headers"

definition getHeader :: "range_order \<Rightarrow> headers \<Rightarrow> string \<Rightarrow> string" where
  "getHeader ord hs key =
     (case List.find (\<lambda>(k, _). equal_fold (trim_space k) key) (ord key hs) of Some (_, v) \<Rightarrow> v | None \<Rightarrow> [])"

text \<open>A \<^verbatim>\<open>range\<close> visits every entry of the map and nothing else.\<close>

definition visits_all :: "range_order \<Rightarrow> bool" where
  "visits_all ord \<longleftrightarrow> (\<forall>key hs. set (ord key hs) = set hs)"

text \<open>No two names are equal up to case: then there is one value for a name, in whatever order it is searched.\<close>

definition distinct_names :: "headers \<Rightarrow> bool" where
  "distinct_names hs \<longleftrightarrow> distinct (map (\<lambda>(k, _). case_fold (trim_space k)) hs)"

definition field_value :: "headers \<Rightarrow> string \<Rightarrow> string" where
  "field_value hs key = (case map_of (map (\<lambda>(k, v). (case_fold (trim_space k), v)) hs) (case_fold key) of
      Some v \<Rightarrow> v | None \<Rightarrow> [])"

lemma getHeader_field_value:
  assumes "visits_all ord" and "distinct_names hs"
  shows "getHeader ord hs key = field_value hs key"
proof -
  let ?p = "\<lambda>(k, v). equal_fold (trim_space k) key" and ?f = "\<lambda>(k, v). (case_fold (trim_space k), v)"
  have ord: "set (ord key hs) = set hs" using assms(1) by (simp add: visits_all_def)
  have dist: "distinct (map fst (map ?f hs))"
    using assms(2) by (simp add: distinct_names_def comp_def case_prod_unfold)
  show ?thesis
  proof (cases "List.find ?p (ord key hs)")
    case None
    then have "case_fold key \<notin> fst ` set (map ?f hs)"
      unfolding find_None_iff ord by (auto simp: equal_fold_def)
    then have "map_of (map ?f hs) (case_fold key) = None" by (simp only: map_of_eq_None_iff not_False_eq_True)
    with None show ?thesis by (simp add: getHeader_def field_value_def)
  next
    case (Some kv)
    then have "kv \<in> set hs" "?p kv" using ord nth_mem by (fastforce simp: find_Some_iff)+
    then have "(case_fold key, snd kv) \<in> set (map ?f hs)" by (force simp: equal_fold_def case_prod_unfold)
    with dist have "map_of (map ?f hs) (case_fold key) = Some (snd kv)" by (simp only: map_of_eq_Some_iff)
    with Some show ?thesis by (simp add: getHeader_def field_value_def case_prod_unfold)
  qed
qed

lemma distinct_names_keys: "distinct_names hs \<Longrightarrow> distinct (map fst hs)"
  unfolding distinct_names_def by (metis (mono_tags, lifting) case_prod_unfold distinct_map map_map comp_def map_cong)

definition removeHeader :: "headers \<Rightarrow> string \<Rightarrow> headers" where
  "removeHeader hs key = filter (\<lambda>(k, _). \<not> equal_fold (trim_space k) key) hs"

text \<open>\<^verbatim>\<open>headers[key] = ...\<close>: joined with the old value, or a new entry.\<close>

fun add_header :: "string \<Rightarrow> string \<Rightarrow> headers \<Rightarrow> headers" where
  "add_header key v [] = [(key, v)]"
| "add_header key v ((k, old) # hs) =
     (if k = key then (k, old @ '', '' @ v) # hs else (k, old) # add_header key v hs)"

definition header_line :: "string \<Rightarrow> string \<Rightarrow> string" where
  "header_line key v = key @ '': '' @ v @ crlf"

definition writeHeaderIfMissing :: "headers \<Rightarrow> string \<Rightarrow> string \<Rightarrow> string" where
  "writeHeaderIfMissing hs key v = (if hasHeader hs key then [] else header_line key v)"

text \<open>The loop that writes the caller's headers.\<close>

definition write_headers :: "headers \<Rightarrow> string" where
  "write_headers hs = concat (map (\<lambda>(k, v).
     if trim_space k = [] then [] else header_line (trim_space k) (trim_space v)) hs)"

definition buildRawHTTPRequest ::
    "string \<Rightarrow> url \<Rightarrow> headers \<Rightarrow> byte list \<Rightarrow> string \<Rightarrow> bool \<Rightarrow> byte list" where
  "buildRawHTTPRequest mthd u hs body userAgent0 autoDecompress =
     (let path = (if RequestURI u = [] then ''/'' else RequestURI u);
          hostHeader = (if Host u = [] then Hostname u else Host u);
          userAgent = (if userAgent0 = [] then defaultHTTPUserAgent else userAgent0)
      in bytes_of (mthd @ '' '' @ path @ '' HTTP/1.1'' @ crlf
           @ writeHeaderIfMissing hs ''Host'' hostHeader
           @ writeHeaderIfMissing hs ''User-Agent'' userAgent
           @ writeHeaderIfMissing hs ''Accept'' ''*/*''
           @ writeHeaderIfMissing hs ''Connection'' ''close''
           @ (if autoDecompress then writeHeaderIfMissing hs ''Accept-Encoding'' ''gzip, deflate'' else [])
           @ (if body \<noteq> [] then writeHeaderIfMissing hs ''Content-Length'' (show_nat (length body)) else [])
           @ write_headers hs @ crlf)
         @ body)"

subsection \<open>Reading\<close>

definition readHTTPLine :: "(bufio, string) io" where
  "readHTTPLine = (\<lambda>b. case read_string b of
      ((line, None), b') \<Rightarrow> (Inr (trim_right_set crlf (string_of line)), b')
    | ((_, Some e), b') \<Rightarrow> (Inl e, b'))"

definition parseHTTPStatusCode :: "string \<Rightarrow> go_error + int" where
  "parseHTTPStatusCode statusLine =
     (let parts = Go_Strings.fields statusLine in
      if length parts < 2 then Inl (Errorf (''invalid HTTP status line: '' @ go_quote statusLine))
      else case atoi (parts ! 1) of
        None \<Rightarrow> Inl (Errorf (''invalid HTTP status code: '' @ go_quote (parts ! 1)))
      | Some code \<Rightarrow> Inr code)"

lemma read_string_loop_measure:
  "read_string_loop acc b = ((l, None), b') \<Longrightarrow> bufio_measure b' < bufio_measure b"
proof (induction acc b rule: read_string_loop.induct)
  case (1 acc b)
  show ?case
  proof (cases "nl \<in> set (bbuf b)")
    case True
    have "length (dropWhile (\<lambda>x. x \<noteq> nl) (bbuf b)) \<le> length (bbuf b)" by (rule length_dropWhile_le)
    moreover have "dropWhile (\<lambda>x. x \<noteq> nl) (bbuf b) \<noteq> []" using True by (auto simp: dropWhile_eq_Nil_conv)
    moreover have "b' = b\<lparr>bbuf := tl (dropWhile (\<lambda>x. x \<noteq> nl) (bbuf b))\<rparr>"
      using "1.prems" True by (subst (asm) read_string_loop.simps) auto
    ultimately show ?thesis
      by (cases "dropWhile (\<lambda>x. x \<noteq> nl) (bbuf b)") (simp_all add: bufio_measure_def)
  next
    case nonl: False
    show ?thesis
    proof (cases "berr b")
      case (Some e)
      with nonl "1.prems" show ?thesis by (subst (asm) read_string_loop.simps) simp
    next
      case None
      show ?thesis
      proof (cases "bufio_size \<le> length (bbuf b)")
        case True
        have "read_string_loop (acc @ bbuf b) (b\<lparr>bbuf := []\<rparr>) = ((l, None), b')"
          using "1.prems" nonl None True by (subst (asm) read_string_loop.simps) simp
        with "1.IH"(1) [OF nonl None True] have "bufio_measure b' < bufio_measure (b\<lparr>bbuf := []\<rparr>)" by blast
        then show ?thesis by (simp add: bufio_measure_def)
      next
        case False
        have "read_string_loop acc (bufio_fill 100 b) = ((l, None), b')"
          using "1.prems" nonl None False by (subst (asm) read_string_loop.simps) simp
        with "1.IH"(2) [OF nonl None False] bufio_fill_measure [of b 100] None False show ?thesis by simp
      qed
    qed
  qed
qed

lemma readHTTPLine_measure: "readHTTPLine b = (Inr line, b') \<Longrightarrow> bufio_measure b' < bufio_measure b"
  by (auto simp: readHTTPLine_def read_string_def split: prod.splits option.splits
      intro: read_string_loop_measure)

function readHTTPHeaders_loop :: "headers \<Rightarrow> (bufio, headers) io" where
  "readHTTPHeaders_loop hs b =
     (case readHTTPLine b of
        (Inl err, b') \<Rightarrow> (Inl err, b')
      | (Inr line, b') \<Rightarrow>
          if line = [] then (Inr hs, b')
          else (case index_of line '':'' of
                  Some (Suc i) \<Rightarrow>
                    readHTTPHeaders_loop
                      (add_header (trim_space (take (Suc i) line)) (trim_space (drop (Suc i + 1) line)) hs) b'
                | _ \<Rightarrow> readHTTPHeaders_loop hs b'))"
  by pat_completeness auto
termination
  by (relation "measure (bufio_measure \<circ> snd)") (auto intro: readHTTPLine_measure [OF sym])

declare readHTTPHeaders_loop.simps [simp del]

definition readHTTPHeaders :: "(bufio, headers) io" where
  "readHTTPHeaders = readHTTPHeaders_loop []"

subsection \<open>Reading what was written\<close>

lemma byte_of_nl: "byte_of c = nl \<longleftrightarrow> c = CHR 10"
proof -
  have "byte_of CHR 10 = nl" by (simp add: byte_of_def nl_def)
  then show ?thesis by (metis byte_of_inject)
qed

lemma nl_in_bytes: "nl \<in> set (bytes_of s) \<longleftrightarrow> CHR 10 \<in> set s"
  by (metis byte_of_nl image_iff list.set_map)

text \<open>A line ends at its line feed; the carriage return before it goes with it.\<close>

definition clean_line :: "string \<Rightarrow> bool" where
  "clean_line l \<longleftrightarrow> CHR 10 \<notin> set l \<and> (l = [] \<or> last l \<noteq> CHR 13)"

lemma trim_right_line: "clean_line l \<Longrightarrow> trim_right_set crlf (l @ crlf) = l"
  by (cases l rule: rev_cases) (auto simp: trim_right_set_def clean_line_def)

lemma readHTTPLine_line:
  assumes "bufio_regular b" and "bufio_stream b = (bytes_of (l @ crlf) @ rest, e)" and "clean_line l"
  shows "\<exists>b'. readHTTPLine b = (Inr l, b') \<and> bufio_regular b' \<and> bufio_stream b' = (rest, e)"
proof -
  have "nl \<notin> set (bytes_of (l @ [CHR 13]))"
    using assms(3) by (simp only: nl_in_bytes) (simp add: clean_line_def)
  moreover have "bufio_stream b = (bytes_of (l @ [CHR 13]) @ nl # rest, e)"
    using assms(2) byte_of_nl [of "CHR 10", simplified] by simp
  ultimately obtain b' where b': "read_string b = ((bytes_of (l @ [CHR 13]) @ [nl], None), b')"
    "bufio_regular b'" "bufio_stream b' = (rest, e)"
    using read_string_line [OF assms(1)] by blast
  have "bytes_of (l @ [CHR 13]) @ [nl] = bytes_of (l @ crlf)" using byte_of_nl [of "CHR 10", simplified] by simp
  then have "readHTTPLine b = (Inr (trim_right_set crlf (l @ crlf)), b')"
    using b'(1) by (simp only: readHTTPLine_def prod.case option.case string_of_bytes_of)
  with b' trim_right_line [OF assms(3)] show ?thesis by simp
qed

lemma readHTTPLine_no_line:
  assumes "bufio_regular b" and "nl \<notin> set (fst (bufio_stream b))"
  shows "\<exists>b'. readHTTPLine b = (Inl (snd (bufio_stream b)), b')"
  using read_string_no_line [OF assms] by (auto simp: readHTTPLine_def)

text \<open>Header fields as the client means to send them.\<close>

definition clean_field :: "string \<times> string \<Rightarrow> bool" where
  "clean_field kv \<longleftrightarrow> (case kv of (k, v) \<Rightarrow> k \<noteq> [] \<and> trim_space k = k \<and> trim_space v = v
     \<and> CHR '':'' \<notin> set k \<and> CHR 10 \<notin> set k \<and> CHR 10 \<notin> set v)"

lemma trim_space_blank: "trim_space (CHR '' '' # v) = trim_space v"
proof -
  have "space_len (CHR '' '' # v) = 1" by (simp add: space_len_def spaces_def)
  then show ?thesis by (simp add: trim_space_def trim_left_space.simps [of "CHR '' '' # v"])
qed

lemma trimmed_last:
  assumes "trim_space v = v" and "v \<noteq> []"
  shows "last v \<noteq> CHR 13"
proof
  assume "last v = CHR 13"
  then have "suffix [CHR 13] v" using assms(2) by (metis append_butlast_last_id suffixI)
  moreover have "[CHR 13] \<in> set spaces" by (simp add: spaces_def)
  ultimately show False using trim_space_clean(2) [of v] assms(1) by (auto simp: space_len_end_eq_0)
qed

lemma clean_field_line:
  assumes "clean_field (k, v)"
  shows "clean_line (k @ '': '' @ v)" "index_of (k @ '': '' @ v) '':'' = Some (length k)" "length k \<noteq> 0"
  using assms trimmed_last [of v] index_of_char [of "CHR '':''" k] by (auto simp: clean_field_def clean_line_def)

lemma add_header_new: "k \<notin> fst ` set hs \<Longrightarrow> add_header k v hs = hs @ [(k, v)]"
  by (induction hs) auto

definition fields_text :: "headers \<Rightarrow> string" where
  "fields_text fs = concat (map (\<lambda>(k, v). header_line k v) fs)"

lemma readHTTPHeaders_loop_fields:
  assumes "list_all clean_field fs" and "distinct (map fst (hs @ fs))"
    and "bufio_regular b" and "bufio_stream b = (bytes_of (fields_text fs @ crlf) @ rest, e)"
  shows "\<exists>b'. readHTTPHeaders_loop hs b = (Inr (hs @ fs), b') \<and> bufio_regular b' \<and> bufio_stream b' = (rest, e)"
  using assms
proof (induction fs arbitrary: hs b)
  case Nil
  have "clean_line []" by (simp add: clean_line_def)
  with readHTTPLine_line [of b "[]" rest e] Nil show ?case
    by (auto simp: readHTTPHeaders_loop.simps [of hs b] fields_text_def)
next
  case (Cons f fs)
  obtain k v where f: "f = (k, v)" by force
  note fl = clean_field_line [of k v]
  have st: "bufio_stream b = (bytes_of ((k @ '': '' @ v) @ crlf)
      @ bytes_of (fields_text fs @ crlf) @ rest, e)"
    using Cons.prems(4) f by (simp add: header_line_def fields_text_def)
  obtain b1 where b1: "readHTTPLine b = (Inr (k @ '': '' @ v), b1)" "bufio_regular b1"
    "bufio_stream b1 = (bytes_of (fields_text fs @ crlf) @ rest, e)"
    using readHTTPLine_line [OF Cons.prems(3) st] fl f Cons.prems(1) by auto
  obtain i where i: "length k = Suc i" using fl(3) f Cons.prems(1) by (cases k) auto
  have "trim_space (take (Suc i) (k @ '': '' @ v)) = k" "trim_space (drop (Suc i + 1) (k @ '': '' @ v)) = v"
    using i f Cons.prems(1) by (simp_all add: clean_field_def trim_space_blank flip: i)
  then have "readHTTPHeaders_loop hs b = readHTTPHeaders_loop (hs @ [(k, v)]) b1"
    using b1(1) fl(2) f Cons.prems(1,2) i
    by (subst readHTTPHeaders_loop.simps) (auto simp: add_header_new)
  with Cons.IH [of "hs @ [(k, v)]" b1] b1 f Cons.prems show ?case by auto
qed

subsection \<open>The request on the wire\<close>

text \<open>The fields a request carries: the client's own, where the caller gave none, and the caller's.\<close>

definition candidate_fields :: "url \<Rightarrow> byte list \<Rightarrow> string \<Rightarrow> bool \<Rightarrow> headers" where
  "candidate_fields u body userAgent autoDecompress =
     [(''Host'', if Host u = [] then Hostname u else Host u),
      (''User-Agent'', if userAgent = [] then defaultHTTPUserAgent else userAgent),
      (''Accept'', ''*/*''), (''Connection'', ''close'')]
     @ (if autoDecompress then [(''Accept-Encoding'', ''gzip, deflate'')] else [])
     @ (if body \<noteq> [] then [(''Content-Length'', show_nat (length body))] else [])"

definition default_fields :: "url \<Rightarrow> headers \<Rightarrow> byte list \<Rightarrow> string \<Rightarrow> bool \<Rightarrow> headers" where
  "default_fields u hs body userAgent autoDecompress =
     filter (\<lambda>kv. \<not> hasHeader hs (fst kv)) (candidate_fields u body userAgent autoDecompress)"

lemma fields_text_append: "fields_text (xs @ ys) = fields_text xs @ fields_text ys"
  by (simp add: fields_text_def)

lemma fields_text_missing:
  "fields_text (filter (\<lambda>kv. \<not> hasHeader hs (fst kv)) ((k, v) # l))
   = writeHeaderIfMissing hs k v @ fields_text (filter (\<lambda>kv. \<not> hasHeader hs (fst kv)) l)"
  by (simp add: fields_text_def writeHeaderIfMissing_def)

definition request_line :: "string \<Rightarrow> url \<Rightarrow> string" where
  "request_line mthd u = mthd @ '' '' @ (if RequestURI u = [] then ''/'' else RequestURI u) @ '' HTTP/1.1''"

lemma write_headers_clean:
  "list_all clean_field hs \<Longrightarrow> write_headers hs = fields_text hs"
  by (induction hs) (auto simp: write_headers_def clean_field_def fields_text_def)

lemma buildRawHTTPRequest_fields:
  assumes "list_all clean_field hs"
  shows "buildRawHTTPRequest mthd u hs body ua ad = bytes_of (request_line mthd u @ crlf)
     @ bytes_of (fields_text (default_fields u hs body ua ad @ hs) @ crlf) @ body"
proof -
  have nil: "fields_text (filter (\<lambda>kv. \<not> hasHeader hs (fst kv)) []) = []" by (simp add: fields_text_def)
  have "fields_text (default_fields u hs body ua ad) =
      writeHeaderIfMissing hs ''Host'' (if Host u = [] then Hostname u else Host u)
      @ writeHeaderIfMissing hs ''User-Agent'' (if ua = [] then defaultHTTPUserAgent else ua)
      @ writeHeaderIfMissing hs ''Accept'' ''*/*'' @ writeHeaderIfMissing hs ''Connection'' ''close''
      @ (if ad then writeHeaderIfMissing hs ''Accept-Encoding'' ''gzip, deflate'' else [])
      @ (if body \<noteq> [] then writeHeaderIfMissing hs ''Content-Length'' (show_nat (length body)) else [])"
    unfolding default_fields_def candidate_fields_def
    by (cases ad; cases "body = []")
      (simp_all only: filter_append fields_text_append fields_text_missing nil if_True if_False append_Nil
        append_Nil2 append_Cons append.assoc simp_thms not_True_eq_False not_False_eq_True)
  then show ?thesis
    unfolding buildRawHTTPRequest_def Let_def request_line_def fields_text_append write_headers_clean [OF assms]
    by (simp only: map_append append.assoc)
qed

lemma clean_field_graphic:
  "k \<noteq> [] \<Longrightarrow> list_all graphic k \<Longrightarrow> CHR '':'' \<notin> set k \<Longrightarrow> trim_space v = v \<Longrightarrow> CHR 10 \<notin> set v \<Longrightarrow> clean_field (k, v)"
  by (auto simp: clean_field_def trim_space_graphic list_all_iff graphic_def)

lemma show_nat_graphic: "list_all graphic (show_nat n)"
  using digits_show_nat digit_plain(1) by (rule list.pred_mono_strong)

lemma trim_values: "trim_space ''gzip, deflate'' = ''gzip, deflate''" "trim_space ''*/*'' = ''*/*''"
  "trim_space ''close'' = ''close''"
  by code_simp+

lemma default_fields_clean:
  assumes "clean_field (''Host'', if Host u = [] then Hostname u else Host u)"
    and "clean_field (''User-Agent'', if ua = [] then defaultHTTPUserAgent else ua)"
  shows "list_all clean_field (default_fields u hs body ua ad)"
proof -
  have "clean_field (''Accept'', ''*/*'')" "clean_field (''Connection'', ''close'')"
    "clean_field (''Accept-Encoding'', ''gzip, deflate'')"
    "clean_field (''Content-Length'', show_nat (length body))"
    using show_nat_graphic [of "length body"]
    by (auto intro!: clean_field_graphic simp: graphic_def trim_space_graphic trim_values list_all_iff)
  with assms have "list_all clean_field (candidate_fields u body ua ad)"
    by (simp add: candidate_fields_def)
  then show ?thesis by (auto simp: default_fields_def list_all_iff)
qed

lemma default_fields_distinct:
  assumes "list_all clean_field hs" and "distinct (map fst hs)"
  shows "distinct (map fst (default_fields u hs body ua ad @ hs))"
proof -
  have "hasHeader hs (fst kv)" if "kv \<in> set hs" for kv
  proof -
    obtain k v where kv: "kv = (k, v)" by force
    then have "trim_space k = k" using that assms(1) by (auto simp: list_all_iff clean_field_def)
    with that kv show ?thesis unfolding hasHeader_def list_ex_iff by (intro bexI [of _ kv]) simp_all
  qed
  then have "fst ` set (default_fields u hs body ua ad) \<inter> fst ` set hs = {}"
    by (auto simp: default_fields_def)
  moreover have "distinct (map fst (candidate_fields u body ua ad))"
    by (simp add: candidate_fields_def)
  then have "distinct (map fst (default_fields u hs body ua ad))"
    unfolding default_fields_def by (rule distinct_map_filter)
  ultimately show ?thesis using assms(2) by simp
qed

text \<open>
  A request written by \<^verbatim>\<open>buildRawHTTPRequest\<close> and read back by \<^verbatim>\<open>readHTTPLine\<close> and
  \<^verbatim>\<open>readHTTPHeaders\<close> has the request line, then exactly the client's own fields (those the
  caller did not give, in any case) and the caller's, each once and unchanged; the body follows.
  The fields must be free of line feeds and surrounding white space, and their names distinct.
\<close>

theorem request_round_trip:
  assumes "list_all clean_field hs" and "distinct (map fst hs)" and "clean_line (request_line mthd u)"
    and "clean_field (''Host'', if Host u = [] then Hostname u else Host u)"
    and "clean_field (''User-Agent'', if ua = [] then defaultHTTPUserAgent else ua)"
    and "bufio_regular b" and "bufio_stream b = (buildRawHTTPRequest mthd u hs body ua ad, e)"
  shows "\<exists>b1 b2. readHTTPLine b = (Inr (request_line mthd u), b1)
    \<and> readHTTPHeaders b1 = (Inr (default_fields u hs body ua ad @ hs), b2)
    \<and> bufio_stream b2 = (body, e)"
proof -
  let ?fs = "default_fields u hs body ua ad @ hs"
  obtain b1 where b1: "readHTTPLine b = (Inr (request_line mthd u), b1)" "bufio_regular b1"
    "bufio_stream b1 = (bytes_of (fields_text ?fs @ crlf) @ body, e)"
    using readHTTPLine_line [OF assms(6) _ assms(3)] assms(7) buildRawHTTPRequest_fields [OF assms(1)] by auto
  have "list_all clean_field ?fs" using default_fields_clean [OF assms(4,5)] assms(1) by simp
  moreover have "distinct (map fst ([] @ ?fs))" using default_fields_distinct [OF assms(1,2)] by simp
  ultimately show ?thesis
    using readHTTPHeaders_loop_fields [of ?fs "[]" b1 body e] b1 by (auto simp: readHTTPHeaders_def)
qed

lemma request_round_trip_witness:
  "let u = empty_url\<lparr>Host := ''h''\<rparr>; raw = buildRawHTTPRequest ''POST'' u [(''A'', ''b'')] [1, 2] [] True in
   \<exists>b1 b2. readHTTPLine (ex_bufio [(raw, None)]) = (Inr (request_line ''POST'' u), b1)
    \<and> readHTTPHeaders b1 = (Inr (default_fields u [(''A'', ''b'')] [1, 2] [] True @ [(''A'', ''b'')]), b2)
    \<and> bufio_stream b2 = ([1, 2], EOF)"
  unfolding Let_def
proof (rule request_round_trip)
  have "trim_space ''h'' = ''h''" "trim_space defaultHTTPUserAgent = defaultHTTPUserAgent"
    "trim_space ''A'' = ''A''" "trim_space ''b'' = ''b''" "trim_space ''Host'' = ''Host''"
    "trim_space ''User-Agent'' = ''User-Agent''"
    by code_simp+
  then show "list_all clean_field [(''A'', ''b'')]"
    "clean_field (''Host'', if Host (empty_url\<lparr>Host := ''h''\<rparr>) = [] then Hostname (empty_url\<lparr>Host := ''h''\<rparr>)
       else Host (empty_url\<lparr>Host := ''h''\<rparr>))"
    "clean_field (''User-Agent'', if [] = [] then defaultHTTPUserAgent else [])"
    by (simp_all add: clean_field_def) (simp_all add: defaultHTTPUserAgent_def)
  show "clean_line (request_line ''POST'' (empty_url\<lparr>Host := ''h''\<rparr>))"
    by (simp add: clean_line_def request_line_def RequestURI_def EscapedPath_def empty_url_def url_escape_def)
qed (simp_all add: regular_def buildRawHTTPRequest_def Let_def)

text \<open>
  Header values are not checked for line breaks: one caller header whose value holds a line
  break puts two header fields on the wire.
\<close>

theorem header_injection:
  "buildRawHTTPRequest mthd u [(''X'', ''a'' @ crlf @ ''Evil: b'')] body ua ad
   = buildRawHTTPRequest mthd u [(''X'', ''a''), (''Evil'', ''b'')] body ua ad"
proof -
  have trims: "trim_space (''a'' @ crlf @ ''Evil: b'') = ''a'' @ crlf @ ''Evil: b''"
    "trim_space ''X'' = ''X''" "trim_space ''Evil'' = ''Evil''" "trim_space ''a'' = ''a''" "trim_space ''b'' = ''b''"
    by code_simp+
  have "hasHeader [(''X'', ''a'' @ crlf @ ''Evil: b'')] k = hasHeader [(''X'', ''a''), (''Evil'', ''b'')] k"
    if "\<not> equal_fold ''Evil'' k" for k
    using that by (simp add: hasHeader_def trims)
  moreover have "\<not> equal_fold ''Evil'' k"
    if "k \<in> {''Host'', ''User-Agent'', ''Accept'', ''Connection'', ''Accept-Encoding'', ''Content-Length''}" for k
    using that by (auto simp: equal_fold_def case_fold_ascii ascii_lower_def Let_def)
  ultimately have "writeHeaderIfMissing [(''X'', ''a'' @ crlf @ ''Evil: b'')] k v
      = writeHeaderIfMissing [(''X'', ''a''), (''Evil'', ''b'')] k v"
    if "k \<in> {''Host'', ''User-Agent'', ''Accept'', ''Connection'', ''Accept-Encoding'', ''Content-Length''}" for k v
    using that by (simp add: writeHeaderIfMissing_def)
  moreover have "write_headers [(''X'', ''a'' @ crlf @ ''Evil: b'')] = write_headers [(''X'', ''a''), (''Evil'', ''b'')]"
    using trims by (simp add: write_headers_def header_line_def)
  ultimately show ?thesis by (simp add: buildRawHTTPRequest_def Let_def del: append.simps)
qed

end
