(* ===== verification/Http_Body.thy ===== *)
theory Http_Body
  imports Http_Message
begin

text \<open>
  The response bodies of \<^verbatim>\<open>network/http_client.go\<close>: \<^verbatim>\<open>chunkedBodyReader\<close>, \<^verbatim>\<open>io.LimitReader\<close>,
  the choice made by \<^verbatim>\<open>buildHTTPBodyReader\<close> and the decompression of \<^verbatim>\<open>wrapDecompressReader\<close>.
  The incremental reader is shown to deliver what a pure decoder says of the raw byte stream,
  for every raw stream, also a malformed one. The decompressors of the standard library are
  parameters that map a whole stream to a whole stream.
\<close>

subsection \<open>io.LimitReader\<close>

definition limit_read ::
    "(nat \<Rightarrow> 's \<Rightarrow> (byte list \<times> go_error option) \<times> 's)
     \<Rightarrow> nat \<Rightarrow> nat \<times> 's \<Rightarrow> (byte list \<times> go_error option) \<times> (nat \<times> 's)" where
  "limit_read rd m = (\<lambda>(n, s).
     if n = 0 then (([], Some EOF), (n, s))
     else case rd (min m n) s of ((d, e), s') \<Rightarrow> ((d, e), (n - length d, s')))"

definition limit_stream :: "nat \<Rightarrow> byte list \<times> go_error \<Rightarrow> byte list \<times> go_error" where
  "limit_stream n st = (if n \<le> length (fst st) then (take n (fst st), EOF) else st)"

text \<open>
  \<^verbatim>\<open>io.ReadAll(io.LimitReader(r, n))\<close> on any source: the first \<open>n\<close> bytes of its stream; without an
  error if more follow, and with the source's error if the stream is shorter. (When the stream has
  exactly \<open>n\<close> bytes, a source that reports its error with the last data is heard, another is not.)
\<close>

context byte_source
begin

lemma read_all_limit:
  assumes "invar s" and "budget s < fuel" and "\<And>n. 0 < room n"
  shows "\<exists>x t. read_all_loop (Suc fuel) (limit_read rd) room acc (n, s) = ((acc @ take n (fst (stream s)), x), t)
     \<and> (length (fst (stream s)) < n \<longrightarrow> x = (if snd (stream s) = EOF then None else Some (snd (stream s))))
     \<and> (n < length (fst (stream s)) \<or> snd (stream s) = EOF \<longrightarrow> x = None)"
  using assms(1,2)
proof (induction fuel arbitrary: acc n s)
  case 0
  then show ?case by simp
next
  case (Suc fuel)
  show ?case
  proof (cases "n = 0")
    case True
    then show ?thesis by (simp add: limit_read_def)
  next
    case False
    let ?m = "min (room (length acc)) n"
    obtain d e s' where rd: "rd ?m s = ((d, e), s')" by (metis surj_pair)
    have pos: "0 < ?m" using assms(3) [of "length acc"] False by simp
    have len: "length d \<le> n" using rd_len [OF Suc.prems(1) pos rd] by simp
    show ?thesis
    proof (cases e)
      case None
      note rd' = rd [unfolded None]
      have st: "stream s = (d @ fst (stream s'), snd (stream s'))" using rd_data [OF Suc.prems(1) pos rd'] .
      have "\<exists>x t. read_all_loop (Suc fuel) (limit_read rd) room (acc @ d) (n - length d, s')
            = (((acc @ d) @ take (n - length d) (fst (stream s')), x), t)
         \<and> (length (fst (stream s')) < n - length d \<longrightarrow> x = (if snd (stream s') = EOF then None else Some (snd (stream s'))))
         \<and> (n - length d < length (fst (stream s')) \<or> snd (stream s') = EOF \<longrightarrow> x = None)"
        using rd_invar [OF Suc.prems(1) pos rd'] rd_budget [OF Suc.prems(1) pos rd'] Suc.prems
        by (intro Suc.IH) auto
      moreover have "read_all_loop (Suc (Suc fuel)) (limit_read rd) room acc (n, s)
          = read_all_loop (Suc fuel) (limit_read rd) room (acc @ d) (n - length d, s')"
        using False rd' by (simp add: limit_read_def)
      ultimately show ?thesis using st len by (auto simp del: read_all_loop.simps)
    next
      case (Some err)
      with rd_last [OF Suc.prems(1) pos] rd have "stream s = (d, err)" by simp
      with rd Some False len show ?thesis by (auto simp: limit_read_def)
    qed
  qed
qed

end

text \<open>Over a reader, the limited reader is a source again.\<close>

context reader
begin

lemma limit_source:
  "byte_source (limit_read rd) (\<lambda>(n, s). invar s) (\<lambda>(n, s). limit_stream n (stream s))
     (\<lambda>(n, s). budget s)"
proof (unfold_locales, goal_cases)
  case (1 ns m d eo ns')
  obtain n s where ns: "ns = (n, s)" by force
  from 1 ns rd_len [of s "min m n"] show ?case
    by (auto simp: limit_read_def split: if_splits prod.splits)
next
  case (2 ns m d ns')
  obtain n s where ns: "ns = (n, s)" by force
  from 2 ns rd_invar [of s "min m n"] show ?case
    by (auto simp: limit_read_def split: if_splits prod.splits)
next
  case (3 ns m d ns')
  obtain n s where ns: "ns = (n, s)" by force
  with 3 obtain s' where rd: "rd (min m n) s = ((d, None), s')" "ns' = (n - length d, s')" "n \<noteq> 0"
    by (auto simp: limit_read_def split: if_splits prod.splits)
  have "stream s = (d @ fst (stream s'), snd (stream s'))" "length d \<le> n"
    using rd_data [of s "min m n" d s'] rd_len [of s "min m n" d None s'] 3 ns rd by auto
  with ns rd show ?case by (auto simp: limit_stream_def)
next
  case (4 ns m d e ns')
  obtain n s where ns: "ns = (n, s)" by force
  show ?case
  proof (cases "n = 0")
    case True
    with 4 ns show ?thesis by (auto simp: limit_read_def limit_stream_def)
  next
    case False
    with 4 ns obtain s' where rd: "rd (min m n) s = ((d, Some e), s')" by (auto simp: limit_read_def split: prod.splits)
    with rd_last [of s "min m n"] rd_again [of s "min m n"] False 4 ns show ?thesis
      using rd_len [of s "min m n" d "Some e" s'] by (cases "d = []") (auto simp: limit_stream_def)
  qed
next
  case (5 ns m d ns')
  obtain n s where ns: "ns = (n, s)" by force
  from 5 ns rd_budget [of s "min m n"] show ?case
    by (auto simp: limit_read_def split: if_splits prod.splits)
qed

end

subsection \<open>Chunked bodies\<close>

record chunkedBodyReader =
  creader :: bufio
  currentRemaining :: nat
  cdone :: bool

text \<open>The size on a chunk line: what stands before a semicolon, in base 16.\<close>

definition chunk_size_text :: "string \<Rightarrow> string" where
  "chunk_size_text line =
     trim_space (case index_of line '';'' of Some i \<Rightarrow> take i line | None \<Rightarrow> line)"

function skip_trailers :: "(bufio, unit) io" where
  "skip_trailers b =
     (case readHTTPLine b of
        (Inl err, b') \<Rightarrow> (Inl err, b')
      | (Inr line, b') \<Rightarrow> if line = [] then (Inr (), b') else skip_trailers b')"
  by pat_completeness auto
termination
  by (relation "measure bufio_measure") (auto intro: readHTTPLine_measure [OF sym])

declare skip_trailers.simps [simp del]

text \<open>
  The loop that reads a chunk header runs at most once: it returns, or it leaves a positive
  number of bytes. \<^term>\<open>Inr ()\<close> means that the data of a chunk follows.
\<close>

definition next_chunk :: "chunkedBodyReader \<Rightarrow> (go_error + unit) \<times> chunkedBodyReader" where
  "next_chunk r =
     (if currentRemaining r \<noteq> 0 then (Inr (), r)
      else case readHTTPLine (creader r) of
        (Inl err, b) \<Rightarrow> (Inl err, r\<lparr>creader := b\<rparr>)
      | (Inr line, b) \<Rightarrow>
          (case parse_int 16 (chunk_size_text line) of
             None \<Rightarrow> (Inl (Errorf (''invalid chunk size: '' @ go_quote (chunk_size_text line))), r\<lparr>creader := b\<rparr>)
           | Some sz \<Rightarrow>
               if sz = 0 then
                 (case skip_trailers b of
                    (Inl err, b') \<Rightarrow> (Inl err, r\<lparr>creader := b'\<rparr>)
                  | (Inr _, b') \<Rightarrow> (Inl EOF, r\<lparr>creader := b', cdone := True\<rparr>))
               else if sz < 0 then (Inl (Errorf ''invalid negative chunk size''), r\<lparr>creader := b\<rparr>)
               else (Inr (), r\<lparr>creader := b, currentRemaining := nat sz\<rparr>)))"

definition chunked_read ::
    "nat \<Rightarrow> chunkedBodyReader \<Rightarrow> (byte list \<times> go_error option) \<times> chunkedBodyReader" where
  "chunked_read m r =
     (if cdone r then (([], Some EOF), r)
      else case next_chunk r of
        (Inl err, r1) \<Rightarrow> (([], Some err), r1)
      | (Inr _, r1) \<Rightarrow>
          (case bufio_read (min m (currentRemaining r1)) (creader r1) of ((d, e), b) \<Rightarrow>
           let r2 = r1\<lparr>creader := b, currentRemaining := currentRemaining r1 - length d\<rparr> in
           case e of
             Some err \<Rightarrow> ((d, Some err), r2)
           | None \<Rightarrow>
               if currentRemaining r2 \<noteq> 0 then ((d, None), r2)
               else case bufio_read_full 2 (creader r2) of
                 (Inl err, b') \<Rightarrow> ((d, Some err), r2\<lparr>creader := b'\<rparr>)
               | (Inr delim, b') \<Rightarrow>
                   if delim ! 0 \<noteq> 13 \<or> delim ! 1 \<noteq> 10
                   then ((d, Some (Errorf ''invalid chunk delimiter'')), r2\<lparr>creader := b'\<rparr>)
                   else ((d, None), r2\<lparr>creader := b'\<rparr>)))"

subsection \<open>A pure decoder\<close>

text \<open>The first line of a raw stream and what follows it; no line, no result.\<close>

definition raw_line :: "byte list \<Rightarrow> (string \<times> byte list) option" where
  "raw_line raw = (if nl \<in> set raw then
       Some (trim_right_set crlf (string_of (takeWhile (\<lambda>x. x \<noteq> nl) raw @ [nl])),
             tl (dropWhile (\<lambda>x. x \<noteq> nl) raw))
     else None)"

lemma raw_line_shorter: "raw_line raw = Some (l, rest) \<Longrightarrow> length rest < length raw"
proof -
  assume *: "raw_line raw = Some (l, rest)"
  then have "dropWhile (\<lambda>x. x \<noteq> nl) raw \<noteq> []" "rest = tl (dropWhile (\<lambda>x. x \<noteq> nl) raw)"
    by (auto simp: raw_line_def dropWhile_eq_Nil_conv split: if_splits)
  moreover have "length (dropWhile (\<lambda>x. x \<noteq> nl) raw) \<le> length raw" by (rule length_dropWhile_le)
  ultimately show ?thesis by (cases "dropWhile (\<lambda>x. x \<noteq> nl) raw") simp_all
qed

function raw_trailers :: "byte list \<Rightarrow> bool" where
  "raw_trailers raw = (case raw_line raw of
      None \<Rightarrow> False | Some (l, rest) \<Rightarrow> l = [] \<or> raw_trailers rest)"
  by pat_completeness auto
termination
  by (relation "measure length") (auto intro: raw_line_shorter)

declare raw_trailers.simps [simp del]

text \<open>
  \<open>decode_chunks n raw e\<close>: the data of the rest of a chunk of \<open>n\<close> bytes and of the chunks after it,
  and the error that ends the body, when the raw stream is \<open>raw\<close> and ends with \<open>e\<close>.
\<close>

function decode_chunks :: "nat \<Rightarrow> byte list \<Rightarrow> go_error \<Rightarrow> byte list \<times> go_error" where
  "decode_chunks n raw e =
     (if n \<noteq> 0 then
        (if length raw < n then (raw, e)
         else if length raw < n + 2 then
           (take n raw, if n < length raw \<and> e = EOF then ErrUnexpectedEOF else e)
         else if raw ! n \<noteq> 13 \<or> raw ! (n + 1) \<noteq> 10 then (take n raw, Errorf ''invalid chunk delimiter'')
         else case decode_chunks 0 (drop (n + 2) raw) e of (ds, e') \<Rightarrow> (take n raw @ ds, e'))
      else case raw_line raw of
        None \<Rightarrow> ([], e)
      | Some (line, rest) \<Rightarrow>
          (case parse_int 16 (chunk_size_text line) of
             None \<Rightarrow> ([], Errorf (''invalid chunk size: '' @ go_quote (chunk_size_text line)))
           | Some sz \<Rightarrow>
               if sz = 0 then ([], if raw_trailers rest then EOF else e)
               else if sz < 0 then ([], Errorf ''invalid negative chunk size'')
               else decode_chunks (nat sz) rest e))"
  by pat_completeness auto
termination
  by (relation "measure (\<lambda>(n, raw, e). length raw)") (auto intro: raw_line_shorter)

declare decode_chunks.simps [simp del]

definition chunked_stream :: "chunkedBodyReader \<Rightarrow> byte list \<times> go_error" where
  "chunked_stream r = (if cdone r then ([], EOF)
     else decode_chunks (currentRemaining r) (fst (bufio_stream (creader r))) (snd (bufio_stream (creader r))))"

definition chunked_regular :: "chunkedBodyReader \<Rightarrow> bool" where
  "chunked_regular r \<longleftrightarrow> bufio_regular (creader r)"

definition chunked_budget :: "chunkedBodyReader \<Rightarrow> nat" where
  "chunked_budget r = length (fst (bufio_stream (creader r)))"

lemma readHTTPLine_raw:
  assumes "bufio_regular b"
  shows "case raw_line (fst (bufio_stream b)) of
     None \<Rightarrow> \<exists>b'. readHTTPLine b = (Inl (snd (bufio_stream b)), b')
   | Some (l, rest) \<Rightarrow> \<exists>b'. readHTTPLine b = (Inr l, b') \<and> bufio_regular b' \<and> bufio_stream b' = (rest, snd (bufio_stream b))"
  using read_string_loop_stream [OF assms, of "[]"]
  by (auto simp: raw_line_def readHTTPLine_def read_string_def split: if_splits)

lemma skip_trailers_raw:
  "bufio_regular b \<Longrightarrow> if raw_trailers (fst (bufio_stream b))
     then \<exists>b'. skip_trailers b = (Inr (), b')
     else \<exists>b'. skip_trailers b = (Inl (snd (bufio_stream b)), b')"
proof (induction "length (fst (bufio_stream b))" arbitrary: b rule: less_induct)
  case less
  show ?case
  proof (cases "raw_line (fst (bufio_stream b))")
    case None
    with readHTTPLine_raw [OF less.prems] show ?thesis
      by (auto simp: raw_trailers.simps [of "fst (bufio_stream b)"] skip_trailers.simps [of b])
  next
    case (Some lr)
    then obtain l rest where lr: "raw_line (fst (bufio_stream b)) = Some (l, rest)" by (cases lr) simp
    with readHTTPLine_raw [OF less.prems] obtain b' where
      b': "readHTTPLine b = (Inr l, b')" "bufio_regular b'" "bufio_stream b' = (rest, snd (bufio_stream b))" by auto
    have "length (fst (bufio_stream b')) < length (fst (bufio_stream b))" using raw_line_shorter [OF lr] b'(3) by simp
    from less.hyps [OF this b'(2)] b' lr show ?thesis
      by (auto simp: raw_trailers.simps [of "fst (bufio_stream b)"] skip_trailers.simps [of b])
  qed
qed

lemma next_chunk_raw:
  assumes reg: "chunked_regular r" and nd: "\<not> cdone r"
  shows "case next_chunk r of
     (Inl err, r1) \<Rightarrow> chunked_stream r = ([], err)
   | (Inr _, r1) \<Rightarrow> chunked_regular r1 \<and> \<not> cdone r1 \<and> currentRemaining r1 \<noteq> 0
       \<and> chunked_stream r1 = chunked_stream r \<and> chunked_budget r1 \<le> chunked_budget r"
proof (cases "currentRemaining r = 0")
  case False
  with assms show ?thesis by (simp add: next_chunk_def)
next
  case True
  let ?raw = "fst (bufio_stream (creader r))" and ?e = "snd (bufio_stream (creader r))"
  have reg': "bufio_regular (creader r)" using reg by (simp add: chunked_regular_def)
  show ?thesis
  proof (cases "raw_line ?raw")
    case None
    with readHTTPLine_raw [OF reg'] True nd show ?thesis
      by (auto simp: next_chunk_def chunked_stream_def decode_chunks.simps [of 0])
  next
    case (Some lr)
    then obtain l rest where lr: "raw_line ?raw = Some (l, rest)" by (cases lr) simp
    with readHTTPLine_raw [OF reg'] obtain b where
      b: "readHTTPLine (creader r) = (Inr l, b)" "bufio_regular b" "bufio_stream b = (rest, ?e)" by auto
    show ?thesis
      using True nd b lr skip_trailers_raw [OF b(2)] raw_line_shorter [OF lr]
      by (auto simp: next_chunk_def chunked_stream_def decode_chunks.simps [of 0] chunked_regular_def
          chunked_budget_def split: option.splits if_splits)
  qed
qed

lemma decode_chunks_partial:
  assumes "length d < n"
  shows "decode_chunks n (d @ raw) e
    = (d @ fst (decode_chunks (n - length d) raw e), snd (decode_chunks (n - length d) raw e))"
proof -
  obtain k where k: "n = length d + k" "k \<noteq> 0" using assms by (metis less_imp_add_positive not_gr_zero)
  then show ?thesis
    unfolding decode_chunks.simps [of n] decode_chunks.simps [of "n - length d"]
    by (simp add: nth_append split: prod.split)
qed

lemma decode_chunks_last:
  assumes "n \<noteq> 0" and "length d = n"
  shows "decode_chunks n (d @ raw) e =
    (if length raw < 2 then (d, if raw \<noteq> [] \<and> e = EOF then ErrUnexpectedEOF else e)
     else if raw ! 0 \<noteq> 13 \<or> raw ! 1 \<noteq> 10 then (d, Errorf ''invalid chunk delimiter'')
     else (d @ fst (decode_chunks 0 (drop 2 raw) e), snd (decode_chunks 0 (drop 2 raw) e)))"
  using assms by (subst decode_chunks.simps) (auto simp: nth_append split: prod.split)

lemma chunk_data_raw:
  assumes reg: "chunked_regular r" and nd: "\<not> cdone r" and n: "currentRemaining r \<noteq> 0" and m: "0 < m"
    and rd: "chunked_read m r = ((d, eo), r')"
  shows "length d \<le> m \<and> (case eo of
     None \<Rightarrow> chunked_regular r' \<and> chunked_stream r = (d @ fst (chunked_stream r'), snd (chunked_stream r'))
             \<and> chunked_budget r' < chunked_budget r
   | Some e \<Rightarrow> chunked_stream r = (d, e))"
proof -
  let ?n = "currentRemaining r"
  have nc: "next_chunk r = (Inr (), r)" using n by (simp add: next_chunk_def)
  obtain d' x b where br: "bufio_read (min m ?n) (creader r) = ((d', x), b)" by (metis surj_pair)
  have reg': "bufio_regular (creader r)" and pos: "0 < min m ?n" using reg m n by (simp_all add: chunked_regular_def)
  note law = bufio_read_lawful [OF reg' pos br]
  show ?thesis
  proof (cases x)
    case (Some err)
    with law have d': "length d' \<le> ?n" "length d' \<le> m" "bufio_stream (creader r) = (d', err)" by auto
    moreover have "decode_chunks ?n d' err = (d', err)" using n d'(1) by (subst decode_chunks.simps) auto
    ultimately show ?thesis using rd nc br nd Some by (auto simp: chunked_read_def Let_def chunked_stream_def)
  next
    case None
    with law have b: "bufio_regular b" "d' \<noteq> []" "length d' \<le> m" "length d' \<le> ?n"
      and st: "bufio_stream (creader r) = (d' @ fst (bufio_stream b), snd (bufio_stream b))" by auto
    show ?thesis
    proof (cases "length d' < ?n")
      case True
      with rd nc br nd None b st decode_chunks_partial [OF True] show ?thesis
        by (auto simp: chunked_read_def Let_def chunked_stream_def chunked_regular_def chunked_budget_def)
    next
      case False
      then have len: "length d' = ?n" using b(4) by simp
      note dec = decode_chunks_last [OF n len, of "fst (bufio_stream b)" "snd (bufio_stream b)"]
      show ?thesis
      proof (cases "length (fst (bufio_stream b)) < 2")
        case True
        with bufio_read_full_err [OF b(1) True] rd nc br nd None b st dec len show ?thesis
          by (auto simp: chunked_read_def Let_def chunked_stream_def)
      next
        case False
        then obtain x y rest where raw: "fst (bufio_stream b) = [x, y] @ rest"
          by (cases "fst (bufio_stream b)"; cases "tl (fst (bufio_stream b))") auto
        then have "bufio_stream b = ([x, y] @ rest, snd (bufio_stream b))" by (metis prod.collapse)
        from bufio_read_full_ok [OF b(1) this, of 2] obtain b' where
          b': "bufio_read_full 2 b = (Inr [x, y], b')" "bufio_regular b'" "bufio_stream b' = (rest, snd (bufio_stream b))"
          by auto
        with rd nc br nd None b st dec len raw show ?thesis
          by (auto simp: chunked_read_def Let_def chunked_stream_def chunked_regular_def chunked_budget_def
              split: if_splits)
      qed
    qed
  qed
qed

lemma chunked_read_raw:
  assumes reg: "chunked_regular r" and m: "0 < m" and rd: "chunked_read m r = ((d, eo), r')"
  shows "length d \<le> m \<and> (case eo of
     None \<Rightarrow> chunked_regular r' \<and> chunked_stream r = (d @ fst (chunked_stream r'), snd (chunked_stream r'))
             \<and> chunked_budget r' < chunked_budget r
   | Some e \<Rightarrow> chunked_stream r = (d, e))"
proof (cases "cdone r")
  case True
  with rd show ?thesis by (auto simp: chunked_read_def chunked_stream_def)
next
  case nd: False
  obtain x r1 where nc: "next_chunk r = (x, r1)" by force
  note nr = next_chunk_raw [OF reg nd, unfolded nc]
  show ?thesis
  proof (cases x)
    case (Inl err)
    with nr rd nd nc show ?thesis by (auto simp: chunked_read_def)
  next
    case (Inr u)
    with nr have r1: "chunked_regular r1" "\<not> cdone r1" "currentRemaining r1 \<noteq> 0"
      "chunked_stream r1 = chunked_stream r" "chunked_budget r1 \<le> chunked_budget r" by auto
    have "chunked_read m r = chunked_read m r1"
      using Inr nd nc r1 by (simp add: chunked_read_def next_chunk_def [of r1])
    with rd chunk_data_raw [OF r1(1-3) m, of d eo r'] r1(4,5) show ?thesis by (auto split: option.splits)
  qed
qed

interpretation chunked: byte_source chunked_read chunked_regular chunked_stream chunked_budget
proof (unfold_locales, goal_cases)
  case (1 s m d eo s')
  from chunked_read_raw [OF this] show ?case by simp
next
  case (2 s m d s')
  from chunked_read_raw [OF this] show ?case by simp
next
  case (3 s m d s')
  from chunked_read_raw [OF this] show ?case by simp
next
  case (4 s m d e s')
  from chunked_read_raw [OF this] show ?case by simp
next
  case (5 s m d s')
  from chunked_read_raw [OF this] show ?case by simp
qed

subsection \<open>Well-formed and truncated bodies\<close>

text \<open>A chunk as a sender writes it: a size line, possibly with an extension, and the data.\<close>

definition chunk_ok :: "string \<times> byte list \<Rightarrow> bool" where
  "chunk_ok c \<longleftrightarrow> clean_line (fst c) \<and> snd c \<noteq> []
     \<and> parse_int 16 (chunk_size_text (fst c)) = Some (int (length (snd c)))"

definition encode_chunk :: "string \<times> byte list \<Rightarrow> byte list" where
  "encode_chunk c = bytes_of (fst c @ crlf) @ snd c @ [13, 10]"

definition last_chunk :: "string \<Rightarrow> string list \<Rightarrow> byte list" where
  "last_chunk line trailers = bytes_of (line @ crlf) @ concat (map (\<lambda>t. bytes_of (t @ crlf)) trailers) @ bytes_of crlf"

lemma raw_line_line: "clean_line l \<Longrightarrow> raw_line (bytes_of (l @ crlf) @ rest) = Some (l, rest)"
proof -
  assume cl: "clean_line l"
  have eq: "bytes_of (l @ crlf) @ rest = bytes_of (l @ [CHR 13]) @ nl # rest"
    using byte_of_nl [of "CHR 10", simplified] by simp
  have nn: "nl \<notin> set (bytes_of (l @ [CHR 13]))"
    using cl by (simp only: nl_in_bytes) (simp add: clean_line_def)
  have "bytes_of (l @ [CHR 13]) @ [nl] = bytes_of (l @ crlf)" using byte_of_nl [of "CHR 10", simplified] by simp
  then have "trim_right_set crlf (string_of (bytes_of (l @ [CHR 13]) @ [nl])) = l"
    using trim_right_line [OF cl] by (simp only: string_of_bytes_of)
  with nn show ?thesis
    unfolding eq raw_line_def by (simp add: while_append_notin del: map_append)
qed

lemma raw_trailers_lines:
  "list_all (\<lambda>t. clean_line t) ts \<Longrightarrow> raw_trailers (concat (map (\<lambda>t. bytes_of (t @ crlf)) ts) @ bytes_of crlf @ rest)"
proof (induction ts)
  case Nil
  have "clean_line []" by (simp add: clean_line_def)
  from raw_line_line [OF this, of rest] show ?case by (simp add: raw_trailers.simps)
next
  case (Cons t ts)
  have "raw_line (bytes_of (t @ crlf) @ concat (map (\<lambda>t. bytes_of (t @ crlf)) ts) @ bytes_of crlf @ rest)
      = Some (t, concat (map (\<lambda>t. bytes_of (t @ crlf)) ts) @ bytes_of crlf @ rest)"
    using Cons.prems by (intro raw_line_line) simp
  with Cons show ?case by (subst raw_trailers.simps) simp
qed

lemma decode_chunks_encoded:
  assumes "list_all chunk_ok cs" and "clean_line line" "parse_int 16 (chunk_size_text line) = Some 0"
    and "list_all clean_line ts"
  shows "decode_chunks 0 (concat (map encode_chunk cs) @ last_chunk line ts @ rest) e = (concat (map snd cs), EOF)"
  using assms(1)
proof (induction cs)
  case Nil
  have "raw_line (last_chunk line ts @ rest)
      = Some (line, concat (map (\<lambda>t. bytes_of (t @ crlf)) ts) @ bytes_of crlf @ rest)"
    unfolding last_chunk_def append.assoc by (rule raw_line_line [OF assms(2)])
  with raw_trailers_lines [OF assms(4)] assms(3) show ?case by (subst decode_chunks.simps) simp
next
  case (Cons c cs)
  let ?tail = "concat (map encode_chunk cs) @ last_chunk line ts @ rest"
  have c: "clean_line (fst c)" "snd c \<noteq> []" "parse_int 16 (chunk_size_text (fst c)) = Some (int (length (snd c)))"
    using Cons.prems by (simp_all add: chunk_ok_def)
  have "raw_line (concat (map encode_chunk (c # cs)) @ last_chunk line ts @ rest)
      = Some (fst c, snd c @ [13, 10] @ ?tail)"
    using raw_line_line [OF c(1), of "snd c @ [13, 10] @ ?tail"] by (simp add: encode_chunk_def)
  then have "decode_chunks 0 (concat (map encode_chunk (c # cs)) @ last_chunk line ts @ rest) e
      = decode_chunks (length (snd c)) (snd c @ [13, 10] @ ?tail) e"
    using c(2,3) by (subst decode_chunks.simps) simp
  with decode_chunks_last [of "length (snd c)" "snd c" "[13, 10] @ ?tail" e] c(2) Cons show ?case by simp
qed

text \<open>\<^verbatim>\<open>io.ReadAll\<close> of a chunked body.\<close>

definition read_all_chunked :: "(nat \<Rightarrow> nat) \<Rightarrow> bufio \<Rightarrow> byte list \<times> go_error option" where
  "read_all_chunked room b =
     fst (read_all_loop (Suc (Suc (bufio_budget b))) chunked_read room []
            \<lparr>creader = b, currentRemaining = 0, cdone = False\<rparr>)"

lemma length_script_stream: "length (fst (script_stream evs)) \<le> sum_list (map (\<lambda>ev. Suc (length (fst ev))) evs)"
  by (induction evs rule: script_stream.induct) (auto split: prod.split)

lemma length_nstream: "length (fst (nstream c)) \<le> nbudget c"
  by (induction c) (auto simp: conn_stream_def conn_budget_def length_script_stream split: prod.split)

lemma length_bufio_stream: "length (fst (bufio_stream b)) \<le> bufio_budget b"
  using length_nstream [of "bsrc b"] by (auto simp: bufio_stream_def bufio_budget_def split: option.split)

lemma read_all_chunked_decodes:
  assumes "bufio_regular b" and "\<And>n. 0 < room n"
  shows "read_all_chunked room b =
    (case decode_chunks 0 (fst (bufio_stream b)) (snd (bufio_stream b)) of
       (ds, e) \<Rightarrow> (ds, if e = EOF then None else Some e))"
proof -
  let ?r = "\<lparr>creader = b, currentRemaining = 0, cdone = False\<rparr>"
  have "chunked_regular ?r" "chunked_budget ?r < Suc (Suc (bufio_budget b))"
    "chunked_stream ?r = decode_chunks 0 (fst (bufio_stream b)) (snd (bufio_stream b))"
    using assms(1) length_bufio_stream [of b]
    by (simp_all add: chunked_regular_def chunked_budget_def chunked_stream_def)
  with chunked.read_all_loop_result [where s = ?r and room = room and acc = "[]"
      and fuel = "Suc (Suc (bufio_budget b))", OF _ _ assms(2)] show ?thesis
    by (auto simp: read_all_chunked_def case_prod_beta simp del: read_all_loop.simps)
qed

text \<open>
  C15: reading a chunked body gives back the data for every way the sender cut it into chunks
  (sizes in hexadecimal, with or without extensions and trailers), every way the network cut the
  bytes and every growth of the receiving buffer.
\<close>

theorem chunked_body_decodes:
  assumes "list_all chunk_ok cs" and "clean_line line" and "parse_int 16 (chunk_size_text line) = Some 0"
    and "list_all clean_line trailers"
    and "bufio_regular b" and "bufio_stream b = (concat (map encode_chunk cs) @ last_chunk line trailers @ rest, e)"
    and "\<And>n. 0 < room n"
  shows "read_all_chunked room b = (concat (map snd cs), None)"
  using read_all_chunked_decodes [OF assms(5,7)] decode_chunks_encoded [OF assms(1-4)] assms(6) by simp

text \<open>
  A chunked body that the connection cuts short inside a chunk, or before a size line, is
  returned as if it were complete: the end of the connection is reported as the end of the body.
\<close>

theorem truncated_chunked_body_accepted:
  assumes "chunk_ok (line, data)" and "k < length data" and "bufio_regular b"
    and "bufio_stream b = (bytes_of (line @ crlf) @ take k data, EOF)" and "\<And>n. 0 < room n"
  shows "read_all_chunked room b = (take k data, None)"
proof -
  have c: "clean_line line" "parse_int 16 (chunk_size_text line) = Some (int (length data))" "data \<noteq> []"
    using assms(1) by (simp_all add: chunk_ok_def)
  have "decode_chunks 0 (bytes_of (line @ crlf) @ take k data) EOF = decode_chunks (length data) (take k data) EOF"
    using raw_line_line [OF c(1), of "take k data"] c(2,3) by (subst decode_chunks.simps) simp
  also have "\<dots> = (take k data, EOF)" using assms(2) c(3) by (subst decode_chunks.simps) simp
  finally show ?thesis using read_all_chunked_decodes [OF assms(3,5)] assms(4) by simp
qed

definition ex_chunk :: "string \<times> byte list" where
  "ex_chunk = (''3;ext=1'', [97, 98, 99])"

lemma ex_chunk_ok: "chunk_ok ex_chunk"
proof -
  have "chunk_size_text ''3;ext=1'' = ''3''" by code_simp
  moreover have "parse_int 16 ''3'' = Some 3" by code_simp
  ultimately show ?thesis by (simp add: chunk_ok_def ex_chunk_def clean_line_def)
qed

lemma chunked_body_decodes_witness:
  "read_all_chunked (\<lambda>n. 1) (ex_bufio [(encode_chunk ex_chunk, None), (last_chunk ''0'' [''T: x''], None)])
   = ([97, 98, 99], None)"
proof -
  have "chunk_size_text ''0'' = ''0''" "parse_int 16 ''0'' = Some 0" by code_simp+
  then show ?thesis
    using chunked_body_decodes [of "[ex_chunk]" "''0''" "[''T: x'']"
        "ex_bufio [(encode_chunk ex_chunk, None), (last_chunk ''0'' [''T: x''], None)]" "[]" EOF "\<lambda>n. 1"] ex_chunk_ok
    by (simp add: clean_line_def regular_def encode_chunk_def last_chunk_def) (simp add: ex_chunk_def)
qed

lemma truncated_chunked_body_accepted_witness:
  "read_all_chunked (\<lambda>n. 1) (ex_bufio [(bytes_of (''3;ext=1'' @ crlf) @ [97], None)]) = ([97], None)"
  using truncated_chunked_body_accepted [of "''3;ext=1''" "[97, 98, 99]" 1
      "ex_bufio [(bytes_of (''3;ext=1'' @ crlf) @ [97], None)]" "\<lambda>n. 1"] ex_chunk_ok
  by (simp add: ex_chunk_def regular_def)

subsection \<open>Response bodies\<close>

text \<open>
  The readers a response body can be: the connection up to its end, a limited one, a chunked one,
  the empty one of \<^verbatim>\<open>bytes.NewReader(nil)\<close>, and a decompressed one. The last holds the
  decompressed bytes, the error that ends them, and the reader whose connection it closes.
\<close>

datatype body_reader =
    RawBody bufio
  | LimitedBody nat bufio
  | ChunkedBody chunkedBodyReader
  | EmptyBody bufio
  | DecodedBody "byte list" go_error body_reader

fun body_read :: "nat \<Rightarrow> body_reader \<Rightarrow> (byte list \<times> go_error option) \<times> body_reader" where
  "body_read m (RawBody b) = (case bufio_read m b of (x, b') \<Rightarrow> (x, RawBody b'))"
| "body_read m (LimitedBody n b) = (case limit_read bufio_read m (n, b) of (x, (n', b')) \<Rightarrow> (x, LimitedBody n' b'))"
| "body_read m (ChunkedBody r) = (case chunked_read m r of (x, r') \<Rightarrow> (x, ChunkedBody r'))"
| "body_read m (EmptyBody b) = (([], Some EOF), EmptyBody b)"
| "body_read m (DecodedBody bs e r) =
     (if bs = [] then (([], Some e), DecodedBody [] e r) else ((take m bs, None), DecodedBody (drop m bs) e r))"

definition buildHTTPBodyReader :: "range_order \<Rightarrow> bufio \<Rightarrow> headers \<Rightarrow> go_error + body_reader" where
  "buildHTTPBodyReader ord b hs =
     (if contains (to_lower (getHeader ord hs ''Transfer-Encoding'')) ''chunked''
      then Inr (ChunkedBody \<lparr>creader = b, currentRemaining = 0, cdone = False\<rparr>)
      else
        let contentLength = getHeader ord hs ''Content-Length'' in
        if contentLength \<noteq> [] then
          (case atoi (trim_space contentLength) of
             None \<Rightarrow> Inl (Errorf (''invalid Content-Length: '' @ contentLength))
           | Some n \<Rightarrow> if n \<le> 0 then Inr (EmptyBody b) else Inr (LimitedBody (nat n) b))
        else Inr (RawBody b))"

fun body_stream :: "body_reader \<Rightarrow> byte list \<times> go_error" where
  "body_stream (RawBody b) = bufio_stream b"
| "body_stream (LimitedBody n b) = limit_stream n (bufio_stream b)"
| "body_stream (ChunkedBody r) = chunked_stream r"
| "body_stream (EmptyBody b) = ([], EOF)"
| "body_stream (DecodedBody bs e r) = (bs, e)"

fun body_regular :: "body_reader \<Rightarrow> bool" where
  "body_regular (RawBody b) = bufio_regular b"
| "body_regular (LimitedBody n b) = bufio_regular b"
| "body_regular (ChunkedBody r) = chunked_regular r"
| "body_regular (EmptyBody b) = True"
| "body_regular (DecodedBody bs e r) = True"

fun body_budget :: "body_reader \<Rightarrow> nat" where
  "body_budget (RawBody b) = bufio_budget b"
| "body_budget (LimitedBody n b) = bufio_budget b"
| "body_budget (ChunkedBody r) = chunked_budget r"
| "body_budget (EmptyBody b) = 0"
| "body_budget (DecodedBody bs e r) = length bs"

text \<open>
  The decompressors: \<^verbatim>\<open>gzip.NewReader\<close> reads the gzip header at once and can fail;
  \<^verbatim>\<open>flate.NewReader\<close> cannot.
\<close>

record decompressors =
  gunzip :: "byte list \<times> go_error \<Rightarrow> go_error + (byte list \<times> go_error)"
  inflate :: "byte list \<times> go_error \<Rightarrow> byte list \<times> go_error"

definition wrapDecompressReader ::
    "range_order \<Rightarrow> decompressors \<Rightarrow> body_reader \<Rightarrow> headers \<Rightarrow> go_error + body_reader" where
  "wrapDecompressReader ord z r hs =
     (let encoding = to_lower (trim_space (getHeader ord hs ''Content-Encoding'')) in
      if encoding = [] then Inr r
      else if encoding = ''gzip'' then
        (case gunzip z (body_stream r) of Inl e \<Rightarrow> Inl e | Inr (bs, e) \<Rightarrow> Inr (DecodedBody bs e r))
      else if encoding = ''deflate'' then
        (case inflate z (body_stream r) of (bs, e) \<Rightarrow> Inr (DecodedBody bs e r))
      else Inr r)"

lemma body_read_raw:
  assumes reg: "body_regular r" and m: "0 < m" and rd: "body_read m r = ((d, eo), r')"
  shows "length d \<le> m \<and> (case eo of
     None \<Rightarrow> body_regular r' \<and> body_stream r = (d @ fst (body_stream r'), snd (body_stream r'))
             \<and> body_budget r' < body_budget r
   | Some e \<Rightarrow> body_stream r = (d, e))"
proof (cases r)
  case (RawBody b)
  then obtain b' where "bufio_read m b = ((d, eo), b')" "r' = RawBody b'" using rd by (auto split: prod.splits)
  with bufio_read_lawful [OF _ m, of b d eo b'] reg RawBody show ?thesis by (auto split: option.splits)
next
  case (LimitedBody n b)
  then obtain n' b' where l: "limit_read bufio_read m (n, b) = ((d, eo), (n', b'))" "r' = LimitedBody n' b'"
    using rd by (auto split: prod.splits)
  note src = bufio_reader.limit_source
  have inv: "(\<lambda>(n, s). bufio_regular s) (n, b)" using reg LimitedBody by simp
  show ?thesis
  proof (cases eo)
    case None
    note l' = l(1) [unfolded None]
    from byte_source.rd_len [OF src inv m l'] byte_source.rd_invar [OF src inv m l']
      byte_source.rd_data [OF src inv m l'] byte_source.rd_budget [OF src inv m l'] l(2) LimitedBody None
    show ?thesis by simp
  next
    case (Some e)
    note l' = l(1) [unfolded Some]
    from byte_source.rd_len [OF src inv m l'] byte_source.rd_last [OF src inv m l'] LimitedBody Some
    show ?thesis by simp
  qed
next
  case (ChunkedBody c)
  then obtain c' where "chunked_read m c = ((d, eo), c')" "r' = ChunkedBody c'" using rd by (auto split: prod.splits)
  with chunked_read_raw [OF _ m, of c d eo c'] reg ChunkedBody show ?thesis by (auto split: option.splits)
next
  case (EmptyBody b)
  with rd show ?thesis by auto
next
  case (DecodedBody bs e r0)
  then have "bs \<noteq> [] \<Longrightarrow> length bs - m < length bs" using m by simp
  with rd DecodedBody show ?thesis by (auto split: if_splits)
qed

interpretation body: byte_source body_read body_regular body_stream body_budget
proof (unfold_locales, goal_cases)
  case (1 s m d eo s')
  from body_read_raw [OF this] show ?case by simp
next
  case (2 s m d s')
  from body_read_raw [OF this] show ?case by simp
next
  case (3 s m d s')
  from body_read_raw [OF this] show ?case by simp
next
  case (4 s m d e s')
  from body_read_raw [OF this] show ?case by simp
next
  case (5 s m d s')
  from body_read_raw [OF this] show ?case by simp
qed

text \<open>The connection below a body.\<close>

fun body_bufio :: "body_reader \<Rightarrow> bufio" where
  "body_bufio (RawBody b) = b"
| "body_bufio (LimitedBody n b) = b"
| "body_bufio (ChunkedBody r) = creader r"
| "body_bufio (EmptyBody b) = b"
| "body_bufio (DecodedBody bs e r) = body_bufio r"

text \<open>Which bytes of the connection a response with given headers has as its body.\<close>

definition framed_body :: "headers \<Rightarrow> byte list \<times> go_error \<Rightarrow> go_error + (byte list \<times> go_error)" where
  "framed_body hs st =
     (if contains (to_lower (field_value hs ''Transfer-Encoding'')) ''chunked'' then Inr (decode_chunks 0 (fst st) (snd st))
      else if field_value hs ''Content-Length'' = [] then Inr st
      else case atoi (trim_space (field_value hs ''Content-Length'')) of
        None \<Rightarrow> Inl (Errorf (''invalid Content-Length: '' @ field_value hs ''Content-Length''))
      | Some n \<Rightarrow> Inr (limit_stream (nat n) st))"

lemma buildHTTPBodyReader_framed:
  assumes "bufio_regular b" and "visits_all ord" and "distinct_names hs"
  shows "case buildHTTPBodyReader ord b hs of
     Inl e \<Rightarrow> framed_body hs (bufio_stream b) = Inl e
   | Inr r \<Rightarrow> framed_body hs (bufio_stream b) = Inr (body_stream r) \<and> body_regular r \<and> body_bufio r = b"
  using assms
  by (auto simp: getHeader_field_value buildHTTPBodyReader_def framed_body_def chunked_stream_def chunked_regular_def limit_stream_def Let_def
      split: option.split)

end
