(* ===== verification/Proxy.thy ===== *)
theory Proxy
  imports Go_Url "HOL-Library.Multiset"
begin

text \<open>
  The package \<^verbatim>\<open>proxy\<close>: proxy types, configurations and their textual forms
  (\<^verbatim>\<open>proxy_type.go\<close>, \<^verbatim>\<open>proxy_config.go\<close>, \<^verbatim>\<open>proxy.go\<close>) and the pickers
  (\<^verbatim>\<open>proxy_picker.go\<close>), whose common contract is the locale \<open>picker\<close>.
\<close>

subsection \<open>Types and configurations\<close>

type_synonym ProxyType = string

definition ProxyTypeHTTP :: ProxyType where "ProxyTypeHTTP = ''http''"
definition ProxyTypeHTTPS :: ProxyType where "ProxyTypeHTTPS = ''https''"
definition ProxyTypeSOCKS4 :: ProxyType where "ProxyTypeSOCKS4 = ''socks4''"
definition ProxyTypeSOCKS5 :: ProxyType where "ProxyTypeSOCKS5 = ''socks5''"

lemmas proxy_types = ProxyTypeHTTP_def ProxyTypeHTTPS_def ProxyTypeSOCKS4_def ProxyTypeSOCKS5_def

definition ProxyType_IsValid :: "ProxyType \<Rightarrow> bool" where
  "ProxyType_IsValid p \<longleftrightarrow>
     p = ProxyTypeHTTP \<or> p = ProxyTypeHTTPS \<or> p = ProxyTypeSOCKS4 \<or> p = ProxyTypeSOCKS5"

definition ProxyTypeFromString :: "string \<Rightarrow> go_error + ProxyType" where
  "ProxyTypeFromString s =
     (let t = to_lower (trim_space s) in
      if t = ''http'' then Inr ProxyTypeHTTP
      else if t = ''https'' then Inr ProxyTypeHTTPS
      else if t \<in> {''s4'', ''sock4'', ''socks4''} then Inr ProxyTypeSOCKS4
      else if t \<in> {''s5'', ''sock5'', ''socks5''} then Inr ProxyTypeSOCKS5
      else Inl (Errorf (''invalid proxy type: '' @ s)))"

record ProxyConfig =
  Type :: ProxyType
  PHost :: string
  PPort :: int
  Username :: "string option"
  Password :: "string option"

definition trimStringPtr :: "string option \<Rightarrow> string option" where
  "trimStringPtr v = map_option trim_space v"

definition Address :: "ProxyConfig \<Rightarrow> string" where
  "Address c = join_host_port (PHost c) (itoa (PPort c))"

definition ProxyConfig_String :: "ProxyConfig \<Rightarrow> string" where
  "ProxyConfig_String c =
     Type c @ ''://''
     @ (case (Username c, Password c) of (Some u, Some p) \<Rightarrow> u @ '':***@'' | _ \<Rightarrow> [])
     @ Address c"

definition URLString :: "ProxyConfig \<Rightarrow> string" where
  "URLString c =
     Type c @ ''://''
     @ (case (Username c, Password c) of (Some u, Some p) \<Rightarrow> u @ '':'' @ p @ ''@'' | _ \<Rightarrow> [])
     @ Address c"

definition IsValid :: "ProxyConfig \<Rightarrow> bool" where
  "IsValid c =
     (if \<not> ProxyType_IsValid (Type c) then False
      else if trim_space (PHost c) = [] then False
      else if PPort c \<le> 0 \<or> 65535 < PPort c then False
      else case (Username c, Password c) of
        (Some _, None) \<Rightarrow> False
      | (None, Some _) \<Rightarrow> False
      | (Some u, Some p) \<Rightarrow> \<not> (trim_space u = [] \<or> trim_space p = [])
      | (None, None) \<Rightarrow> True)"

definition NewProxyConfig ::
    "ProxyType \<Rightarrow> string \<Rightarrow> int \<Rightarrow> string option \<Rightarrow> string option \<Rightarrow> go_error + ProxyConfig" where
  "NewProxyConfig proxyType host port username password =
     (let config = \<lparr>Type = proxyType, PHost = trim_space host, PPort = port,
                    Username = trimStringPtr username, Password = trimStringPtr password\<rparr>
      in if \<not> IsValid config
         then Inl (Errorf (''invalid proxy configuration: '' @ ProxyConfig_String config))
         else Inr config)"

subsection \<open>Parsing\<close>

definition parseProxyString ::
    "string \<Rightarrow> go_error + (ProxyType \<times> string \<times> int \<times> string option \<times> string option)" where
  "parseProxyString proxyStr =
     (let raw = trim_space proxyStr in
      if raw = [] then Inl (Errorf ''empty proxy string'')
      else case url_parse raw of
        Inl _ \<Rightarrow> Inl (Errorf ''invalid proxy string'')
      | Inr u \<Rightarrow>
      (case ProxyTypeFromString (Scheme u) of
        Inl e \<Rightarrow> Inl e
      | Inr proxyType \<Rightarrow>
      let host = trim_space (Hostname u); portStr = trim_space (Port u) in
      if host = [] then Inl (Errorf ''invalid proxy host'')
      else if portStr = [] then Inl (Errorf ''missing proxy port'')
      else case atoi portStr of
        None \<Rightarrow> Inl (Errorf ''invalid proxy port'')
      | Some port \<Rightarrow>
      (case (case User u of
               None \<Rightarrow> Inr (None, None)
             | Some (user, pass) \<Rightarrow>
                 if user = [] \<or> pass = None \<or> pass = Some [] then Inl (Errorf ''invalid proxy auth'')
                 else Inr (Some user, pass)) of
        Inl e \<Rightarrow> Inl e
      | Inr (username, password) \<Rightarrow>
          if split_host_port (join_host_port host (itoa port)) = None
          then Inl (Errorf ''invalid proxy address'')
          else Inr (proxyType, host, port, username, password))))"

definition ParseProxyConfig :: "string \<Rightarrow> go_error + ProxyConfig" where
  "ParseProxyConfig proxyStr =
     (case parseProxyString proxyStr of
        Inl e \<Rightarrow> Inl e
      | Inr (proxyType, host, port, username, password) \<Rightarrow>
          NewProxyConfig proxyType host port username password)"

text \<open>\<^verbatim>\<open>UUID\<close>: the hash function is a parameter.\<close>

definition uuid_text :: "ProxyConfig \<Rightarrow> string" where
  "uuid_text p =
     PHost p @ ''|'' @ itoa (PPort p) @ ''|'' @ Type p @ ''|''
     @ (case Username p of None \<Rightarrow> [] | Some u \<Rightarrow> u) @ ''|''
     @ (case Password p of None \<Rightarrow> [] | Some s \<Rightarrow> s)"

definition UUID :: "(byte list \<Rightarrow> byte list) \<Rightarrow> ProxyConfig \<Rightarrow> string" where
  "UUID md5 p = hex_encode (md5 (bytes_of (uuid_text p)))"

subsection \<open>Pickers\<close>

definition ErrNoProxyAvailable :: go_error where
  "ErrNoProxyAvailable = Errorf ''no proxy available''"

text \<open>
  A picker closes over its state. The list holds pointers, so an entry may be nil
  (\<^term>\<open>None\<close>). The round-robin counter is an atomic 64-bit integer.
\<close>

type_synonym 's picker = "('s, ProxyConfig option) io"

definition NewRoundRobinProxyPicker :: "ProxyConfig option list \<Rightarrow> (64 word) picker" where
  "NewRoundRobinProxyPicker proxies = (\<lambda>index.
     if proxies = [] then (Inl ErrNoProxyAvailable, index)
     else let index' = index + 1; i = index' - 1
          in (Inr (proxies ! (unat i mod length proxies)), index'))"

text \<open>\<open>intn g n\<close> is \<^verbatim>\<open>rng.Intn(n)\<close> in the generator state \<open>g\<close>.\<close>

definition NewRandomProxyPicker ::
    "('g \<Rightarrow> nat \<Rightarrow> nat \<times> 'g) \<Rightarrow> ProxyConfig option list \<Rightarrow> 'g picker" where
  "NewRandomProxyPicker intn proxies = (\<lambda>g.
     if proxies = [] then (Inl ErrNoProxyAvailable, g)
     else case intn g (length proxies) of (i, g') \<Rightarrow> (Inr (proxies ! i), g'))"

definition NewSingleProxyPicker :: "ProxyConfig option \<Rightarrow> unit picker" where
  "NewSingleProxyPicker proxy = (\<lambda>s.
     case proxy of None \<Rightarrow> (Inl ErrNoProxyAvailable, s) | Some p \<Rightarrow> (Inr (Some p), s))"

text \<open>The results of \<open>n\<close> picks in a row.\<close>

fun picks :: "'s picker \<Rightarrow> nat \<Rightarrow> 's \<Rightarrow> (go_error + ProxyConfig option) list" where
  "picks pick 0 s = []"
| "picks pick (Suc n) s = (case pick s of (r, s') \<Rightarrow> r # picks pick n s')"

text \<open>What every picker promises: an entry of its list, or the error when there is none.\<close>

locale picker =
  fixes pick :: "'s picker" and entries :: "ProxyConfig option list"
  assumes pick_none: "entries = [] \<Longrightarrow> pick s = (Inl ErrNoProxyAvailable, s)"
    and pick_some: "entries \<noteq> [] \<Longrightarrow> \<exists>p s'. pick s = (Inr p, s') \<and> p \<in> set entries"
begin

lemma picks_results:
  "set (picks pick n s) \<subseteq> (if entries = [] then {Inl ErrNoProxyAvailable} else Inr ` set entries)"
proof (induction n arbitrary: s)
  case 0
  then show ?case by simp
next
  case (Suc n)
  show ?case
  proof (cases "entries = []")
    case True
    with Suc [of s] pick_none [of s] show ?thesis by simp
  next
    case False
    obtain p s' where "pick s = (Inr p, s')" "p \<in> set entries" using pick_some [OF False] by blast
    with Suc [of s'] False show ?thesis by auto
  qed
qed

lemma length_picks: "length (picks pick n s) = n"
  by (induction n arbitrary: s) (auto split: prod.split)

end

interpretation round_robin: picker "NewRoundRobinProxyPicker proxies" proxies for proxies
  by unfold_locales (auto simp: NewRoundRobinProxyPicker_def Let_def)

interpretation single: picker "NewSingleProxyPicker proxy" "map Some (case proxy of None \<Rightarrow> [] | Some p \<Rightarrow> [p])"
  for proxy
  by unfold_locales (auto simp: NewSingleProxyPicker_def split: option.splits)

lemma random_picker:
  assumes "\<And>g n. 0 < n \<Longrightarrow> fst (intn g n) < n"
  shows "picker (NewRandomProxyPicker intn proxies) proxies"
proof
  fix s show "proxies = [] \<Longrightarrow> NewRandomProxyPicker intn proxies s = (Inl ErrNoProxyAvailable, s)"
    by (simp add: NewRandomProxyPicker_def)
next
  fix s assume "proxies \<noteq> []"
  then show "\<exists>p s'. NewRandomProxyPicker intn proxies s = (Inr p, s') \<and> p \<in> set proxies"
    using assms [of "length proxies" s] by (auto simp: NewRandomProxyPicker_def split: prod.split)
qed

lemma rr_picks:
  assumes "proxies \<noteq> []" and "unat i + n \<le> 2 ^ 64"
  shows "picks (NewRoundRobinProxyPicker proxies) n i
     = map (\<lambda>j. Inr (proxies ! ((unat i + j) mod length proxies))) [0..<n]"
  using assms(2)
proof (induction n arbitrary: i)
  case 0
  then show ?case by simp
next
  case (Suc n)
  show ?case
  proof (cases "n = 0")
    case True
    with assms(1) show ?thesis by (simp add: NewRoundRobinProxyPicker_def)
  next
    case False
    then have "unat (i + 1) = unat i + 1"
      using Suc.prems unat_add_lem [of i 1] by simp
    with Suc show ?thesis
      using assms(1) by (auto simp: NewRoundRobinProxyPicker_def upt_conv_Cons map_Suc_upt [symmetric]
          simp del: upt_Suc)
  qed
qed

lemma map_mod_rotate: "map (\<lambda>j. xs ! ((a + j) mod length xs)) [0..<length xs] = rotate a xs"
  by (rule nth_equalityI) (simp_all add: nth_rotate)

lemma mset_rotate_eq: "mset (rotate n xs) = mset xs"
proof (induction n)
  case 0
  then show ?case by simp
next
  case (Suc n)
  have "mset (rotate1 ys) = mset ys" for ys :: "'a list" by (cases ys) simp_all
  with Suc show ?case by simp
qed

text \<open>
  C31: the round-robin picker rotates: up to the wrap of its 64-bit counter, the \<open>j\<close>-th of \<open>n\<close>
  picks from counter \<open>i\<close> is entry \<open>(i + j) mod len\<close>, and any \<open>len\<close> picks in a row use every entry
  exactly as often as the list holds it. An empty list gives \<^verbatim>\<open>ErrNoProxyAvailable\<close>.
\<close>

theorem round_robin_rotates:
  assumes "unat i + n \<le> 2 ^ 64"
  shows "if proxies = [] then picks (NewRoundRobinProxyPicker proxies) n i = replicate n (Inl ErrNoProxyAvailable)
    else picks (NewRoundRobinProxyPicker proxies) n i
           = map (\<lambda>j. Inr (proxies ! ((unat i + j) mod length proxies))) [0..<n]
         \<and> (if n = length proxies
            then mset (picks (NewRoundRobinProxyPicker proxies) n i) = image_mset Inr (mset proxies) else True)"
proof (cases "proxies = []")
  case True
  have "picks (NewRoundRobinProxyPicker []) n i = replicate n (Inl ErrNoProxyAvailable)" for n i
    by (induction n arbitrary: i) (simp_all add: NewRoundRobinProxyPicker_def)
  with True show ?thesis by simp
next
  case False
  note eq = rr_picks [OF False assms]
  have "mset (picks (NewRoundRobinProxyPicker proxies) n i) = image_mset Inr (mset proxies)" if "n = length proxies"
  proof -
    have "picks (NewRoundRobinProxyPicker proxies) n i = map Inr (rotate (unat i) proxies)"
      unfolding eq unfolding that map_mod_rotate [symmetric] by simp
    then show ?thesis by (simp add: mset_rotate_eq)
  qed
  with eq False show ?thesis by simp
qed

definition ex_proxy :: ProxyConfig where
  "ex_proxy = \<lparr>Type = ''http'', PHost = ''10.0.0.1'', PPort = 8080, Username = Some ''bob'',
     Password = Some ''s:3''\<rparr>"

lemma round_robin_rotates_witness:
  "picks (NewRoundRobinProxyPicker [None, Some ex_proxy]) 2 7 = [Inr (Some ex_proxy), Inr None]"
  using round_robin_rotates [of 7 2 "[None, Some ex_proxy]"]
  by (simp add: upt_rec numeral_2_eq_2 [symmetric])

text \<open>
  Every picker returns only entries of its list, for any number of picks; the random picker
  under the documented contract of \<^verbatim>\<open>Intn\<close>.
\<close>

theorem pickers_return_members:
  assumes "\<And>g n. 0 < n \<Longrightarrow> fst (intn g n) < n" and "proxies \<noteq> []"
  shows "set (picks (NewRandomProxyPicker intn proxies) n g) \<subseteq> Inr ` set proxies
    \<and> set (picks (NewRoundRobinProxyPicker proxies) n i) \<subseteq> Inr ` set proxies
    \<and> picks (NewSingleProxyPicker (Some p)) n u = replicate n (Inr (Some p))"
proof (intro conjI)
  show "set (picks (NewRandomProxyPicker intn proxies) n g) \<subseteq> Inr ` set proxies"
    using picker.picks_results [OF random_picker [where intn = intn and proxies = proxies, OF assms(1)], of n g] assms(2)
    by simp
  show "set (picks (NewRoundRobinProxyPicker proxies) n i) \<subseteq> Inr ` set proxies"
    using round_robin.picks_results [of proxies n i] assms(2) by simp
  show "picks (NewSingleProxyPicker (Some p)) n u = replicate n (Inr (Some p))"
    by (induction n) (simp_all add: NewSingleProxyPicker_def)
qed

lemma pickers_return_members_witness:
  "set (picks (NewRandomProxyPicker (\<lambda>g n. (g mod n, Suc g)) [None]) 3 (5 :: nat)) \<subseteq> Inr ` set [None]
    \<and> set (picks (NewRoundRobinProxyPicker [None]) 3 0) \<subseteq> Inr ` set [None]
    \<and> picks (NewSingleProxyPicker (Some ex_proxy)) 3 () = replicate 3 (Inr (Some ex_proxy))"
  by (rule pickers_return_members) simp_all

subsection \<open>The textual form\<close>

definition user_char :: "char \<Rightarrow> bool" where
  "user_char c \<longleftrightarrow> userinfo_char c \<and> c \<noteq> CHR ''%'' \<and> c \<noteq> CHR '':''"

definition pass_char :: "char \<Rightarrow> bool" where
  "pass_char c \<longleftrightarrow> userinfo_char c \<and> c \<noteq> CHR ''%''"

text \<open>A configuration whose fields need no escaping in a URL.\<close>

definition url_safe :: "ProxyConfig \<Rightarrow> bool" where
  "url_safe c \<longleftrightarrow> list_all host_char (PHost c) \<and> pred_option (list_all user_char) (Username c)
     \<and> pred_option (list_all pass_char) (Password c)"

lemma userinfo_char_graphic:
  assumes "userinfo_char c"
  shows "graphic c \<and> c \<noteq> CHR ''/'' \<and> c \<noteq> CHR ''?'' \<and> c \<noteq> CHR ''#''"
proof -
  have "list_all graphic (''-._:~!$&()*+,;=%@'' @ [CHR 39])" by (simp add: graphic_def)
  with assms not_alnum_special alnum_graphic show ?thesis
    by (auto simp: userinfo_char_def list_all_iff)
qed

lemma ProxyTypeFromString_valid:
  assumes "ProxyType_IsValid t"
  shows "ProxyTypeFromString (to_lower t) = Inr t" "list_all alnum t" "t \<noteq> []" "alpha (hd t)"
proof -
  have "to_lower t = t"
    using assms by (auto simp: ProxyType_IsValid_def proxy_types to_lower_ascii ascii_lower_def)
  moreover show al: "list_all alnum t" "t \<noteq> []" "alpha (hd t)"
    using assms by (auto simp: ProxyType_IsValid_def proxy_types alnum_def alpha_def)
  moreover have "trim_space t = t"
    using al(1) alnum_graphic by (intro trim_space_graphic) (auto simp: list_all_iff)
  ultimately show "ProxyTypeFromString (to_lower t) = Inr t"
    using assms by (auto simp: ProxyTypeFromString_def ProxyType_IsValid_def proxy_types)
qed

lemma safe_userinfo: "list_all user_char u \<Longrightarrow> list_all userinfo_char u"
  by (erule list.pred_mono_strong) (simp add: user_char_def)

lemma safe_userinfo_pass: "list_all pass_char p \<Longrightarrow> list_all userinfo_char p"
  by (erule list.pred_mono_strong) (simp add: pass_char_def)

lemma userinfo_colon_at: "userinfo_char CHR '':''" "userinfo_char CHR ''@''"
  by (simp_all add: userinfo_char_def)

lemma parse_userinfo_safe:
  assumes "list_all user_char u" and "list_all pass_char p"
  shows "parse_userinfo (u @ '':'' @ p) = Some (u, Some p)"
proof -
  have colon: "CHR '':'' \<notin> set u" and pct: "CHR ''%'' \<notin> set u" "CHR ''%'' \<notin> set p"
    using assms by (auto simp: list_all_iff user_char_def pass_char_def)
  have "list_all userinfo_char (u @ '':'' @ p)"
    using safe_userinfo [OF assms(1)] safe_userinfo_pass [OF assms(2)] userinfo_colon_at by simp
  moreover have "unescape encodeUserPassword u = Some u" "unescape encodeUserPassword p = Some p"
    using pct by (auto intro!: unescape_plain)
  ultimately show ?thesis
    using cut_at_char [OF colon, of p] by (simp add: parse_userinfo_def contains_char)
qed

lemma parse_authority_safe:
  assumes h: "list_all host_char h" and d: "list_all digit d"
    and u: "list_all user_char u" and p: "list_all pass_char p"
  shows "parse_authority (join_host_port h d) = Some (None, join_host_port h d)"
    "parse_authority (u @ '':'' @ p @ ''@'' @ join_host_port h d) = Some (Some (u, Some p), join_host_port h d)"
proof -
  have at: "CHR ''@'' \<notin> set (join_host_port h d)"
    using join_host_port_chars [OF h d, of "CHR ''@''"] by auto
  then show "parse_authority (join_host_port h d) = Some (None, join_host_port h d)"
    by (simp add: parse_authority_def last_index_notin parse_host_join [OF h d])
  show "parse_authority (u @ '':'' @ p @ ''@'' @ join_host_port h d) = Some (Some (u, Some p), join_host_port h d)"
    using last_index_append [OF at, of "u @ '':'' @ p"] parse_userinfo_safe [OF u p]
    by (simp add: parse_authority_def parse_host_join [OF h d])
qed

lemma safe_authority_chars:
  assumes "list_all host_char h" and "list_all digit d" and "list_all user_char u" and "list_all pass_char p"
  shows "list_all (\<lambda>c. graphic c \<and> c \<noteq> CHR ''/'' \<and> c \<noteq> CHR ''?'' \<and> c \<noteq> CHR ''#'')
     (u @ '':'' @ p @ ''@'' @ join_host_port h d)"
proof -
  let ?P = "\<lambda>c. graphic c \<and> c \<noteq> CHR ''/'' \<and> c \<noteq> CHR ''?'' \<and> c \<noteq> CHR ''#''"
  have ui: "list_all ?P s" if "list_all userinfo_char s" for s
    using that userinfo_char_graphic by (rule list.pred_mono_strong)
  have "list_all ?P (join_host_port h d)"
    using join_host_port_chars [OF assms(1,2)] by (auto simp: list_all_iff)
  with ui [OF safe_userinfo [OF assms(3)]] ui [OF safe_userinfo_pass [OF assms(4)]] show ?thesis
    by (simp add: graphic_def)
qed

lemma url_parse_safe:
  assumes t: "list_all alnum t" "t \<noteq> []" "alpha (hd t)"
    and a: "list_all (\<lambda>c. graphic c \<and> c \<noteq> CHR ''/'' \<and> c \<noteq> CHR ''?'' \<and> c \<noteq> CHR ''#'') a"
    and pa: "parse_authority a = Some (ui, h)"
  shows "url_parse (t @ ''://'' @ a) = Inr (empty_url\<lparr>Scheme := to_lower t, User := ui, Host := h\<rparr>)"
    "list_all graphic (t @ ''://'' @ a)"
proof -
  have g: "list_all graphic a" using a by (rule list.pred_mono_strong) simp
  have tg: "list_all graphic t" using t(1) alnum_graphic by (rule list.pred_mono_strong)
  show "url_parse (t @ ''://'' @ a) = Inr (empty_url\<lparr>Scheme := to_lower t, User := ui, Host := h\<rparr>)"
    using a by (intro url_parse_authority_only [OF t g _ _ _ pa]) (auto simp: list_all_iff)
  show "list_all graphic (t @ ''://'' @ a)" using g tg by (simp add: graphic_def)
qed

lemma url_parse_URLString:
  assumes v: "IsValid c" and s: "url_safe c"
  shows "url_parse (URLString c) = Inr (empty_url\<lparr>Scheme := to_lower (Type c),
     User := (case (Username c, Password c) of (Some u, Some p) \<Rightarrow> Some (u, Some p) | _ \<Rightarrow> None),
     Host := Address c\<rparr>) \<and> list_all graphic (URLString c)"
proof -
  have t: "list_all alnum (Type c)" "Type c \<noteq> []" "alpha (hd (Type c))"
    using v ProxyTypeFromString_valid by (auto simp: IsValid_def split: if_splits)
  have h: "list_all host_char (PHost c)" using s by (simp add: url_safe_def)
  have d: "list_all digit (itoa (PPort c))"
    using v digits_show_nat by (auto simp: IsValid_def itoa_def split: if_splits)
  consider (no) "Username c = None" "Password c = None"
    | (auth) u p where "Username c = Some u" "Password c = Some p"
    using v by (auto simp: IsValid_def split: if_splits option.splits)
  then show ?thesis
  proof cases
    case no
    have "list_all (\<lambda>c. graphic c \<and> c \<noteq> CHR ''/'' \<and> c \<noteq> CHR ''?'' \<and> c \<noteq> CHR ''#'') (Address c)"
      using safe_authority_chars [OF h d, of "[]" "[]"] by (simp add: Address_def)
    moreover have "parse_authority (Address c) = Some (None, Address c)"
      unfolding Address_def by (rule parse_authority_safe(1) [OF h d, of "[]" "[]"]) simp_all
    ultimately have "url_parse (Type c @ ''://'' @ Address c)
        = Inr (empty_url\<lparr>Scheme := to_lower (Type c), User := None, Host := Address c\<rparr>)"
      "list_all graphic (Type c @ ''://'' @ Address c)"
      by (rule url_parse_safe [OF t])+
    with no show ?thesis by (simp add: URLString_def)
  next
    case auth
    have u: "list_all user_char u" "list_all pass_char p" using s auth by (simp_all add: url_safe_def)
    have "list_all (\<lambda>c. graphic c \<and> c \<noteq> CHR ''/'' \<and> c \<noteq> CHR ''?'' \<and> c \<noteq> CHR ''#'') (u @ '':'' @ p @ ''@'' @ Address c)"
      unfolding Address_def by (rule safe_authority_chars [OF h d u])
    moreover have "parse_authority (u @ '':'' @ p @ ''@'' @ Address c) = Some (Some (u, Some p), Address c)"
      unfolding Address_def by (rule parse_authority_safe(2) [OF h d u])
    ultimately have "url_parse (Type c @ ''://'' @ u @ '':'' @ p @ ''@'' @ Address c)
        = Inr (empty_url\<lparr>Scheme := to_lower (Type c), User := Some (u, Some p), Host := Address c\<rparr>)"
      "list_all graphic (Type c @ ''://'' @ u @ '':'' @ p @ ''@'' @ Address c)"
      by (rule url_parse_safe [OF t])+
    with auth show ?thesis by (simp add: URLString_def)
  qed
qed

lemma parse_URLString:
  assumes "IsValid c" and "url_safe c"
  shows "ParseProxyConfig (URLString c) = Inr c"
proof -
  note up = url_parse_URLString [OF assms]
  have t: "ProxyType_IsValid (Type c)" and p: "0 < PPort c" "PPort c \<le> 65535"
    using assms(1) by (auto simp: IsValid_def split: if_splits)
  have h: "list_all host_char (PHost c)" using assms(2) by (simp add: url_safe_def)
  have d: "list_all digit (itoa (PPort c))" using p digits_show_nat by (simp add: itoa_def)
  have trim: "trim_space (PHost c) = PHost c" "trim_space (itoa (PPort c)) = itoa (PPort c)"
    using h d host_char_plain(1) digit_plain(1) by (intro trim_space_graphic; auto simp: list_all_iff)+
  have hp: "split_host_port_url (Address c) = (PHost c, itoa (PPort c))"
    unfolding Address_def by (rule split_host_port_url_join [OF h d])
  have "int64_range (PPort c)" using p by (simp add: int64_range_def)
  then have port: "atoi (itoa (PPort c)) = Some (PPort c)" "itoa (PPort c) \<noteq> []"
    by (simp add: atoi_itoa) (simp add: itoa_def)
  have host: "PHost c \<noteq> []" using assms(1) by (auto simp: IsValid_def split: if_splits)
  have creds: "trimStringPtr (Username c) = Username c" "trimStringPtr (Password c) = Password c"
    using assms(2) userinfo_char_graphic
    by (auto simp: url_safe_def trimStringPtr_def user_char_def pass_char_def list_all_iff
        intro!: trim_space_graphic option.map_ident_strong split: option.splits)
  have raw: "trim_space (URLString c) = URLString c" using up trim_space_graphic by blast
  have "URLString c \<noteq> []" by (simp add: URLString_def)
  moreover have "(case (Username c, Password c) of (Some u, Some p) \<Rightarrow> u \<noteq> [] \<and> p \<noteq> [] | (None, None) \<Rightarrow> True | _ \<Rightarrow> False)"
    using assms(1) by (auto simp: IsValid_def split: if_splits option.splits)
  ultimately have "parseProxyString (URLString c) = Inr (Type c, PHost c, PPort c, Username c, Password c)"
    using up raw hp trim port host ProxyTypeFromString_valid(1) [OF t] split_host_port_join [OF h d]
    by (auto simp: parseProxyString_def Hostname_def Port_def Let_def split: option.splits)
  moreover have "IsValid \<lparr>Type = Type c, PHost = PHost c, PPort = PPort c, Username = Username c, Password = Password c\<rparr>"
    using assms(1) by (cases c) simp
  ultimately show ?thesis
    using trim(1) creds by (simp add: ParseProxyConfig_def NewProxyConfig_def Let_def)
qed

text \<open>
  C25: the textual form of a valid configuration parses back to the same configuration, whenever
  the host is a name or an address without a zone and the credentials use only characters that a
  URL carries unescaped.
\<close>

theorem proxy_url_round_trip:
  assumes "IsValid c" and "url_safe c"
  shows "ParseProxyConfig (URLString c) = Inr c"
  using assms by (rule parse_URLString)

lemma proxy_url_round_trip_witness: "ParseProxyConfig (URLString ex_proxy) = Inr ex_proxy"
  by (rule proxy_url_round_trip)
    (simp_all add: ex_proxy_def IsValid_def ProxyType_IsValid_def proxy_types url_safe_def host_char_def
      user_char_def pass_char_def userinfo_char_def alnum_def graphic_def trim_space_graphic)

text \<open>
  What \<^verbatim>\<open>ParseProxyConfig\<close> returns is valid and normalised: a known type, a non-empty trimmed
  host, a port in 1..65535, and either no credentials or a non-empty trimmed user and password.
\<close>

theorem parsed_proxy_valid:
  assumes "ParseProxyConfig s = Inr c"
  shows "ProxyType_IsValid (Type c) \<and> PHost c \<noteq> [] \<and> trim_space (PHost c) = PHost c
    \<and> 1 \<le> PPort c \<and> PPort c \<le> 65535
    \<and> (case (Username c, Password c) of
         (None, None) \<Rightarrow> True
       | (Some u, Some p) \<Rightarrow> u \<noteq> [] \<and> p \<noteq> [] \<and> trim_space u = u \<and> trim_space p = p
       | _ \<Rightarrow> False)"
  using assms
  by (auto simp: ParseProxyConfig_def NewProxyConfig_def IsValid_def trimStringPtr_def Let_def
      split: sum.splits if_splits option.splits)

lemma ex_proxy_text: "URLString ex_proxy = ''http://bob:s:3@10.0.0.1:8080''"
  by (simp add: ex_proxy_def URLString_def Address_def join_host_port_def itoa_def show_nat.simps)

lemma ex_proxy_parses: "ParseProxyConfig ''http://bob:s:3@10.0.0.1:8080'' = Inr ex_proxy"
  unfolding ex_proxy_text [symmetric]
  by (rule parse_URLString)
    (simp_all add: ex_proxy_def IsValid_def ProxyType_IsValid_def proxy_types url_safe_def host_char_def
      user_char_def pass_char_def userinfo_char_def alnum_def graphic_def trim_space_graphic)

lemma parsed_proxy_valid_witness:
  "ProxyType_IsValid (Type ex_proxy) \<and> PHost ex_proxy \<noteq> [] \<and> trim_space (PHost ex_proxy) = PHost ex_proxy
    \<and> 1 \<le> PPort ex_proxy \<and> PPort ex_proxy \<le> 65535
    \<and> (case (Username ex_proxy, Password ex_proxy) of
         (None, None) \<Rightarrow> True
       | (Some u, Some p) \<Rightarrow> u \<noteq> [] \<and> p \<noteq> [] \<and> trim_space u = u \<and> trim_space p = p
       | _ \<Rightarrow> False)"
  by (rule parsed_proxy_valid [OF ex_proxy_parses])

text \<open>
  \<^verbatim>\<open>String\<close> and the error of \<^verbatim>\<open>NewProxyConfig\<close> do not depend on the password: two
  configurations that differ only in it have the same text.
\<close>

theorem proxy_string_hides_password:
  "ProxyConfig_String (c\<lparr>Password := Some p\<rparr>) = ProxyConfig_String (c\<lparr>Password := Some q\<rparr>)
   \<and> (case (NewProxyConfig t h port (Some u) (Some p), NewProxyConfig t h port (Some u) (Some q)) of
        (Inl e, Inl e') \<Rightarrow> e = e' | _ \<Rightarrow> True)"
  by (auto simp: ProxyConfig_String_def Address_def NewProxyConfig_def Let_def trimStringPtr_def
      split: option.split sum.split if_splits)

text \<open>
  \<^verbatim>\<open>URLString\<close> does not escape the credentials: a valid configuration whose password holds a
  slash has a textual form that is rejected.
\<close>

theorem proxy_url_unescaped_credentials:
  "IsValid (ex_proxy\<lparr>Password := Some ''a/b''\<rparr>)
   \<and> ParseProxyConfig (URLString (ex_proxy\<lparr>Password := Some ''a/b''\<rparr>)) = Inl (Errorf ''invalid proxy string'')
   \<and> ParseProxyConfig ''socks4://user@host:1080'' = Inl (Errorf ''invalid proxy auth'')
   \<and> ParseProxyConfig ''host:1080'' = Inl (Errorf ''invalid proxy type: host'')"
  by code_simp

end
