(* ===== verification/Socks.thy ===== *)
theory Socks
  imports Proxy Tcp_Client
begin

text \<open>
  The SOCKS client handshakes of \<^verbatim>\<open>network/handler/socks4_handler.go\<close> and
  \<^verbatim>\<open>socks5_handler.go\<close>, run over a connection whose peer is arbitrary. The handlers are called
  with a dialled connection, so the nil test on it has no counterpart.
\<close>

definition nul :: char where
  "nul = CHR 0x00"

subsection \<open>SOCKS4 and SOCKS4a\<close>

definition socks4ReplyError :: "byte \<Rightarrow> string" where
  "socks4ReplyError code =
     (if code = 0x5B then ''request rejected or failed''
      else if code = 0x5C then ''request failed because client is not running identd''
      else if code = 0x5D then ''request failed because client identd could not confirm userid''
      else ''unknown error code '' @ show_nat (unat code))"

definition socks4_request :: "string \<Rightarrow> string \<Rightarrow> int \<Rightarrow> byte list" where
  "socks4_request username host port =
     [0x04, 0x01] @ be_bytes 2 (word_of_int port :: 16 word)
     @ (case parse_ip_to4 host of
          Some ip4 \<Rightarrow> ip4 @ bytes_of username @ [0x00]
        | None \<Rightarrow> [0x00, 0x00, 0x00, 0x01] @ bytes_of username @ [0x00] @ bytes_of host @ [0x00])"

definition Socks4HandlerConn :: "ProxyConfig option \<Rightarrow> string \<Rightarrow> int \<Rightarrow> (nconn, unit) io" where
  "Socks4HandlerConn proxyConfig host0 port =
     (case proxyConfig of
        None \<Rightarrow> failE (Errorf ''nil proxy config'')
      | Some cfg \<Rightarrow>
      let host = trim_space host0;
          username = (case Username cfg of None \<Rightarrow> [] | Some u \<Rightarrow> u) in
      bindE (guardE (host \<noteq> []) (Errorf ''empty destination host'')) (\<lambda>_.
      bindE (guardE (\<not> (port \<le> 0 \<or> 65535 < port))
               (Errorf (''invalid destination port: '' @ itoa port))) (\<lambda>_.
      bindE (guardE (\<not> contains username [nul]) (Errorf ''socks4 userid contains null byte'')) (\<lambda>_.
      bindE (guardE (\<not> contains host [nul]) (Errorf ''socks4 host contains null byte'')) (\<lambda>_.
      bindE (conn_write_all (socks4_request username host port)) (\<lambda>_.
      bindE (conn_read_full 8) (\<lambda>resp.
      bindE (guardE (resp ! 0 = 0x00)
               (Errorf (''invalid socks4 response version: '' @ show_nat (unat (resp ! 0))))) (\<lambda>_.
      guardE (resp ! 1 = 0x5A)
        (Errorf (''socks4 connect failed: '' @ socks4ReplyError (resp ! 1)))))))))))"

subsection \<open>SOCKS5\<close>

definition socks5ReplyError :: "byte \<Rightarrow> string" where
  "socks5ReplyError code =
     (if code = 0x01 then ''general SOCKS server failure''
      else if code = 0x02 then ''connection not allowed by ruleset''
      else if code = 0x03 then ''network unreachable''
      else if code = 0x04 then ''host unreachable''
      else if code = 0x05 then ''connection refused''
      else if code = 0x06 then ''TTL expired''
      else if code = 0x07 then ''command not supported''
      else if code = 0x08 then ''address type not supported''
      else ''unknown error code '' @ show_nat (unat code))"

definition has_credentials :: "ProxyConfig \<Rightarrow> bool" where
  "has_credentials cfg \<longleftrightarrow> Username cfg \<noteq> None \<and> Password cfg \<noteq> None"

definition socks5_greeting :: "ProxyConfig \<Rightarrow> byte list" where
  "socks5_greeting cfg =
     (let methods = [0x00] @ (if has_credentials cfg then [0x02] else [])
      in [0x05, word_of_nat (length methods)] @ methods)"

definition socks5_auth :: "ProxyConfig \<Rightarrow> byte list" where
  "socks5_auth cfg =
     (let u = bytes_of (the (Username cfg)); p = bytes_of (the (Password cfg))
      in [0x01, word_of_nat (length u)] @ u @ [word_of_nat (length p)] @ p)"

definition socks5_request :: "string \<Rightarrow> int \<Rightarrow> byte list" where
  "socks5_request host port =
     [0x05, 0x01, 0x00, 0x03, word_of_nat (length host)] @ bytes_of host
     @ be_bytes 2 (word_of_int port :: 16 word)"

text \<open>The method negotiation with the user/password exchange, then the CONNECT exchange.\<close>

definition socks5_negotiate :: "ProxyConfig \<Rightarrow> (nconn, unit) io" where
  "socks5_negotiate cfg =
     bindE (conn_write_all (socks5_greeting cfg)) (\<lambda>_.
     bindE (conn_read_full 2) (\<lambda>resp.
     bindE (guardE (resp ! 0 = 0x05)
              (Errorf (''invalid socks version: '' @ show_nat (unat (resp ! 0))))) (\<lambda>_.
     bindE (guardE (resp ! 1 \<noteq> 0xFF) (Errorf ''socks method rejected'')) (\<lambda>_.
     bindE (guardE (resp ! 1 = 0x00 \<or> resp ! 1 = 0x02)
              (Errorf (''unsupported socks auth method selected: '' @ show_nat (unat (resp ! 1))))) (\<lambda>_.
     if resp ! 1 = 0x02 then
       bindE (guardE (has_credentials cfg)
                (Errorf ''socks proxy requested auth but credentials are missing'')) (\<lambda>_.
       bindE (conn_write_all (socks5_auth cfg)) (\<lambda>_.
       bindE (conn_read_full 2) (\<lambda>auth.
       guardE (\<not> (auth ! 0 \<noteq> 0x01 \<or> auth ! 1 \<noteq> 0x00)) (Errorf ''socks auth failed''))))
     else returnE ())))))"

definition socks5_connect :: "string \<Rightarrow> int \<Rightarrow> (nconn, unit) io" where
  "socks5_connect host port =
     bindE (conn_write_all (socks5_request host port)) (\<lambda>_.
     bindE (conn_read_full 4) (\<lambda>head.
     bindE (guardE (head ! 0 = 0x05)
              (Errorf (''invalid socks response version: '' @ show_nat (unat (head ! 0))))) (\<lambda>_.
     bindE (guardE (head ! 1 = 0x00)
              (Errorf (''socks connect failed: '' @ socks5ReplyError (head ! 1)))) (\<lambda>_.
     bindE (guardE (head ! 2 = 0x00)
              (Errorf (''invalid socks reserved byte: '' @ show_nat (unat (head ! 2))))) (\<lambda>_.
     bindE (if head ! 3 = 0x01 then returnE 4
            else if head ! 3 = 0x04 then returnE 16
            else if head ! 3 = 0x03 then bindE (conn_read_full 1) (\<lambda>l. returnE (unat (l ! 0)))
            else failE (Errorf (''unsupported socks address type: '' @ show_nat (unat (head ! 3)))))
     (\<lambda>skip.
     bindE (conn_read_full (skip + 2)) (\<lambda>_. returnE ())))))))"

definition Socks5HandlerConn :: "ProxyConfig option \<Rightarrow> string \<Rightarrow> int \<Rightarrow> (nconn, unit) io" where
  "Socks5HandlerConn proxyConfig host0 port =
     (case proxyConfig of
        None \<Rightarrow> failE (Errorf ''nil proxy config'')
      | Some cfg \<Rightarrow>
      let host = trim_space host0 in
      bindE (guardE (host \<noteq> []) (Errorf ''empty destination host'')) (\<lambda>_.
      bindE (guardE (\<not> 255 < length host) (Errorf ''host too long'')) (\<lambda>_.
      bindE (guardE (\<not> (port \<le> 0 \<or> 65535 < port))
               (Errorf (''invalid destination port: '' @ itoa port))) (\<lambda>_.
      bindE (guardE (\<not> (has_credentials cfg \<and> 255 < length (the (Username cfg))))
               (Errorf ''socks username too long'')) (\<lambda>_.
      bindE (guardE (\<not> (has_credentials cfg \<and> 255 < length (the (Password cfg))))
               (Errorf ''socks password too long'')) (\<lambda>_.
      bindE (socks5_negotiate cfg) (\<lambda>_.
      socks5_connect host port)))))))"

subsection \<open>One exchange\<close>

text \<open>On a connection that takes writes, a step either fails or advances the stream.\<close>

definition advances :: "nconn \<Rightarrow> byte list \<Rightarrow> byte list \<Rightarrow> nconn \<Rightarrow> bool" where
  "advances c out inp c' \<longleftrightarrow> nregular c' \<and> nwrites_all c' \<and> nsent c' = nsent c @ out
     \<and> nstream c = (inp @ fst (nstream c'), snd (nstream c')) \<and> socket_open c' = socket_open c"

lemma advances_trans:
  "advances c o1 i1 d \<Longrightarrow> advances d o2 i2 e \<Longrightarrow> advances c (o1 @ o2) (i1 @ i2) e"
  by (simp add: advances_def)

lemma conn_read_full_writes [simp]: "nwrites_all (snd (conn_read_full n c)) = nwrites_all c"
proof -
  have "snd (conn_read_full n c) = snd (read_full_loop (Suc (nbudget c)) nread n [] c)"
    by (auto simp: conn_read_full_def split: prod.split option.split)
  then show ?thesis
    using read_full_loop_frame [of nwrites_all nread "Suc (nbudget c)" n "[]" c]
    by (simp del: read_full_loop.simps)
qed

lemma write_advances:
  assumes "nregular c" and "nwrites_all c"
  shows "\<exists>c'. conn_write_all b c = (Inr (), c') \<and> advances c b [] c'"
  using nwrite_all [OF assms(2), of b] assms by (fastforce simp: conn_write_all_def advances_def)

lemma read_advances:
  assumes "nregular c" and "nwrites_all c" and "conn_read_full n c = (Inr d, c')"
  shows "length d = n \<and> advances c [] d c'"
  using conn_read_full_cases [OF assms(1,3)] conn_read_full_frame [of n c] conn_read_full_writes [of n c] assms
  by (simp add: advances_def)

lemma read_advances_ok:
  assumes "nregular c" and "nwrites_all c" and "nstream c = (d @ rest, e)" and "length d = n"
  shows "\<exists>c'. conn_read_full n c = (Inr d, c') \<and> advances c [] d c' \<and> nstream c' = (rest, e)"
  using conn_read_full_ok [OF assms(1,3,4)] read_advances [OF assms(1,2)] by auto

lemma advances_invar: "advances c out inp c' \<Longrightarrow> nregular c' \<and> nwrites_all c'"
  by (simp add: advances_def)

text \<open>Write, then read \<open>n\<close> bytes: what follows sees \<open>n\<close> bytes of the stream.\<close>

lemma exchange_sound:
  assumes c: "nregular c" "nwrites_all c"
    and run: "bindE (conn_write_all b) (\<lambda>_. bindE (conn_read_full n) k) c = (Inr x, c')"
  obtains d c1 where "length d = n" "advances c b d c1" "k d c1 = (Inr x, c')"
proof -
  obtain c0 where c0: "conn_write_all b c = (Inr (), c0)" "advances c b [] c0"
    using write_advances [OF c] by blast
  with run obtain d c1 where d: "conn_read_full n c0 = (Inr d, c1)" "k d c1 = (Inr x, c')"
    by (auto simp: bindE_Inr bindE_eq_Inr)
  have "length d = n \<and> advances c0 [] d c1"
    using read_advances [OF _ _ d(1)] advances_invar [OF c0(2)] by blast
  with advances_trans [OF c0(2)] d(2) that show ?thesis by fastforce
qed

lemma exchange_complete:
  assumes c: "nregular c" "nwrites_all c" and st: "nstream c = (d @ rest, e)" "length d = n"
  obtains c0 c1 where "advances c b d c1" "nstream c1 = (rest, e)"
    "conn_write_all b c = (Inr (), c0)" "conn_read_full n c0 = (Inr d, c1)"
proof -
  obtain c0 where c0: "conn_write_all b c = (Inr (), c0)" "advances c b [] c0"
    using write_advances [OF c] by blast
  then have "nstream c0 = (d @ rest, e)" using st by (auto simp: advances_def prod_eq_iff)
  then obtain c1 where c1: "conn_read_full n c0 = (Inr d, c1)" "advances c0 [] d c1" "nstream c1 = (rest, e)"
    using read_advances_ok [OF _ _ _ st(2)] advances_invar [OF c0(2)] by blast
  show ?thesis
    using advances_trans [OF c0(2) c1(2)] c1(3) c0(1) c1(1) by (intro that) simp_all
qed

lemma read_sound:
  assumes "nregular c" "nwrites_all c" and "bindE (conn_read_full n) k c = (Inr x, c')"
  obtains d c1 where "length d = n" "advances c [] d c1" "k d c1 = (Inr x, c')"
proof -
  obtain d c1 where "conn_read_full n c = (Inr d, c1)" "k d c1 = (Inr x, c')"
    using assms(3) by (auto simp: bindE_eq_Inr)
  with read_advances [OF assms(1,2)] that show ?thesis by blast
qed

lemma guardE_eq_Inr: "guardE b e s = (Inr x, t) \<longleftrightarrow> b \<and> t = s"
  by (cases b) auto

subsection \<open>SOCKS4: granted exactly when the peer grants\<close>

definition socks4_args_ok :: "ProxyConfig \<Rightarrow> string \<Rightarrow> int \<Rightarrow> bool" where
  "socks4_args_ok cfg host port \<longleftrightarrow> trim_space host \<noteq> [] \<and> 0 < port \<and> port \<le> 65535
     \<and> \<not> contains (case Username cfg of None \<Rightarrow> [] | Some u \<Rightarrow> u) [nul] \<and> \<not> contains (trim_space host) [nul]"

definition socks4_user :: "ProxyConfig \<Rightarrow> string" where
  "socks4_user cfg = (case Username cfg of None \<Rightarrow> [] | Some u \<Rightarrow> u)"

lemma socks4_run:
  assumes "nregular c" and "nwrites_all c"
  shows "(\<exists>c'. Socks4HandlerConn (Some cfg) host port c = (Inr (), c') \<and> advances c out reply c')
    \<longleftrightarrow> socks4_args_ok cfg host port \<and> out = socks4_request (socks4_user cfg) (trim_space host) port
       \<and> length reply = 8 \<and> reply ! 0 = 0 \<and> reply ! 1 = 0x5A \<and> prefix reply (fst (nstream c))"
    (is "?L \<longleftrightarrow> ?R")
proof
  assume ?L
  then obtain c' where run: "Socks4HandlerConn (Some cfg) host port c = (Inr (), c')" and adv: "advances c out reply c'"
    by blast
  from run have ok: "socks4_args_ok cfg host port"
    and "bindE (conn_write_all (socks4_request (socks4_user cfg) (trim_space host) port)) (\<lambda>_.
      bindE (conn_read_full 8) (\<lambda>resp.
      bindE (guardE (resp ! 0 = 0x00)
               (Errorf (''invalid socks4 response version: '' @ show_nat (unat (resp ! 0))))) (\<lambda>_.
      guardE (resp ! 1 = 0x5A)
        (Errorf (''socks4 connect failed: '' @ socks4ReplyError (resp ! 1)))))) c = (Inr (), c')"
    by (auto simp: Socks4HandlerConn_def Let_def guardE_bind_eq_Inr socks4_args_ok_def socks4_user_def)
  from exchange_sound [OF assms this(2)] obtain d where
    d: "length d = 8" "advances c (socks4_request (socks4_user cfg) (trim_space host) port) d c'" "d ! 0 = 0" "d ! 1 = 0x5A"
    by (auto simp: guardE_bind_eq_Inr guardE_eq_Inr)
  with adv have "d = reply" "out = socks4_request (socks4_user cfg) (trim_space host) port"
    by (auto simp: advances_def)
  with d ok show ?R by (auto simp: advances_def)
next
  assume R: ?R
  then obtain rest where "nstream c = (reply @ rest, snd (nstream c))"
    by (metis prefixE prod.collapse)
  from exchange_complete [OF assms this, of 8 out] R obtain c0 c1 where
    c1: "advances c out reply c1" "conn_write_all out c = (Inr (), c0)" "conn_read_full 8 c0 = (Inr reply, c1)"
    by blast
  with R have "Socks4HandlerConn (Some cfg) host port c = (Inr (), c1)"
    by (simp add: Socks4HandlerConn_def Let_def socks4_args_ok_def socks4_user_def not_le bindE_Inr)
  with c1 show ?L by blast
qed

lemma socks4_success_advances:
  assumes "nregular c" and "nwrites_all c" and "Socks4HandlerConn (Some cfg) host port c = (Inr (), c')"
  shows "\<exists>out reply. advances c out reply c'"
proof -
  from assms(3) have "\<exists>k. bindE (conn_write_all (socks4_request (socks4_user cfg) (trim_space host) port))
      (\<lambda>_. bindE (conn_read_full 8) k) c = (Inr (), c') \<and> (\<forall>d s t. k d s = (Inr (), t) \<longrightarrow> t = s)"
    by (intro exI, intro conjI)
      (auto simp: Socks4HandlerConn_def Let_def guardE_bind_eq_Inr socks4_user_def guardE_eq_Inr)
  then obtain k where k: "bindE (conn_write_all (socks4_request (socks4_user cfg) (trim_space host) port))
      (\<lambda>_. bindE (conn_read_full 8) k) c = (Inr (), c')" "\<And>d s t. k d s = (Inr (), t) \<Longrightarrow> t = s"
    by blast
  from exchange_sound [OF assms(1,2) k(1)] k(2) show ?thesis by metis
qed

text \<open>
  C35: \<^verbatim>\<open>Socks4HandlerConn\<close> succeeds exactly when its arguments are valid and the peer answers with
  eight bytes that start with \<open>0x00 0x5A\<close>. It has then sent exactly the CONNECT request and
  consumed exactly those eight bytes, so the tunnelled stream starts right after them.
\<close>

theorem socks4_succeeds_iff_granted:
  assumes "nregular c" and "nwrites_all c"
  shows "case Socks4HandlerConn (Some cfg) host port c of (r, c') \<Rightarrow>
    (r = Inr () \<longleftrightarrow> socks4_args_ok cfg host port
       \<and> (\<exists>x rest. fst (nstream c) = [0x00, 0x5A] @ x @ rest \<and> length x = 6))
    \<and> (r = Inr () \<longrightarrow> advances c (socks4_request (socks4_user cfg) (trim_space host) port)
         (take 8 (fst (nstream c))) c')"
proof -
  obtain r c' where run: "Socks4HandlerConn (Some cfg) host port c = (r, c')" by force
  have adv: "advances c (socks4_request (socks4_user cfg) (trim_space host) port) (take 8 (fst (nstream c))) c'
      \<and> socks4_args_ok cfg host port \<and> (\<exists>x rest. fst (nstream c) = [0x00, 0x5A] @ x @ rest \<and> length x = 6)"
    if r: "r = Inr ()"
  proof -
    obtain out reply where a: "advances c out reply c'"
      using socks4_success_advances [OF assms] run r by blast
    with socks4_run [OF assms, of cfg host port out reply] run r
    have R: "socks4_args_ok cfg host port" "out = socks4_request (socks4_user cfg) (trim_space host) port"
      "length reply = 8" "reply ! 0 = 0" "reply ! 1 = 0x5A" "prefix reply (fst (nstream c))" by auto
    then obtain rest where "fst (nstream c) = reply @ rest" by (auto elim: prefixE)
    moreover obtain x where "reply = [0x00, 0x5A] @ x" "length x = 6"
      using R(3-5) by (auto simp: length_Suc_conv numeral_eq_Suc)
    ultimately show ?thesis using a R(1,2) by auto
  qed
  moreover have "r = Inr ()" if "socks4_args_ok cfg host port"
    "fst (nstream c) = [0x00, 0x5A] @ x @ rest" "length x = 6" for x rest
    using socks4_run [OF assms, of cfg host port "socks4_request (socks4_user cfg) (trim_space host) port"
        "[0x00, 0x5A] @ x"] that run by auto
  ultimately show ?thesis using run by auto
qed

subsection \<open>SOCKS5: connected exactly when the peer accepts\<close>

definition socks5_args_ok :: "ProxyConfig \<Rightarrow> string \<Rightarrow> int \<Rightarrow> bool" where
  "socks5_args_ok cfg host port \<longleftrightarrow> trim_space host \<noteq> [] \<and> length (trim_space host) \<le> 255
     \<and> 0 < port \<and> port \<le> 65535
     \<and> (has_credentials cfg \<longrightarrow> length (the (Username cfg)) \<le> 255 \<and> length (the (Password cfg)) \<le> 255)"

text \<open>
  The answers a SOCKS5 client accepts (RFC 1928 and RFC 1929): a method it offered, with a
  successful sub-negotiation for user and password, and a success reply with a bound address of
  any of the three types.
\<close>

definition method_answer :: "ProxyConfig \<Rightarrow> byte list \<Rightarrow> bool" where
  "method_answer cfg a \<longleftrightarrow> a = [0x05, 0x00] \<or> a = [0x05, 0x02, 0x01, 0x00] \<and> has_credentials cfg"

definition connect_answer :: "byte list \<Rightarrow> bool" where
  "connect_answer a \<longleftrightarrow>
     (\<exists>addr. a = [0x05, 0x00, 0x00, 0x01] @ addr \<and> length addr = 6)
     \<or> (\<exists>addr. a = [0x05, 0x00, 0x00, 0x04] @ addr \<and> length addr = 18)
     \<or> (\<exists>l addr. a = [0x05, 0x00, 0x00, 0x03, l] @ addr \<and> length addr = unat l + 2)"

definition negotiation_out :: "ProxyConfig \<Rightarrow> byte list \<Rightarrow> byte list" where
  "negotiation_out cfg a = socks5_greeting cfg @ (if a = [0x05, 0x00] then [] else socks5_auth cfg)"

lemma length_2E: assumes "length d = 2" obtains x y where "d = [x, y]"
  using assms by (auto simp: length_Suc_conv numeral_eq_Suc)

lemma length_4E: assumes "length d = 4" obtains w x y z where "d = [w, x, y, z]"
  using assms by (auto simp: length_Suc_conv numeral_eq_Suc)

lemma length_1E: assumes "length d = 1" obtains x where "d = [x]"
  using assms by (auto simp: length_Suc_conv)

lemma socks5_negotiate_sound:
  assumes c: "nregular c" "nwrites_all c" and run: "socks5_negotiate cfg c = (Inr (), c')"
  shows "\<exists>a. method_answer cfg a \<and> advances c (negotiation_out cfg a) a c'"
proof -
  from exchange_sound [OF c run [unfolded socks5_negotiate_def]] obtain d c1 where
    d: "length d = 2" "advances c (socks5_greeting cfg) d c1" "d ! 0 = 5" "d ! 1 = 0 \<or> d ! 1 = 2"
    and cont: "(if d ! 1 = 0x02 then
       bindE (guardE (has_credentials cfg)
                (Errorf ''socks proxy requested auth but credentials are missing'')) (\<lambda>_.
       bindE (conn_write_all (socks5_auth cfg)) (\<lambda>_.
       bindE (conn_read_full 2) (\<lambda>auth.
       guardE (\<not> (auth ! 0 \<noteq> 0x01 \<or> auth ! 1 \<noteq> 0x00)) (Errorf ''socks auth failed''))))
     else returnE ()) c1 = (Inr (), c')"
    by (simp only: guardE_bind_eq_Inr) blast
  show ?thesis
  proof (cases "d ! 1 = 2")
    case False
    with d cont have "d = [5, 0]" "c' = c1" by (auto elim!: length_2E)
    with d show ?thesis by (auto simp: method_answer_def negotiation_out_def)
  next
    case True
    from cont True have cred: "has_credentials cfg"
      and "bindE (conn_write_all (socks5_auth cfg)) (\<lambda>_. bindE (conn_read_full 2) (\<lambda>auth.
         guardE (\<not> (auth ! 0 \<noteq> 0x01 \<or> auth ! 1 \<noteq> 0x00)) (Errorf ''socks auth failed''))) c1 = (Inr (), c')"
      by (simp_all only: guardE_bind_eq_Inr if_True simp_thms)
    from exchange_sound [OF _ _ this(2)] advances_invar [OF d(2)] obtain e c2 where
      e: "length e = 2" "advances c1 (socks5_auth cfg) e c2" "e ! 0 = 1" "e ! 1 = 0" "c' = c2"
      by (simp only: guardE_eq_Inr) blast
    have "d @ e = [5, 2, 1, 0]" using d e True by (auto elim!: length_2E)
    with advances_trans [OF d(2) e(2)] e(5) cred show ?thesis
      by (auto simp: method_answer_def negotiation_out_def intro!: exI [of _ "d @ e"])
  qed
qed

lemma socks5_connect_sound:
  assumes c: "nregular c" "nwrites_all c" and run: "socks5_connect host port c = (Inr (), c')"
  shows "\<exists>a. connect_answer a \<and> advances c (socks5_request host port) a c'"
proof -
  from exchange_sound [OF c run [unfolded socks5_connect_def]] obtain d c1 where
    d: "length d = 4" "advances c (socks5_request host port) d c1" "d ! 0 = 5" "d ! 1 = 0" "d ! 2 = 0"
    and cont: "bindE (if d ! 3 = 0x01 then returnE 4
            else if d ! 3 = 0x04 then returnE 16
            else if d ! 3 = 0x03 then bindE (conn_read_full 1) (\<lambda>l. returnE (unat (l ! 0)))
            else failE (Errorf (''unsupported socks address type: '' @ show_nat (unat (d ! 3)))))
     (\<lambda>skip. bindE (conn_read_full (skip + 2)) (\<lambda>_. returnE ())) c1 = (Inr (), c')"
    by (simp only: guardE_bind_eq_Inr) blast
  note c1 = advances_invar [OF d(2)]
  obtain x where dx: "d = [5, 0, 0, x]" using d by (auto elim!: length_4E)
  have fixed: ?thesis if run1: "bindE (conn_read_full (n + 2)) (\<lambda>_. returnE ()) c1 = (Inr (), c')"
    and ok: "\<And>addr. length addr = n + 2 \<Longrightarrow> connect_answer (d @ addr)" for n
  proof -
    obtain addr where "length addr = n + 2" "advances c1 [] addr c'"
      using read_sound [OF _ _ run1] c1 by (metis returnE_apply prod.inject)
    with ok advances_trans [OF d(2)] show ?thesis by fastforce
  qed
  from cont dx consider "x = 1" | "x = 4" | "x = 3" by (auto simp: failE_eq split: if_splits)
  then show ?thesis
  proof cases
    case 1
    with cont dx show ?thesis by (intro fixed [of 4]) (auto simp: connect_answer_def)
  next
    case 2
    with cont dx show ?thesis by (intro fixed [of 16]) (auto simp: connect_answer_def)
  next
    case 3
    with cont dx have "bindE (conn_read_full 1) (\<lambda>l. bindE (conn_read_full (unat (l ! 0) + 2)) (\<lambda>_. returnE ())) c1
        = (Inr (), c')" by (simp add: bindE_assoc)
    from read_sound [OF _ _ this] c1 obtain l c2 where
      l: "length l = 1" "advances c1 [] l c2" "bindE (conn_read_full (unat (l ! 0) + 2)) (\<lambda>_. returnE ()) c2 = (Inr (), c')"
      by blast
    obtain addr where addr: "length addr = unat (l ! 0) + 2" "advances c2 [] addr c'"
      using read_sound [OF _ _ l(3)] advances_invar [OF l(2)] by (metis returnE_apply prod.inject)
    obtain n where "l = [n]" using l(1) by (rule length_1E)
    then have "connect_answer (d @ l @ addr)" using addr(1) dx 3 by (auto simp: connect_answer_def)
    with advances_trans [OF advances_trans [OF d(2) l(2)] addr(2)] show ?thesis by auto
  qed
qed

lemma socks5_negotiate_complete:
  assumes c: "nregular c" "nwrites_all c" and st: "nstream c = (a @ rest, e)" and a: "method_answer cfg a"
  shows "\<exists>c'. socks5_negotiate cfg c = (Inr (), c') \<and> advances c (negotiation_out cfg a) a c' \<and> nstream c' = (rest, e)"
proof -
  define m where "m = (if a = [5, 0] then 0 else 2 :: byte)"
  have pre: "nstream c = ([5, m] @ drop 2 a @ rest, e)" and m: "m = 0 \<or> m = 2"
    using st a by (auto simp: method_answer_def m_def)
  have two: "length [5 :: byte, m] = 2" "length [1 :: byte, 0] = 2" by simp_all
  from exchange_complete [OF c pre two(1), of "socks5_greeting cfg"] obtain c0 c1 where
    c1: "advances c (socks5_greeting cfg) [5, m] c1" "nstream c1 = (drop 2 a @ rest, e)"
      "conn_write_all (socks5_greeting cfg) c = (Inr (), c0)" "conn_read_full 2 c0 = (Inr [5, m], c1)" by blast
  show ?thesis
  proof (cases "a = [5, 0]")
    case True
    with c1 show ?thesis by (auto simp: socks5_negotiate_def bindE_Inr negotiation_out_def m_def)
  next
    case False
    with a have a': "a = [5, 2, 1, 0]" "has_credentials cfg" by (auto simp: method_answer_def)
    have "nstream c1 = ([1, 0] @ rest, e)" using c1(2) a' by simp
    from exchange_complete [OF _ _ this two(2), of "socks5_auth cfg"] advances_invar [OF c1(1)] obtain c2 c3 where
      c3: "advances c1 (socks5_auth cfg) [1, 0] c3" "nstream c3 = (rest, e)"
        "conn_write_all (socks5_auth cfg) c1 = (Inr (), c2)" "conn_read_full 2 c2 = (Inr [1, 0], c3)" by blast
    have "socks5_negotiate cfg c = (Inr (), c3)"
      using c1(3,4) c3(3,4) a' by (simp add: socks5_negotiate_def bindE_Inr m_def)
    with advances_trans [OF c1(1) c3(1)] c3(2) a' show ?thesis
      by (auto simp: negotiation_out_def m_def)
  qed
qed

lemma socks5_connect_complete:
  assumes c: "nregular c" "nwrites_all c" and st: "nstream c = (a @ rest, e)" and a: "connect_answer a"
  shows "\<exists>c'. socks5_connect host port c = (Inr (), c') \<and> advances c (socks5_request host port) a c' \<and> nstream c' = (rest, e)"
proof -
  obtain x y where x: "a = [5, 0, 0, x] @ y" using a by (auto simp: connect_answer_def)
  then have pre: "nstream c = ([5, 0, 0, x] @ y @ rest, e)" using st by simp
  have four: "length [5 :: byte, 0, 0, x] = 4" by simp
  from exchange_complete [OF c pre four, of "socks5_request host port"] obtain c0 c1 where
    c1: "advances c (socks5_request host port) [5, 0, 0, x] c1" "nstream c1 = (y @ rest, e)"
      "conn_write_all (socks5_request host port) c = (Inr (), c0)" "conn_read_full 4 c0 = (Inr [5, 0, 0, x], c1)" by blast
  consider (fixed) n where "x = 1 \<and> n = 4 \<or> x = 4 \<and> n = 16" "length y = n + 2"
    | (domain) l addr where "x = 3" "y = l # addr" "length addr = unat l + 2"
    using a x by (auto simp: connect_answer_def)
  then show ?thesis
  proof cases
    case fixed
    then obtain c2 where "conn_read_full (n + 2) c1 = (Inr y, c2)" "advances c1 [] y c2" "nstream c2 = (rest, e)"
      using read_advances_ok [OF _ _ c1(2)] advances_invar [OF c1(1)] by blast
    with c1 advances_trans [OF c1(1)] fixed(1) x show ?thesis
      by (fastforce simp: socks5_connect_def bindE_Inr)
  next
    case domain
    then obtain c2 where c2: "conn_read_full 1 c1 = (Inr [l], c2)" "advances c1 [] [l] c2" "nstream c2 = (addr @ rest, e)"
      using read_advances_ok [of c1 "[l]" "addr @ rest" e 1] c1(2) advances_invar [OF c1(1)] by auto
    then obtain c3 where c3: "conn_read_full (unat l + 2) c2 = (Inr addr, c3)" "advances c2 [] addr c3" "nstream c3 = (rest, e)"
      using read_advances_ok [OF _ _ c2(3) domain(3)] advances_invar [OF c2(2)] by blast
    have "socks5_connect host port c = (Inr (), c3)"
      using c1(3,4) c2(1) c3(1) domain by (simp add: socks5_connect_def bindE_Inr)
    with advances_trans [OF advances_trans [OF c1(1) c2(2)] c3(2)] c3(3) x domain show ?thesis by auto
  qed
qed

lemma socks5_run_complete:
  assumes c: "nregular c" "nwrites_all c" and args: "socks5_args_ok cfg host port"
    and st: "nstream c = (a @ b @ rest, e)" and a: "method_answer cfg a" and b: "connect_answer b"
  shows "\<exists>c'. Socks5HandlerConn (Some cfg) host port c = (Inr (), c') \<and> nstream c' = (rest, e)
    \<and> advances c (negotiation_out cfg a @ socks5_request (trim_space host) port) (a @ b) c'"
proof -
  have eq: "Socks5HandlerConn (Some cfg) host port c
      = bindE (socks5_negotiate cfg) (\<lambda>_. socks5_connect (trim_space host) port) c"
    using args by (auto simp: Socks5HandlerConn_def socks5_args_ok_def Let_def)
  from socks5_negotiate_complete [OF c st a] obtain c1 where
    c1: "socks5_negotiate cfg c = (Inr (), c1)" "advances c (negotiation_out cfg a) a c1"
      "nstream c1 = (b @ rest, e)" by blast
  from socks5_connect_complete [OF _ _ c1(3) b] advances_invar [OF c1(2)] obtain c2 where
    "socks5_connect (trim_space host) port c1 = (Inr (), c2)"
    "advances c1 (socks5_request (trim_space host) port) b c2" "nstream c2 = (rest, e)" by blast
  with c1 eq advances_trans [OF c1(2)] show ?thesis by (auto simp: bindE_Inr)
qed

text \<open>
  C8: with valid arguments \<^verbatim>\<open>Socks5HandlerConn\<close> succeeds exactly when the peer's bytes are an
  acceptable method answer followed by an acceptable CONNECT answer. It has then sent exactly the
  greeting, the credentials if they were asked for, and the request, and has consumed exactly the
  two answers: the tunnelled stream starts right after them.
\<close>

theorem socks5_succeeds_iff_accepted:
  assumes "nregular c" and "nwrites_all c" and "socks5_args_ok cfg host port"
  shows "case Socks5HandlerConn (Some cfg) host port c of (r, c') \<Rightarrow>
    (r = Inr () \<longleftrightarrow> (\<exists>a b rest. method_answer cfg a \<and> connect_answer b \<and> fst (nstream c) = a @ b @ rest))
    \<and> (r = Inr () \<longrightarrow> (\<exists>a b. method_answer cfg a \<and> connect_answer b
         \<and> advances c (negotiation_out cfg a @ socks5_request (trim_space host) port) (a @ b) c'))"
proof -
  obtain r c' where run: "Socks5HandlerConn (Some cfg) host port c = (r, c')" by force
  have eq: "Socks5HandlerConn (Some cfg) host port c
      = bindE (socks5_negotiate cfg) (\<lambda>_. socks5_connect (trim_space host) port) c"
    using assms(3) by (auto simp: Socks5HandlerConn_def socks5_args_ok_def Let_def)
  have sound: "\<exists>a b. method_answer cfg a \<and> connect_answer b
         \<and> advances c (negotiation_out cfg a @ socks5_request (trim_space host) port) (a @ b) c'" if r: "r = Inr ()"
  proof -
    obtain c1 where n: "socks5_negotiate cfg c = (Inr (), c1)" "socks5_connect (trim_space host) port c1 = (Inr (), c')"
      using run eq r by (auto simp: bindE_eq_Inr)
    from socks5_negotiate_sound [OF assms(1,2) n(1)] obtain a where
      a: "method_answer cfg a" "advances c (negotiation_out cfg a) a c1" by blast
    with socks5_connect_sound [OF _ _ n(2)] advances_invar [OF a(2)] advances_trans [OF a(2)] show ?thesis by blast
  qed
  have "r = Inr ()" if st: "fst (nstream c) = a @ b @ rest" and a: "method_answer cfg a" and b: "connect_answer b" for a b rest
  proof -
    have "nstream c = (a @ b @ rest, snd (nstream c))" using st by (metis prod.collapse)
    from socks5_run_complete [OF assms this a b] run show ?thesis by auto
  qed
  moreover have "r = Inr () \<Longrightarrow> \<exists>a b rest. method_answer cfg a \<and> connect_answer b \<and> fst (nstream c) = a @ b @ rest"
    using sound by (fastforce simp: advances_def)
  ultimately show ?thesis using run sound by auto
qed

definition ex_peer :: "(byte list \<times> go_error option) list \<Rightarrow> nconn" where
  "ex_peer deliveries = TCPConn \<lparr>inbound = deliveries, wscript = [], sent = [], conn_open = True,
     rd_deadline = False, wr_deadline = False\<rparr>"

lemma socks4_succeeds_iff_granted_witness:
  "fst (Socks4HandlerConn (Some ex_proxy) ''example.org'' 80
      (ex_peer [([0, 0x5A, 0, 0], None), ([0, 0, 0, 0, 7], None)])) = Inr ()"
proof -
  let ?c = "ex_peer [([0, 0x5A, 0, 0], None), ([0, 0, 0, 0, 7], None)]"
  have c: "nregular ?c" "nwrites_all ?c" and st: "fst (nstream ?c) = [0x00, 0x5A] @ [0, 0, 0, 0, 0, 0] @ [7]"
    by (simp_all add: ex_peer_def conn_regular_def regular_def conn_stream_def)
  have "trim_space ''example.org'' = ''example.org''" by (rule trim_space_graphic) (simp add: graphic_def)
  then have "socks4_args_ok ex_proxy ''example.org'' 80"
    by (simp add: socks4_args_ok_def ex_proxy_def contains_char nul_def)
  moreover have "\<exists>x rest. fst (nstream ?c) = [0x00, 0x5A] @ x @ rest \<and> length x = 6"
    using st by (intro exI [of _ "[0, 0, 0, 0, 0, 0]"] exI [of _ "[7]"]) simp
  ultimately show ?thesis
    using socks4_succeeds_iff_granted [OF c, of ex_proxy "''example.org''" 80] by (simp only: case_prod_beta)
qed

lemma socks5_succeeds_iff_accepted_witness:
  "fst (Socks5HandlerConn (Some ex_proxy) ''example.org'' 80
      (ex_peer [([5, 2, 1], None), ([0, 5, 0, 0, 1, 10, 0, 0, 1], None), ([0, 80, 33], None)])) = Inr ()"
proof -
  let ?c = "ex_peer [([5, 2, 1], None), ([0, 5, 0, 0, 1, 10, 0, 0, 1], None), ([0, 80, 33], None)]"
  have c: "nregular ?c" "nwrites_all ?c"
    and st: "fst (nstream ?c) = [5, 2, 1, 0] @ ([5, 0, 0, 1] @ [10, 0, 0, 1, 0, 80]) @ [33]"
    by (simp_all add: ex_peer_def conn_regular_def regular_def conn_stream_def)
  have "trim_space ''example.org'' = ''example.org''" by (rule trim_space_graphic) (simp add: graphic_def)
  then have args: "socks5_args_ok ex_proxy ''example.org'' 80"
    by (simp add: socks5_args_ok_def ex_proxy_def has_credentials_def)
  have "method_answer ex_proxy [5, 2, 1, 0]" "connect_answer ([5, 0, 0, 1] @ [10, 0, 0, 1, 0, 80])"
    by (simp_all add: method_answer_def connect_answer_def ex_proxy_def has_credentials_def)
  then have "\<exists>a b rest. method_answer ex_proxy a \<and> connect_answer b \<and> fst (nstream ?c) = a @ b @ rest"
    using st by blast
  then show ?thesis
    using socks5_succeeds_iff_accepted [OF c args] by (simp add: case_prod_beta)
qed

lemma unat_len_byte: "n \<le> 255 \<Longrightarrow> unat (word_of_nat n :: byte) = n"
  by (simp add: unsigned_of_nat take_bit_nat_eq_self)

lemma uint_port:
  assumes "0 < port" and "port \<le> 65535"
  shows "uint (be_word (be_bytes 2 (word_of_int port :: 16 word)) :: 16 word) = port"
  using assms by (simp add: be_round_trip unsigned_of_int take_bit_int_eq_self)

text \<open>
  The length and port fields of the SOCKS5 messages do not wrap: for arguments the handler
  accepts, the length bytes are the lengths of the host, the user and the password that follow
  them, and the two big-endian bytes at the end of the request are the port.
\<close>

theorem socks5_messages_decode:
  assumes "socks5_args_ok cfg host port"
  shows "(\<exists>l pb. socks5_request (trim_space host) port = [0x05, 0x01, 0x00, 0x03, l] @ bytes_of (trim_space host) @ pb
           \<and> unat l = length (trim_space host) \<and> uint (be_word pb :: 16 word) = port)
    \<and> (case (Username cfg, Password cfg) of
         (Some u, Some p) \<Rightarrow> (\<exists>lu lp. socks5_auth cfg = [0x01, lu] @ bytes_of u @ [lp] @ bytes_of p
             \<and> unat lu = length u \<and> unat lp = length p) \<and> socks5_greeting cfg = [0x05, 2, 0x00, 0x02]
       | _ \<Rightarrow> socks5_greeting cfg = [0x05, 1, 0x00])"
  using assms uint_port [of port] unat_len_byte
  by (auto simp: socks5_args_ok_def socks5_request_def socks5_auth_def socks5_greeting_def has_credentials_def Let_def
      split: option.split)

lemma socks5_messages_decode_witness:
  "\<exists>l pb. socks5_request (trim_space ''example.org'') 80 = [0x05, 0x01, 0x00, 0x03, l] @ bytes_of (trim_space ''example.org'') @ pb
     \<and> unat l = length (trim_space ''example.org'') \<and> uint (be_word pb :: 16 word) = 80"
proof -
  have "trim_space ''example.org'' = ''example.org''" by (rule trim_space_graphic) (simp add: graphic_def)
  then have "socks5_args_ok ex_proxy ''example.org'' 80"
    by (simp add: socks5_args_ok_def ex_proxy_def has_credentials_def)
  from socks5_messages_decode [OF this] show ?thesis by blast
qed

end
