(* ===== verification/Http_Connect.thy ===== *)
theory Http_Connect
  imports Socks
begin

text \<open>
  The HTTP CONNECT client of \<^verbatim>\<open>network/handler/http_handler.go\<close> and its HTTPS variant
  (\<^verbatim>\<open>https_handler.go\<close>): the request, the loop that reads the response header without losing the
  bytes after it, the checks and the error texts. The TLS handshake is a parameter.
\<close>

subsection \<open>Base64\<close>

definition base64_char :: "nat \<Rightarrow> char" where
  "base64_char n =
     (if n < 26 then char_of (65 + n) else if n < 52 then char_of (71 + n)
      else if n < 62 then char_of (n - 4) else if n = 62 then CHR ''+'' else CHR ''/'')"

fun base64_encode :: "byte list \<Rightarrow> string" where
  "base64_encode [] = []"
| "base64_encode [a] =
     [base64_char (unat a div 4), base64_char ((unat a mod 4) * 16)] @ ''==''"
| "base64_encode [a, b] =
     [base64_char (unat a div 4), base64_char ((unat a mod 4) * 16 + unat b div 16),
      base64_char ((unat b mod 16) * 4)] @ ''=''"
| "base64_encode (a # b # c # rest) =
     [base64_char (unat a div 4), base64_char ((unat a mod 4) * 16 + unat b div 16),
      base64_char ((unat b mod 16) * 4 + unat c div 64), base64_char (unat c mod 64)] @ base64_encode rest"

subsection \<open>The response header\<close>

definition httpUserAgent :: string where
  "httpUserAgent = ''DesKaOne/0.0.1''"

definition maxHTTPHeaderSize :: nat where
  "maxHTTPHeaderSize = 32 * 1024"

abbreviation crlf2 :: "byte list" where
  "crlf2 \<equiv> [13, 10, 13, 10]"

text \<open>
  The reading loop of \<^verbatim>\<open>readHeaders\<close>, up to 1024 bytes at a time; the fuel bounds the reads.
\<close>

fun readHeaders_loop :: "nat \<Rightarrow> int \<Rightarrow> byte list \<Rightarrow> (nconn, byte list \<times> byte list) io" where
  "readHeaders_loop 0 timeout buf c = (Inl ErrNoProgress, c)"
| "readHeaders_loop (Suc fuel) timeout buf c =
     (let c0 = (if 0 < timeout then SetReadDeadline True c else c) in
      case nread 1024 c0 of ((d, e), c') \<Rightarrow>
      let buf' = buf @ d in
      if d \<noteq> [] \<and> maxHTTPHeaderSize < length buf' then
        (Inl (Errorf ''HTTP CONNECT response header too large''), c')
      else case (if d \<noteq> [] then index_of buf' crlf2 else None) of
        Some idx \<Rightarrow> (Inr (take (idx + 4) buf', drop (idx + 4) buf'), c')
      | None \<Rightarrow>
          (case e of
             Some err \<Rightarrow>
               if is_net_timeout err then (Inl (Errorf ''HTTP CONNECT header read timed out''), c')
               else (Inl err, c')
           | None \<Rightarrow> readHeaders_loop fuel timeout buf' c'))"

definition readHeaders :: "int \<Rightarrow> (nconn, byte list \<times> byte list) io" where
  "readHeaders timeout = (\<lambda>c. readHeaders_loop (Suc (nbudget c)) timeout [] c)"

definition parseStatusCode :: "byte list \<Rightarrow> int" where
  "parseStatusCode headers =
     (let lineEnd = (case index_of headers [13, 10] of Some i \<Rightarrow> i | None \<Rightarrow> length headers);
          statusLine = string_of (take lineEnd headers);
          parts = Go_Strings.fields statusLine in
      if length parts < 2 then -1
      else case atoi (parts ! 1) of None \<Rightarrow> -1 | Some code \<Rightarrow> code)"

definition findHeader :: "byte list \<Rightarrow> string \<Rightarrow> string" where
  "findHeader headers name =
     (case List.find (\<lambda>line. line \<noteq> [] \<and> (case index_of line '':'' of
              Some i \<Rightarrow> 0 < i \<and> equal_fold (trim_space (take i line)) name | None \<Rightarrow> False))
            (split_on crlf (string_of headers)) of
        Some line \<Rightarrow> (case index_of line '':'' of Some i \<Rightarrow> trim_space (drop (i + 1) line) | None \<Rightarrow> [])
      | None \<Rightarrow> [])"

definition redact_line :: "string \<Rightarrow> string" where
  "redact_line line =
     (let l1 = (if has_prefix (to_lower line) ''proxy-authorization:''
                then ''Proxy-Authorization: [redacted]'' else line)
      in if has_prefix (to_lower line) ''authorization:'' then ''Authorization: [redacted]'' else l1)"

definition sanitizeHeaderForError :: "byte list \<Rightarrow> string" where
  "sanitizeHeaderForError headers =
     (let s = string_of headers;
          msg = (if 1024 < length s then take 1024 s @ ''...[truncated]'' else s)
      in trim_space (join crlf (map redact_line (split_on crlf msg))))"

subsection \<open>The handlers\<close>

definition connect_request :: "ProxyConfig \<Rightarrow> string \<Rightarrow> int \<Rightarrow> string" where
  "connect_request cfg dstHost dstPort =
     (let targetAddr = join_host_port dstHost (itoa dstPort) in
      ''CONNECT '' @ targetAddr @ '' HTTP/1.1'' @ crlf
      @ ''Host: '' @ targetAddr @ crlf
      @ ''User-Agent: '' @ httpUserAgent @ crlf
      @ ''Proxy-Connection: Keep-Alive'' @ crlf
      @ (case (Username cfg, Password cfg) of
           (Some u, Some p) \<Rightarrow>
             ''Proxy-Authorization: Basic '' @ base64_encode (bytes_of (u @ '':'' @ p)) @ crlf
         | _ \<Rightarrow> [])
      @ crlf)"

text \<open>The result is the connection to go on with: the state of the step.\<close>

definition HttpHandlerConn :: "ProxyConfig option \<Rightarrow> string \<Rightarrow> int \<Rightarrow> int \<Rightarrow> (nconn, unit) io" where
  "HttpHandlerConn proxyConfig dstHost dstPort timeout c =
     (case proxyConfig of
        None \<Rightarrow> (Inl (Errorf ''nil proxy config''), c)
      | Some cfg \<Rightarrow>
      if trim_space dstHost = [] then (Inl (Errorf ''empty destination host''), c)
      else if dstPort \<le> 0 \<or> 65535 < dstPort then
        (Inl (Errorf (''invalid destination port: '' @ itoa dstPort)), c)
      else
        let c0 = (if 0 < timeout then SetWriteDeadline True c else c) in
        case conn_write_all (bytes_of (connect_request cfg dstHost dstPort)) c0 of
          (Inl err, c1) \<Rightarrow> (Inl err, SetWriteDeadline False c1)
        | (Inr _, c1) \<Rightarrow>
        (case readHeaders timeout (SetWriteDeadline False c1) of
          (Inl err, c2) \<Rightarrow> (Inl err, SetReadDeadline False c2)
        | (Inr (headers, leftover), c2) \<Rightarrow>
            let c3 = SetReadDeadline False c2; code = parseStatusCode headers in
            if code \<noteq> 200 then
              let authHdr = findHeader headers ''Proxy-Authenticate'';
                  msg = sanitizeHeaderForError headers in
              if authHdr \<noteq> [] then
                (Inl (Errorf (''proxy refused CONNECT: status='' @ itoa code @ '' authenticate=''
                  @ go_quote authHdr @ '' response='' @ go_quote msg)), c3)
              else
                (Inl (Errorf (''proxy refused CONNECT: status='' @ itoa code @ '' response=''
                  @ go_quote msg)), c3)
            else if leftover \<noteq> [] then (Inr (), PreReadConn leftover c3)
            else (Inr (), c3)))"

text \<open>
  \<open>tls serverName c\<close> is the TLS client handshake on a connection: an error, or the plaintext
  side of the connection it sets up, and the transport after it.
\<close>

type_synonym tls_handshake = "string \<Rightarrow> (nconn, conn) io"

definition httpsHandlerConnWithTLSConfig ::
    "tls_handshake \<Rightarrow> string \<Rightarrow> ProxyConfig option \<Rightarrow> string \<Rightarrow> int \<Rightarrow> int \<Rightarrow> (nconn, unit) io" where
  "httpsHandlerConnWithTLSConfig tls serverName0 proxyConfig dstHost dstPort timeout c =
     (case proxyConfig of
        None \<Rightarrow> (Inl (Errorf ''nil proxy config''), c)
      | Some cfg \<Rightarrow>
      let proxyHost = trim_space (PHost cfg) in
      if proxyHost = [] then (Inl (Errorf ''empty proxy host''), c)
      else if trim_space dstHost = [] then (Inl (Errorf ''empty destination host''), c)
      else if dstPort \<le> 0 \<or> 65535 < dstPort then
        (Inl (Errorf (''invalid destination port: '' @ itoa dstPort)), c)
      else
        let serverName = (if serverName0 = [] then proxyHost else serverName0);
            c0 = (if 0 < timeout then SetDeadline True c else c) in
        case tls serverName c0 of
          (Inl err, c1) \<Rightarrow> (Inl (Wrapf ''HTTPS proxy TLS handshake: '' err), SetDeadline False c1)
        | (Inr plain, c1) \<Rightarrow>
            (case HttpHandlerConn proxyConfig dstHost dstPort timeout (SetDeadline False (TLSConn plain c1)) of
               (Inl err, c') \<Rightarrow> (Inl (Wrapf ''HTTPS proxy CONNECT: '' err), c')
             | (Inr _, c') \<Rightarrow> (Inr (), c')))"

definition HttpsHandlerConn :: "tls_handshake \<Rightarrow> ProxyConfig option \<Rightarrow> string \<Rightarrow> int \<Rightarrow> int \<Rightarrow> (nconn, unit) io" where
  "HttpsHandlerConn tls = httpsHandlerConnWithTLSConfig tls []"

subsection \<open>The header is found however it arrives\<close>

lemma index_of_append: "index_of xs sub = Some i \<Longrightarrow> index_of (xs @ ys) sub = Some i"
proof (induction xs arbitrary: i)
  case Nil
  then show ?case by (auto simp: index_of_prefix split: if_splits)
next
  case (Cons x xs)
  show ?case
  proof (cases "prefix sub (x # xs)")
    case True
    with Cons.prems have "prefix sub (x # xs @ ys)" by (metis append_Cons prefix_prefix)
    with True Cons.prems show ?thesis by simp
  next
    case False
    then obtain j where j: "index_of xs sub = Some j" "i = Suc j" using Cons.prems by auto
    have "length sub \<le> length xs" using index_of_Some [OF j(1)] by simp
    then have "\<not> prefix sub (x # xs @ ys)"
      using False by (metis append_Cons le_SucI length_Cons prefix_length_prefix prefixI)
    with False Cons.IH [OF j(1)] j(2) show ?thesis by simp
  qed
qed

text \<open>A header block: it ends with its first empty line.\<close>

definition header_block :: "byte list \<Rightarrow> bool" where
  "header_block h \<longleftrightarrow> index_of h crlf2 = Some (length h - 4)"

lemma header_block_len: "header_block h \<Longrightarrow> 4 \<le> length h"
  using index_of_Some [of h crlf2 "length h - 4"] by (auto simp: header_block_def)

lemma header_block_index:
  assumes "header_block h"
  shows "index_of (h @ rest) crlf2 = Some (length h - 4)"
    and "k < length h \<Longrightarrow> index_of (take k h) crlf2 = None"
proof -
  show "index_of (h @ rest) crlf2 = Some (length h - 4)"
    using assms by (simp add: header_block_def index_of_append)
  assume k: "k < length h"
  show "index_of (take k h) crlf2 = None"
  proof (rule ccontr)
    assume "index_of (take k h) crlf2 \<noteq> None"
    then obtain i where i: "index_of (take k h) crlf2 = Some i" by blast
    then have "index_of h crlf2 = Some i" by (metis append_take_drop_id index_of_append)
    then have "i = length h - 4" using assms by (simp add: header_block_def)
    with index_of_Some [OF i] k header_block_len [OF assms] show False by auto
  qed
qed

text \<open>One read of the loop, on a stream that has bytes left.\<close>

lemma readHeaders_read:
  assumes c: "nregular c" "nwrites_all c" "fst (nstream c) \<noteq> []"
    and rd: "nread 1024 (if 0 < timeout then SetReadDeadline True c else c) = ((d, x), c')"
  shows "x = None \<Longrightarrow> nbudget c' < nbudget c" and "x \<noteq> None \<Longrightarrow> fst (nstream c') = []"
    and "d \<noteq> []" and "length d \<le> 1024"
    and "nstream c = (d @ fst (nstream c'), snd (nstream c'))"
    and "nregular c'" and "nwrites_all c'" and "nsent c' = nsent c" and "socket_open c' = socket_open c"
proof -
  let ?c0 = "if 0 < timeout then SetReadDeadline True c else c"
  have c0: "nregular ?c0" "nwrites_all ?c0" "nbudget ?c0 = nbudget c" "nstream ?c0 = nstream c" "nsent ?c0 = nsent c"
    "socket_open ?c0 = socket_open c"
    using c by simp_all
  note laws = nread_laws [OF c0(1) _ rd]
  show "length d \<le> 1024" using laws(1) by simp
  show "x = None \<Longrightarrow> nbudget c' < nbudget c" using laws(4) c0(3) by simp
  have err: "nstream c = (d, e) \<and> d \<noteq> [] \<and> nregular c' \<and> nstream c' = ([], e)" if "x = Some e" for e
    using laws(5) [OF _ that] laws(7) [OF _ that] c0(4) c(3) by simp
  then show "x \<noteq> None \<Longrightarrow> fst (nstream c') = []" by auto
  show "d \<noteq> []" using err laws(6) by (cases x) simp_all
  show "nregular c'" using err laws(2) by (cases x) simp_all
  show "nstream c = (d @ fst (nstream c'), snd (nstream c'))"
  proof (cases x)
    case None
    from laws(3) [OF _ None] c0(4) show ?thesis by simp
  next
    case (Some e)
    from err [OF this] show ?thesis by simp
  qed
  show "nwrites_all c'" "nsent c' = nsent c" "socket_open c' = socket_open c"
    using nread_nsent [OF rd] nread_socket [OF rd] nwrites_all_nread [of 1024 ?c0] rd c0 by simp_all
qed

lemma readHeaders_loop_result:
  assumes h: "header_block h" "length h + 1024 \<le> maxHTTPHeaderSize"
    and "nregular c" and "nwrites_all c" and "nbudget c < fuel"
    and "nstream c = (drop (length buf) h @ rest, e)" and "buf = take (length buf) h" and "length buf < length h"
  shows "\<exists>left c'. readHeaders_loop fuel timeout buf c = (Inr (h, left), c') \<and> nregular c' \<and> nwrites_all c'
     \<and> nsent c' = nsent c \<and> socket_open c' = socket_open c \<and> rest = left @ fst (nstream c') \<and> e = snd (nstream c')"
  using assms(3-)
proof (induction fuel arbitrary: buf c)
  case 0
  then show ?case by simp
next
  case (Suc fuel)
  obtain d x c' where rd: "nread 1024 (if 0 < timeout then SetReadDeadline True c else c) = ((d, x), c')" by (metis surj_pair)
  have "fst (nstream c) \<noteq> []" using Suc.prems(4,6) by simp
  note read = readHeaders_read [OF Suc.prems(1,2) this rd]
  have small: "\<not> maxHTTPHeaderSize < length buf + length d"
    using read(4) Suc.prems(6) h(2) by simp
  have "buf @ drop (length buf) h = h" using Suc.prems(5) by (metis append_take_drop_id)
  then have "buf @ drop (length buf) h @ rest = h @ rest" by (metis append.assoc)
  moreover have "drop (length buf) h @ rest = d @ fst (nstream c')" and e: "snd (nstream c') = e"
    using read(5) Suc.prems(4) by simp_all
  ultimately have split: "(buf @ d) @ fst (nstream c') = h @ rest" "snd (nstream c') = e"
    by (simp_all only: append.assoc e)
  show ?case
  proof (cases "length h \<le> length (buf @ d)")
    case True
    then obtain left where left: "buf @ d = h @ left" "rest = left @ fst (nstream c')"
      using append_eq_split_ge [OF split(1)] by blast
    have "index_of (buf @ d) crlf2 = Some (length h - 4)"
      unfolding left(1) by (rule header_block_index(1) [OF h(1)])
    moreover have "length h - 4 + 4 = length h" using header_block_len [OF h(1)] by simp
    ultimately have "readHeaders_loop (Suc fuel) timeout buf c = (Inr (h, left), c')"
      using rd read(3) small left(1) by (simp add: Let_def)
    with left(2) split(2) read(6-9) show ?thesis by auto
  next
    case False
    then have lt: "length (buf @ d) < length h" by simp
    note take = append_eq_split_lt(1) [OF split(1) lt]
    have "index_of (buf @ d) crlf2 = None"
      using header_block_index(2) [OF h(1), of "length (buf @ d)"] False take by simp
    have x: "x = None"
    proof (rule ccontr)
      assume "x \<noteq> None"
      with read(2) split(1) have "buf @ d = h @ rest" by simp
      with lt show False by simp
    qed
    with \<open>index_of (buf @ d) crlf2 = None\<close>
    have eq: "readHeaders_loop (Suc fuel) timeout buf c = readHeaders_loop fuel timeout (buf @ d) c'"
      using rd read(3) small by (simp add: Let_def)
    have "nstream c' = (drop (length (buf @ d)) h @ rest, e)"
      using append_eq_split_lt(2) [OF split(1) lt] split(2) by (simp add: prod_eq_iff)
    from Suc.IH [OF read(6,7) _ this take] False read(1) [OF x] read(8,9) Suc.prems(3) show ?thesis
      unfolding eq by simp
  qed
qed

lemma http_connect_run:
  assumes c: "nregular c" "nwrites_all c" and st: "nstream c = (h @ rest, e)"
    and h: "header_block h" "length h + 1024 \<le> maxHTTPHeaderSize"
    and args: "trim_space host \<noteq> []" "0 < port" "port \<le> 65535"
  shows "case HttpHandlerConn (Some cfg) host port timeout c of (r, c') \<Rightarrow>
    nsent c' = nsent c @ bytes_of (connect_request cfg host port) \<and> socket_open c' = socket_open c
    \<and> (if parseStatusCode h = 200 then r = Inr () \<and> nstream c' = (rest, e)
        else r = Inl (Errorf (''proxy refused CONNECT: status='' @ itoa (parseStatusCode h)
          @ (if findHeader h ''Proxy-Authenticate'' = [] then [] else '' authenticate='' @ go_quote (findHeader h ''Proxy-Authenticate''))
          @ '' response='' @ go_quote (sanitizeHeaderForError h))))"
proof -
  let ?c0 = "if 0 < timeout then SetWriteDeadline True c else c"
  have c0: "nregular ?c0" "nwrites_all ?c0" using c by simp_all
  obtain c1 where c1: "conn_write_all (bytes_of (connect_request cfg host port)) ?c0 = (Inr (), c1)"
    "advances ?c0 (bytes_of (connect_request cfg host port)) [] c1"
    using write_advances [OF c0] by blast
  then have st1: "nstream c1 = (drop (length []) h @ rest, e)" and inv: "nregular c1" "nwrites_all c1"
    and frame: "nsent c1 = nsent c @ bytes_of (connect_request cfg host port)" "socket_open c1 = socket_open c"
    using st by (auto simp: advances_def prod_eq_iff split: if_splits)
  have "0 < length h" using header_block_len [OF h(1)] by linarith
  then obtain left c2 where c2: "readHeaders timeout (SetWriteDeadline False c1) = (Inr (h, left), c2)"
    "nsent c2 = nsent c1" "socket_open c2 = socket_open c1" "rest = left @ fst (nstream c2)" "e = snd (nstream c2)"
    using readHeaders_loop_result [OF h, of "SetWriteDeadline False c1" "Suc (nbudget c1)" "[]" rest e timeout] inv st1
    by (auto simp: readHeaders_def simp del: readHeaders_loop.simps)
  have args': "(port \<le> 0 \<or> 65535 < port) = False" using args by auto
  show ?thesis
    using c1(1) c2 frame args(1) args' by (auto simp: HttpHandlerConn_def Let_def prod_eq_iff case_prod_beta)
qed

text \<open>
  C12: \<^verbatim>\<open>HttpHandlerConn\<close> sends exactly the CONNECT request. On a response header of up to 31 KiB, however the
  network cuts the response, it succeeds when the status code is 200, and the connection it hands
  back then delivers exactly the bytes after the header: bytes read too early are served first. On any
  other status it fails with an error that reports the status, the challenge of the proxy if there is one
  and the redacted header; the socket stays as it was.
\<close>

theorem http_connect_tunnel:
  assumes c: "nregular c" "nwrites_all c" and st: "nstream c = (h @ rest, e)"
    and h: "header_block h" "length h + 1024 \<le> maxHTTPHeaderSize"
    and args: "trim_space host \<noteq> []" "0 < port" "port \<le> 65535"
  shows "case HttpHandlerConn (Some cfg) host port timeout c of (r, c') \<Rightarrow>
    nsent c' = nsent c @ bytes_of (connect_request cfg host port) \<and> socket_open c' = socket_open c
    \<and> (if parseStatusCode h = 200 then r = Inr () \<and> nstream c' = (rest, e)
        else r = Inl (Errorf (''proxy refused CONNECT: status='' @ itoa (parseStatusCode h)
          @ (if findHeader h ''Proxy-Authenticate'' = [] then [] else '' authenticate='' @ go_quote (findHeader h ''Proxy-Authenticate''))
          @ '' response='' @ go_quote (sanitizeHeaderForError h))))"
  using assms by (rule http_connect_run)

definition ex_ok_response :: "byte list" where
  "ex_ok_response = bytes_of (''HTTP/1.1 200 OK'' @ crlf @ crlf)"

definition ex_connect_peer :: nconn where
  "ex_connect_peer = ex_peer [(take 16 ex_ok_response, None), (drop 16 ex_ok_response @ [42], None), ([43], None)]"

lemma ex_ok_response_bytes:
  "ex_ok_response = [72, 84, 84, 80, 47, 49, 46, 49, 32, 50, 48, 48, 32, 79, 75, 13, 10, 13, 10]"
  by code_simp

lemma http_connect_tunnel_witness:
  "case HttpHandlerConn (Some ex_proxy) ''example.org'' 443 0 ex_connect_peer of (r, c') \<Rightarrow>
     nsent c' = nsent ex_connect_peer @ bytes_of (connect_request ex_proxy ''example.org'' 443)
     \<and> r = Inr () \<and> nstream c' = ([42, 43], EOF)"
proof -
  have hyps: "header_block ex_ok_response" "trim_space ''example.org'' \<noteq> []" "length ex_ok_response + 1024 \<le> maxHTTPHeaderSize"
    unfolding header_block_def by code_simp+
  have ok: "parseStatusCode ex_ok_response = 200" by code_simp
  have peer: "nregular ex_connect_peer" "nwrites_all ex_connect_peer" "nstream ex_connect_peer = (ex_ok_response @ [42, 43], EOF)"
    by (simp_all add: ex_connect_peer_def ex_peer_def ex_ok_response_bytes conn_regular_def regular_def conn_stream_def)
  show ?thesis
    using http_connect_tunnel [OF peer hyps(1,3,2), of 443 ex_proxy 0] ok by (auto split: prod.splits)
qed

text \<open>
  Lines of the response that start with an authorization header, in any case, do not reach an
  error text.
\<close>

lemma redaction_complete:
  "has_prefix (to_lower (redact_line l)) ''proxy-authorization:''
     \<Longrightarrow> redact_line l = ''Proxy-Authorization: [redacted]''"
  "has_prefix (to_lower (redact_line l)) ''authorization:'' \<Longrightarrow> redact_line l = ''Authorization: [redacted]''"
proof -
  have low: "to_lower ''Authorization: [redacted]'' = ''authorization: [redacted]''"
    "to_lower ''Proxy-Authorization: [redacted]'' = ''proxy-authorization: [redacted]''"
    by code_simp+
  show "has_prefix (to_lower (redact_line l)) ''proxy-authorization:''
     \<Longrightarrow> redact_line l = ''Proxy-Authorization: [redacted]''"
    and "has_prefix (to_lower (redact_line l)) ''authorization:'' \<Longrightarrow> redact_line l = ''Authorization: [redacted]''"
    by (auto simp: redact_line_def Let_def low split: if_splits)
qed

end
