(* ===== verification/Dialler.thy ===== *)
theory Dialler
  imports Http_Connect
begin

text \<open>
  Establishing connections: \<^verbatim>\<open>network/dialler.go\<close>, \<^verbatim>\<open>NewTCPClient\<close> of \<^verbatim>\<open>tcp_client.go\<close> and
  \<^verbatim>\<open>tls_client.go\<close>. The operating system's dialler, the TLS handshake and the caller's picker are
  parameters; the dialler and the picker share the state \<open>'w\<close>, so a pick can depend on earlier
  ones. The socket options of \<^verbatim>\<open>NewTCPClient\<close> have no effect in the model.
\<close>

record LocalBindTCP =
  IP :: "byte list option"
  BPort :: int
  Zone :: string

record TCPAddr =
  addrIP :: "byte list"
  addrPort :: int
  addrZone :: string

fun firstLocalBind :: "LocalBindTCP option list \<Rightarrow> TCPAddr option" where
  "firstLocalBind [] = None"
| "firstLocalBind (None # _) = None"
| "firstLocalBind (Some b # _) = (case IP b of
     None \<Rightarrow> None
   | Some ip \<Rightarrow> Some \<lparr>addrIP = ip, addrPort = BPort b, addrZone = Zone b\<rparr>)"

text \<open>\<^verbatim>\<open>dialer.DialContext\<close>: address, timeout, local address.\<close>

type_synonym 'w dialer = "string \<Rightarrow> int \<Rightarrow> TCPAddr option \<Rightarrow> ('w, nconn) io"

definition dialDirect :: "'w dialer \<Rightarrow> string \<Rightarrow> int \<Rightarrow> TCPAddr option \<Rightarrow> ('w, nconn) io" where
  "dialDirect dial addr timeout localAddr = dial addr timeout localAddr"

text \<open>
  The part of \<^verbatim>\<open>dialViaProxy\<close> after the dial, as a step on the connection: the switch to the
  handler of the proxy type, and around it the deadline and closing the connection on failure.
\<close>

definition proxy_handler ::
    "tls_handshake \<Rightarrow> ProxyConfig \<Rightarrow> string \<Rightarrow> int \<Rightarrow> int \<Rightarrow> (nconn, unit) io" where
  "proxy_handler tls cfg dstHost dstPort timeout =
     (if Type cfg = ProxyTypeHTTP then HttpHandlerConn (Some cfg) dstHost dstPort timeout
      else if Type cfg = ProxyTypeHTTPS then HttpsHandlerConn tls (Some cfg) dstHost dstPort timeout
      else if Type cfg = ProxyTypeSOCKS5 then Socks5HandlerConn (Some cfg) dstHost dstPort
      else if Type cfg = ProxyTypeSOCKS4 then Socks4HandlerConn (Some cfg) dstHost dstPort
      else failE (Errorf (''unsupported proxy type: '' @ Type cfg)))"

definition proxy_handshake ::
    "tls_handshake \<Rightarrow> ProxyConfig \<Rightarrow> string \<Rightarrow> int \<Rightarrow> int \<Rightarrow> (nconn, unit) io" where
  "proxy_handshake tls cfg dstHost dstPort timeout c =
     (let c0 = (if 0 < timeout then SetDeadline True c else c) in
      case proxy_handler tls cfg dstHost dstPort timeout c0 of
        (Inl err, c1) \<Rightarrow> (Inl err, snd (nclose c1))
      | (Inr _, c1) \<Rightarrow> (Inr (), SetDeadline False c1))"

definition dialViaProxy ::
    "'w dialer \<Rightarrow> tls_handshake \<Rightarrow> ProxyConfig option \<Rightarrow> string \<Rightarrow> int \<Rightarrow> int \<Rightarrow> TCPAddr option
     \<Rightarrow> ('w, nconn) io" where
  "dialViaProxy dial tls proxyConfig dstHost dstPort timeout localAddr =
     (case proxyConfig of
        None \<Rightarrow> failE (Errorf ''nil proxy config'')
      | Some cfg \<Rightarrow>
      bindE (guardE (IsValid cfg) (Errorf (''invalid proxy config: '' @ ProxyConfig_String cfg))) (\<lambda>_.
      bindE (guardE (dstHost \<noteq> []) (Errorf ''empty destination host'')) (\<lambda>_.
      bindE (guardE (\<not> (dstPort \<le> 0 \<or> 65535 < dstPort))
               (Errorf (''invalid destination port: '' @ itoa dstPort))) (\<lambda>_.
      bindE (dialDirect dial (join_host_port (PHost cfg) (itoa (PPort cfg))) timeout localAddr) (\<lambda>conn.
      case proxy_handshake tls cfg dstHost dstPort timeout conn of
        (Inl err, _) \<Rightarrow> failE err
      | (Inr _, conn') \<Rightarrow> returnE conn')))))"

definition dialTransport ::
    "'w dialer \<Rightarrow> tls_handshake \<Rightarrow> string \<Rightarrow> int \<Rightarrow> int \<Rightarrow> 'w picker option \<Rightarrow> TCPAddr option
     \<Rightarrow> ('w, nconn) io" where
  "dialTransport dial tls host0 port timeout proxyPicker localAddr =
     (let host = trim_space host0; dstAddr = join_host_port host (itoa port) in
      bindE (guardE (host \<noteq> []) (Errorf ''empty destination host'')) (\<lambda>_.
      bindE (guardE (\<not> (port \<le> 0 \<or> 65535 < port))
               (Errorf (''invalid destination port: '' @ itoa port))) (\<lambda>_.
      bindE (case proxyPicker of Some pick \<Rightarrow> pick | None \<Rightarrow> returnE None) (\<lambda>proxyConfig.
      case proxyConfig of
        Some cfg \<Rightarrow> dialViaProxy dial tls (Some cfg) host port timeout localAddr
      | None \<Rightarrow> dialDirect dial dstAddr timeout localAddr))))"

definition NewTCPClient ::
    "'w dialer \<Rightarrow> tls_handshake \<Rightarrow> string \<Rightarrow> int \<Rightarrow> int \<Rightarrow> 'w picker option \<Rightarrow> LocalBindTCP option list
     \<Rightarrow> ('w, tcp_client) io" where
  "NewTCPClient dial tls host port timeout proxyPicker localBind =
     bindE (dialTransport dial tls host port timeout proxyPicker (firstLocalBind localBind)) (\<lambda>conn.
     returnE \<lparr>tconn = conn, ttimeout = timeout, isClosed = False\<rparr>)"

subsection \<open>TLS clients\<close>

record TLSConfig =
  ServerName :: string
  InsecureSkipVerify :: bool

text \<open>
  The upgrade in \<^verbatim>\<open>NewTLSClient\<close>, on the client: the handshake under a deadline, closing both
  layers when it fails.
\<close>

definition tls_upgrade :: "tls_handshake \<Rightarrow> string \<Rightarrow> int \<Rightarrow> (tcp_client, unit) io" where
  "tls_upgrade tls serverName timeout client =
     (let k = (if 0 < timeout then SetDeadline True (tconn client) else tconn client) in
      case tls serverName k of
        (Inl err, k1) \<Rightarrow> (Inl err, snd (Close (client\<lparr>tconn := snd (nclose k1)\<rparr>)))
      | (Inr plain, k1) \<Rightarrow> (Inr (), client\<lparr>tconn := SetDeadline False (TLSConn plain k1)\<rparr>))"

definition NewTLSClient ::
    "'w dialer \<Rightarrow> tls_handshake \<Rightarrow> string \<Rightarrow> int \<Rightarrow> int \<Rightarrow> 'w picker option \<Rightarrow> TLSConfig option
     \<Rightarrow> LocalBindTCP option list \<Rightarrow> ('w, tcp_client) io" where
  "NewTLSClient dial tls host0 port timeout proxyPicker conf localBind =
     (let host = trim_space host0 in
      bindE (guardE (host \<noteq> []) (Errorf ''empty tls host'')) (\<lambda>_.
      bindE (NewTCPClient dial tls host port timeout proxyPicker localBind) (\<lambda>client.
      let name = trim_space (case conf of Some f \<Rightarrow> ServerName f | None \<Rightarrow> []);
          serverName = (if name = [] then host else name) in
      case tls_upgrade tls serverName timeout client of
        (Inl err, _) \<Rightarrow> failE err
      | (Inr _, client') \<Rightarrow> returnE client')))"

definition NewTCPClientAutoTLS ::
    "'w dialer \<Rightarrow> tls_handshake \<Rightarrow> string \<Rightarrow> int \<Rightarrow> int \<Rightarrow> 'w picker option \<Rightarrow> bool
     \<Rightarrow> LocalBindTCP option list \<Rightarrow> ('w, tcp_client) io" where
  "NewTCPClientAutoTLS dial tls host port timeout proxyPicker isTLS localBind =
     (if isTLS then NewTLSClient dial tls host port timeout proxyPicker
                      (Some \<lparr>ServerName = host, InsecureSkipVerify = False\<rparr>) localBind
      else NewTCPClient dial tls host port timeout proxyPicker localBind)"

subsection \<open>Choosing a local address\<close>

record iface =
  ifname :: string
  FlagUp :: bool
  FlagLoopback :: bool
  addrs :: "string list option"

fun discoverPreferredLocalIP :: "iface list \<Rightarrow> byte list option" where
  "discoverPreferredLocalIP [] = None"
| "discoverPreferredLocalIP (i # is) =
     (let name = to_lower (ifname i) in
      if \<not> FlagUp i \<or> FlagLoopback i
         \<or> contains name ''vpn'' \<or> contains name ''wireguard'' \<or> has_prefix name ''wg''
      then discoverPreferredLocalIP is
      else case addrs i of
        None \<Rightarrow> discoverPreferredLocalIP is
      | Some as \<Rightarrow>
          (case List.find (\<lambda>ip. ip \<noteq> None) (map (\<lambda>a. parse_ip_to4 (hd (split_on ''/'' a))) as) of
             Some (Some ip) \<Rightarrow> Some ip
           | _ \<Rightarrow> discoverPreferredLocalIP is))"

subsection \<open>Nothing is left open or timed\<close>

text \<open>
  C34: a failed proxy handshake leaves the socket closed, for every proxy type, every peer and
  every TLS implementation; a successful one leaves no deadline armed.
\<close>

theorem proxy_handshake_cleans_up:
  "case proxy_handshake tls cfg host port timeout c of
     (Inl _, c') \<Rightarrow> \<not> socket_open c'
   | (Inr _, c') \<Rightarrow> \<not> deadline_armed c'"
  by (auto simp: proxy_handshake_def Let_def split: prod.splits sum.splits)

text \<open>
  Invalid destinations and invalid proxies are refused before anything is dialled, and a
  valid destination is dialled exactly once: the proxy's address when the picker yields a proxy,
  the destination itself when there is no picker or it yields none.
\<close>

theorem dial_routes:
  assumes "\<And>w. case proxyPicker of Some pick \<Rightarrow> pick w = (Inr choice, w) | None \<Rightarrow> choice = None"
  shows "dialTransport dial tls host port timeout proxyPicker la w =
    (if trim_space host = [] then (Inl (Errorf ''empty destination host''), w)
     else if port \<le> 0 \<or> 65535 < port then (Inl (Errorf (''invalid destination port: '' @ itoa port)), w)
     else case choice of
       None \<Rightarrow> dial (join_host_port (trim_space host) (itoa port)) timeout la w
     | Some cfg \<Rightarrow>
         if \<not> IsValid cfg then (Inl (Errorf (''invalid proxy config: '' @ ProxyConfig_String cfg)), w)
         else (case dial (Address cfg) timeout la w of
                 (Inl e, w') \<Rightarrow> (Inl e, w')
               | (Inr k, w') \<Rightarrow>
                   (case proxy_handshake tls cfg (trim_space host) port timeout k of
                      (Inl e, _) \<Rightarrow> (Inl e, w')
                    | (Inr _, k') \<Rightarrow> (Inr k', w'))))"
  using assms [of w]
  by (auto simp: dialTransport_def dialViaProxy_def dialDirect_def Address_def bindE_def guardE_def
      returnE_def failE_def Let_def split: option.splits prod.splits sum.splits)

lemma dial_routes_witness:
  "dialTransport (\<lambda>addr t l w. (Inl (Errorf addr), Suc w)) (\<lambda>n c. (Inl EOF, c)) '' h '' 80 0
     (Some (\<lambda>w. (Inr None, w))) None 0 = (Inl (Errorf ''h:80''), 1)"
proof -
  have "trim_space '' h '' = ''h''" by code_simp
  then show ?thesis
    by (subst dial_routes [where choice = None])
      (simp_all add: join_host_port_def itoa_def show_nat.simps)
qed

text \<open>
  A TLS client either fails with the transport closed, or holds the TLS connection with no
  deadline armed.
\<close>

theorem tls_upgrade_cleans_up:
  "case tls_upgrade tls name timeout client of
     (Inl _, client') \<Rightarrow> \<not> socket_open (tconn client')
   | (Inr _, client') \<Rightarrow> \<not> deadline_armed (tconn client') \<and> isClosed client' = isClosed client"
  by (auto simp: tls_upgrade_def Close_def close_conn_def Let_def dest: nclose_socket
      split: prod.splits sum.splits)

subsection \<open>Proxied clients are transparent\<close>

text \<open>What a proxy answers when it accepts, by the type of the proxy.\<close>

definition proxy_accepts :: "ProxyConfig \<Rightarrow> byte list \<Rightarrow> bool" where
  "proxy_accepts cfg inp \<longleftrightarrow>
     (if Type cfg = ProxyTypeHTTP then
        header_block inp \<and> length inp + 1024 \<le> maxHTTPHeaderSize \<and> parseStatusCode inp = 200
      else if Type cfg = ProxyTypeSOCKS5 then
        (\<exists>a b. inp = a @ b \<and> method_answer cfg a \<and> connect_answer b)
      else if Type cfg = ProxyTypeSOCKS4 then length inp = 8 \<and> inp ! 0 = 0x00 \<and> inp ! 1 = 0x5A
      else False)"

definition proxy_args_ok :: "ProxyConfig \<Rightarrow> string \<Rightarrow> int \<Rightarrow> bool" where
  "proxy_args_ok cfg host port \<longleftrightarrow> trim_space host \<noteq> [] \<and> 0 < port \<and> port \<le> 65535 \<and> IsValid cfg
     \<and> (Type cfg = ProxyTypeSOCKS5 \<longrightarrow> socks5_args_ok cfg host port)
     \<and> (Type cfg = ProxyTypeSOCKS4 \<longrightarrow> socks4_args_ok cfg host port)"

lemma proxy_types_distinct:
  "ProxyTypeHTTP \<noteq> ProxyTypeHTTPS" "ProxyTypeSOCKS5 \<noteq> ProxyTypeHTTP" "ProxyTypeSOCKS5 \<noteq> ProxyTypeHTTPS"
  "ProxyTypeSOCKS4 \<noteq> ProxyTypeHTTP" "ProxyTypeSOCKS4 \<noteq> ProxyTypeHTTPS" "ProxyTypeSOCKS4 \<noteq> ProxyTypeSOCKS5"
  by (simp_all add: proxy_types)

lemma advances_stream: "advances c out inp c' \<Longrightarrow> nstream c = (inp @ rest, e) \<Longrightarrow> nstream c' = (rest, e)"
  by (auto simp: advances_def prod_eq_iff)

lemma proxy_handler_accepted:
  assumes c: "nregular c" "nwrites_all c" and st: "nstream c = (inp @ rest, e)"
    and acc: "proxy_accepts cfg inp" and args: "proxy_args_ok cfg host port"
  shows "\<exists>c'. proxy_handler tls cfg (trim_space host) port timeout c = (Inr (), c') \<and> nstream c' = (rest, e)
     \<and> socket_open c' = socket_open c"
proof -
  consider (http) "Type cfg = ProxyTypeHTTP" | (socks5) "Type cfg = ProxyTypeSOCKS5" | (socks4) "Type cfg = ProxyTypeSOCKS4"
    using acc by (auto simp: proxy_accepts_def split: if_splits)
  then show ?thesis
  proof cases
    case http
    with http_connect_run [OF c st, of "trim_space host" port cfg timeout] acc args show ?thesis
      by (auto simp: proxy_handler_def proxy_accepts_def proxy_args_ok_def split: prod.splits)
  next
    case socks5
    then obtain a b where ab: "inp = a @ b" "method_answer cfg a" "connect_answer b"
      using acc proxy_types_distinct by (auto simp: proxy_accepts_def)
    moreover have "socks5_args_ok cfg (trim_space host) port"
      using args socks5 by (simp add: proxy_args_ok_def socks5_args_ok_def)
    ultimately obtain c' where "Socks5HandlerConn (Some cfg) (trim_space host) port c = (Inr (), c')"
      "nstream c' = (rest, e)" "socket_open c' = socket_open c"
      using socks5_run_complete [OF c, of cfg "trim_space host" port a b rest e] st by (auto simp: advances_def)
    with socks5 proxy_types_distinct show ?thesis by (simp add: proxy_handler_def)
  next
    case socks4
    have "socks4_args_ok cfg (trim_space host) port"
      using args socks4 by (simp add: proxy_args_ok_def socks4_args_ok_def)
    moreover have "length inp = 8" "inp ! 0 = 0" "inp ! 1 = 0x5A" "prefix inp (fst (nstream c))"
      using acc socks4 proxy_types_distinct st by (simp_all add: proxy_accepts_def)
    ultimately obtain c' where c': "Socks4HandlerConn (Some cfg) (trim_space host) port c = (Inr (), c')"
      "advances c (socks4_request (socks4_user cfg) (trim_space host) port) inp c'"
      using socks4_run [OF c, of cfg "trim_space host" port "socks4_request (socks4_user cfg) (trim_space host) port" inp]
      by auto
    with advances_stream [OF c'(2) st] socks4 proxy_types_distinct show ?thesis
      by (simp add: proxy_handler_def advances_def)
  qed
qed

text \<open>
  C11: a client made through an HTTP, SOCKS4 or SOCKS5 proxy that accepts is transparent: whatever
  the type and however the proxy's answer is cut, the client reads from the first byte after the
  answer on, is open and has no deadline armed.
\<close>

theorem proxied_client_transparent:
  assumes "pick w = (Inr (Some cfg), w1)"
    and "dial (Address cfg) timeout (firstLocalBind lb) w1 = (Inr k, w2)"
    and "nregular k" and "nwrites_all k" and "nstream k = (inp @ rest, e)"
    and "proxy_accepts cfg inp" and "proxy_args_ok cfg host port"
  shows "\<exists>client. NewTCPClient dial tls host port timeout (Some pick) lb w = (Inr client, w2)
    \<and> nstream (tconn client) = (rest, e) \<and> \<not> deadline_armed (tconn client) \<and> \<not> isClosed client
    \<and> socket_open (tconn client) = socket_open k"
proof -
  let ?c = "if 0 < timeout then SetDeadline True k else k"
  have "nregular ?c" "nwrites_all ?c" "nstream ?c = (inp @ rest, e)" "socket_open ?c = socket_open k"
    using assms(3-5) by simp_all
  then obtain c' where c': "proxy_handler tls cfg (trim_space host) port timeout ?c = (Inr (), c')"
    "nstream c' = (rest, e)" "socket_open c' = socket_open k"
    using proxy_handler_accepted [OF _ _ _ assms(6,7)] by metis
  have args: "trim_space host \<noteq> []" "(port \<le> 0 \<or> 65535 < port) = False" "IsValid cfg"
    using assms(7) by (auto simp: proxy_args_ok_def)
  have "NewTCPClient dial tls host port timeout (Some pick) lb w
      = (Inr \<lparr>tconn = SetDeadline False c', ttimeout = timeout, isClosed = False\<rparr>, w2)"
    using assms(1,2) args c'(1)
    by (simp add: NewTCPClient_def dialTransport_def dialViaProxy_def dialDirect_def Address_def bindE_def
        proxy_handshake_def returnE_apply Let_def)
  with c' show ?thesis by auto
qed

definition ex_socks5 :: ProxyConfig where
  "ex_socks5 = ex_proxy\<lparr>Type := ''socks5''\<rparr>"

definition ex_socks5_peer :: nconn where
  "ex_socks5_peer = ex_peer [([5], None), ([0, 5, 0, 0, 1, 10, 0, 0, 1], None), ([0, 80, 33], None)]"

lemma proxied_client_transparent_witness:
  "\<exists>client. NewTCPClient (\<lambda>a t l w. (Inr ex_socks5_peer, w)) (\<lambda>n c. (Inl EOF, c)) ''example.org'' 80 5
       (Some (\<lambda>w. (Inr (Some ex_socks5), w))) [] () = (Inr client, ())
    \<and> nstream (tconn client) = ([33], EOF) \<and> \<not> deadline_armed (tconn client) \<and> \<not> isClosed client
    \<and> socket_open (tconn client) = socket_open ex_socks5_peer"
proof (rule proxied_client_transparent [where inp = "[5, 0] @ [5, 0, 0, 1] @ [10, 0, 0, 1, 0, 80]"])
  have trim: "trim_space ''example.org'' = ''example.org''" "trim_space ''10.0.0.1'' = ''10.0.0.1''"
    "trim_space ''bob'' = ''bob''" "trim_space ''s:3'' = ''s:3''"
    by code_simp+
  show "proxy_args_ok ex_socks5 ''example.org'' 80"
    by (simp add: proxy_args_ok_def socks5_args_ok_def ex_socks5_def ex_proxy_def has_credentials_def trim
        IsValid_def ProxyType_IsValid_def proxy_types)
  show "proxy_accepts ex_socks5 ([5, 0] @ [5, 0, 0, 1] @ [10, 0, 0, 1, 0, 80])"
  proof -
    have "method_answer ex_socks5 [5, 0]" "connect_answer ([5, 0, 0, 1] @ [10, 0, 0, 1, 0, 80])"
      by (simp_all add: method_answer_def connect_answer_def)
    then have "\<exists>a b. [5, 0] @ [5, 0, 0, 1] @ [10, 0, 0, 1, 0, 80] = a @ b
        \<and> method_answer ex_socks5 a \<and> connect_answer b" by blast
    moreover have "Type ex_socks5 = ProxyTypeSOCKS5" by (simp add: ex_socks5_def proxy_types)
    ultimately show ?thesis
      unfolding proxy_accepts_def using proxy_types_distinct by (simp only: if_False if_True simp_thms)
  qed
qed (simp_all add: ex_socks5_peer_def ex_peer_def conn_regular_def regular_def conn_stream_def)

end
