(* ===== verification/Http_Client.thy ===== *)
theory Http_Client
  imports Http_Body Dialler
begin

text \<open>
  \<^verbatim>\<open>HTTPClient\<close> of \<^verbatim>\<open>network/http_client.go\<close>: one exchange over a fresh connection
  (\<^verbatim>\<open>doStreamOnce\<close>, \<^verbatim>\<open>doOnce\<close>), redirects, retries and the debug callback. What lies outside the
  package is gathered in \<open>http_env\<close>: the dialler, the TLS handshake, the decompressors, the growth
  of the buffer of \<^verbatim>\<open>io.ReadAll\<close> and the wait between retries, which fails with the context's
  error when the context ends first. A call with a nil client or request has no counterpart.
\<close>

record 'w HTTPClient =
  Timeout :: int
  Picker :: "'w picker option"
  LocalBind :: "LocalBindTCP option"
  UserAgent :: string
  MaxRedirects :: int
  MaxRetries :: int
  RetryDelay :: int
  AutoDecompress :: bool
  MaxBodySize :: int

record HTTPRequest =
  Method :: string
  URL :: string
  Headers :: headers
  Body :: "byte list"

record HTTPResponse =
  StatusCode :: int
  Status :: string
  RHeaders :: headers
  RBody :: "byte list"

text \<open>A streaming response: the body reader, and the client it came from.\<close>

record HTTPStreamResponse =
  SStatusCode :: int
  SStatus :: string
  SHeaders :: headers
  SBody :: body_reader

record HTTPDebugInfo =
  DMethod :: string
  DURL :: string
  ProxyUsed :: bool
  DStatusCode :: int
  DError :: "go_error option"
  Attempt :: nat

record 'w http_env =
  env_dial :: "'w dialer"
  env_tls :: tls_handshake
  env_z :: decompressors
  env_room :: "nat \<Rightarrow> nat"
  env_wait :: "('w, unit) io"
  env_order :: range_order

fun firstHTTPClientLocalBind :: "LocalBindTCP option list \<Rightarrow> LocalBindTCP option" where
  "firstHTTPClientLocalBind [] = None"
| "firstHTTPClientLocalBind (b # _) = b"

definition NewHTTPClient :: "int \<Rightarrow> 'w picker option \<Rightarrow> LocalBindTCP option list \<Rightarrow> 'w HTTPClient" where
  "NewHTTPClient timeout proxyPicker localBind =
     \<lparr>Timeout = timeout, Picker = proxyPicker, LocalBind = firstHTTPClientLocalBind localBind,
      UserAgent = defaultHTTPUserAgent, MaxRedirects = 5, MaxRetries = 0, RetryDelay = 300 * 10 ^ 6,
      AutoDecompress = True, MaxBodySize = 0\<rparr>"

definition defaultPortByScheme :: "string \<Rightarrow> int" where
  "defaultPortByScheme scheme = (if to_lower scheme = ''https'' then 443 else 80)"

definition cloneHTTPRequest :: "HTTPRequest \<Rightarrow> HTTPRequest" where
  "cloneHTTPRequest req =
     \<lparr>Method = Method req, URL = URL req, Headers = Headers req, Body = Body req\<rparr>"

definition isRedirectStatus :: "int \<Rightarrow> bool" where
  "isRedirectStatus code \<longleftrightarrow> code \<in> {301, 302, 303, 307, 308}"

definition resolveRedirectURL :: "string \<Rightarrow> string \<Rightarrow> go_error + string" where
  "resolveRedirectURL currentURL location =
     (case url_parse currentURL of
        Inl e \<Rightarrow> Inl e
      | Inr base \<Rightarrow>
          (case url_parse (trim_space location) of
             Inl e \<Rightarrow> Inl e
           | Inr next \<Rightarrow> Inr (url_string (ResolveReference base next))))"

definition nextRedirectRequest :: "HTTPRequest \<Rightarrow> string \<Rightarrow> int \<Rightarrow> HTTPRequest" where
  "nextRedirectRequest req nextURL statusCode =
     (let next = (cloneHTTPRequest req)\<lparr>URL := nextURL\<rparr>;
          mthd = to_upper (trim_space (Method next));
          next1 = (if statusCode = 303 \<or> ((statusCode = 301 \<or> statusCode = 302) \<and> mthd = ''POST'')
                   then next\<lparr>Method := ''GET'', Body := [],
                     Headers := removeHeader (removeHeader (Headers next) ''Content-Length'') ''Content-Type''\<rparr>
                   else next)
      in next1\<lparr>Headers := removeHeader (Headers next1) ''Host''\<rparr>)"

definition WebSocketCloseError_Error :: "16 word \<Rightarrow> string \<Rightarrow> string" where
  "WebSocketCloseError_Error code reason =
     (if reason \<noteq> [] then ''websocket closed: code='' @ show_nat (unat code) @ '' reason='' @ reason
      else ''websocket closed: code='' @ show_nat (unat code))"

text \<open>\<^verbatim>\<open>err.Error()\<close> for the errors the package meets.\<close>

fun error_text :: "go_error \<Rightarrow> string" where
  "error_text EOF = ''EOF''"
| "error_text ErrUnexpectedEOF = ''unexpected EOF''"
| "error_text ErrShortWrite = ''short write''"
| "error_text ErrNoProgress = ''multiple Read calls return no data or error''"
| "error_text Canceled = ''context canceled''"
| "error_text DeadlineExceeded = ''context deadline exceeded''"
| "error_text ErrTCPClientClosed = ''tcp client closed''"
| "error_text (Errorf s) = s"
| "error_text (Wrapf s e) = s @ error_text e"
| "error_text (Suffixf e s) = error_text e @ s"
| "error_text (NetError t s) = s"
| "error_text (WebSocketCloseError code reason) = WebSocketCloseError_Error code reason"

definition isRetryableHTTPError :: "go_error \<Rightarrow> bool" where
  "isRetryableHTTPError err \<longleftrightarrow>
     err = EOF \<or> is_net_timeout err
     \<or> list_ex (\<lambda>s. contains (to_lower (error_text err)) s)
         [''connection reset'', ''connection refused'', ''timeout'', ''temporary'', ''broken pipe'',
          ''proxy refused'', ''socks connect failed'']"

subsection \<open>One exchange\<close>

text \<open>
  The part of \<^verbatim>\<open>doStreamOnce\<close> that uses the connection: the request is written, the status line
  and the headers are read through a new \<^verbatim>\<open>bufio.Reader\<close>, the body reader is set up. On an error
  the client is closed.
\<close>

definition close_bufio_client :: "tcp_client \<Rightarrow> bufio \<Rightarrow> tcp_client" where
  "close_bufio_client client b = snd (Close (client\<lparr>tconn := bsrc b\<rparr>))"

definition http_exchange ::
    "'w http_env \<Rightarrow> 'w HTTPClient \<Rightarrow> string \<Rightarrow> url \<Rightarrow> HTTPRequest \<Rightarrow> tcp_client
     \<Rightarrow> (go_error + HTTPStreamResponse) \<times> tcp_client" where
  "http_exchange env c mthd u req client =
     (let rawRequest = buildRawHTTPRequest mthd u (Headers req) (Body req) (UserAgent c) (AutoDecompress c) in
      case WriteFull rawRequest client of
        (Inl err, client1) \<Rightarrow> (Inl err, snd (Close client1))
      | (Inr _, client1) \<Rightarrow>
      let b0 = bufio_new (if 0 < Timeout c then SetReadDeadline True (tconn client1) else tconn client1) in
      (case readHTTPLine b0 of
        (Inl err, b1) \<Rightarrow> (Inl err, close_bufio_client client1 b1)
      | (Inr statusLine, b1) \<Rightarrow>
      (case parseHTTPStatusCode statusLine of
        Inl err \<Rightarrow> (Inl err, close_bufio_client client1 b1)
      | Inr statusCode \<Rightarrow>
      (case readHTTPHeaders b1 of
        (Inl err, b2) \<Rightarrow> (Inl err, close_bufio_client client1 b2)
      | (Inr hs, b2) \<Rightarrow>
      (case buildHTTPBodyReader (env_order env) b2 hs of
        Inl err \<Rightarrow> (Inl err, close_bufio_client client1 b2)
      | Inr bodyReader \<Rightarrow>
      (case (if AutoDecompress c then wrapDecompressReader (env_order env) (env_z env) bodyReader hs else Inr bodyReader) of
        Inl err \<Rightarrow> (Inl err, close_bufio_client client1 b2)
      | Inr bodyReader' \<Rightarrow>
          (Inr \<lparr>SStatusCode = statusCode, SStatus = statusLine, SHeaders = hs, SBody = bodyReader'\<rparr>,
           client1\<lparr>tconn := bsrc b2\<rparr>)))))))"

definition doStreamOnce ::
    "'w http_env \<Rightarrow> 'w HTTPClient \<Rightarrow> HTTPRequest \<Rightarrow> ('w, HTTPStreamResponse \<times> tcp_client) io" where
  "doStreamOnce env c req =
     (let mthd0 = to_upper (trim_space (Method req));
          mthd = (if mthd0 = [] then ''GET'' else mthd0) in
      case url_parse (trim_space (URL req)) of
        Inl e \<Rightarrow> failE e
      | Inr u \<Rightarrow>
      bindE (guardE (\<not> (Scheme u \<noteq> ''http'' \<and> Scheme u \<noteq> ''https''))
               (Errorf (''unsupported URL scheme: '' @ Scheme u))) (\<lambda>_.
      bindE (guardE (Hostname u \<noteq> []) (Errorf ''empty URL host'')) (\<lambda>_.
      case (if Port u = [] then Some (defaultPortByScheme (Scheme u)) else atoi (Port u)) of
        None \<Rightarrow> failE (Errorf (''invalid URL port: '' @ Port u))
      | Some port \<Rightarrow>
      bindE (NewTCPClientAutoTLS (env_dial env) (env_tls env) (Hostname u) port (Timeout c) (Picker c)
               (Scheme u = ''https'') [LocalBind c]) (\<lambda>client.
      case http_exchange env c mthd u req client of
        (Inl err, _) \<Rightarrow> failE err
      | (Inr res, client') \<Rightarrow> returnE (res, client')))))"

text \<open>\<^verbatim>\<open>httpBodyCloser.Close\<close>: the read deadline is cleared and the client closed.\<close>

definition body_close :: "'w HTTPClient \<Rightarrow> body_reader \<Rightarrow> tcp_client \<Rightarrow> tcp_client" where
  "body_close c r client =
     (let k = bsrc (body_bufio r); k' = (if 0 < Timeout c then SetReadDeadline False k else k)
      in snd (Close (client\<lparr>tconn := k'\<rparr>)))"

text \<open>Reading the whole body, under the size limit if there is one.\<close>

definition read_body ::
    "'w http_env \<Rightarrow> 'w HTTPClient \<Rightarrow> body_reader \<Rightarrow> (byte list \<times> go_error option) \<times> body_reader" where
  "read_body env c r =
     (if 0 < MaxBodySize c then
        (case read_all_loop (Suc (Suc (body_budget r))) (limit_read body_read) (env_room env) []
                (nat (MaxBodySize c), r) of (x, (_, r')) \<Rightarrow> (x, r'))
      else read_all_loop (Suc (Suc (body_budget r))) body_read (env_room env) [] r)"

definition finish_response ::
    "'w http_env \<Rightarrow> 'w HTTPClient \<Rightarrow> HTTPStreamResponse \<Rightarrow> tcp_client
     \<Rightarrow> (go_error + HTTPResponse) \<times> tcp_client" where
  "finish_response env c res client =
     (case read_body env c (SBody res) of ((bs, e), r') \<Rightarrow>
        (case e of
           Some err \<Rightarrow> Inl err
         | None \<Rightarrow> Inr \<lparr>StatusCode = SStatusCode res, Status = SStatus res, RHeaders = SHeaders res, RBody = bs\<rparr>,
         body_close c r' client))"

definition doOnce :: "'w http_env \<Rightarrow> 'w HTTPClient \<Rightarrow> HTTPRequest \<Rightarrow> ('w, HTTPResponse) io" where
  "doOnce env c req =
     bindE (doStreamOnce env c req) (\<lambda>(res, client).
     case finish_response env c res client of
       (Inl err, _) \<Rightarrow> failE err
     | (Inr r, _) \<Rightarrow> returnE r)"

subsection \<open>Redirects\<close>

text \<open>\<open>n\<close> more requests are allowed.\<close>

fun redirect_loop :: "'w http_env \<Rightarrow> 'w HTTPClient \<Rightarrow> nat \<Rightarrow> HTTPRequest \<Rightarrow> ('w, HTTPResponse) io" where
  "redirect_loop env c 0 req = failE (Errorf ''too many redirects'')"
| "redirect_loop env c (Suc n) req =
     bindE (doOnce env c req) (\<lambda>res.
     if \<not> isRedirectStatus (StatusCode res) then returnE res
     else
       let location = getHeader (env_order env) (RHeaders res) ''Location'' in
       if location = [] then returnE res
       else case resolveRedirectURL (URL req) location of
         Inl e \<Rightarrow> failE e
       | Inr nextURL \<Rightarrow> redirect_loop env c n (nextRedirectRequest req nextURL (StatusCode res)))"

definition max_requests :: "'w HTTPClient \<Rightarrow> nat" where
  "max_requests c = Suc (nat (MaxRedirects c))"

definition doWithRedirects :: "'w http_env \<Rightarrow> 'w HTTPClient \<Rightarrow> HTTPRequest \<Rightarrow> ('w, HTTPResponse) io" where
  "doWithRedirects env c req = redirect_loop env c (max_requests c) (cloneHTTPRequest req)"

text \<open>The streaming variant closes the body of a response it leaves.\<close>

fun stream_redirect_loop ::
    "'w http_env \<Rightarrow> 'w HTTPClient \<Rightarrow> nat \<Rightarrow> HTTPRequest \<Rightarrow> ('w, HTTPStreamResponse \<times> tcp_client) io" where
  "stream_redirect_loop env c 0 req = failE (Errorf ''too many redirects'')"
| "stream_redirect_loop env c (Suc n) req =
     bindE (doStreamOnce env c req) (\<lambda>(res, client).
     if \<not> isRedirectStatus (SStatusCode res) then returnE (res, client)
     else
       let location = getHeader (env_order env) (SHeaders res) ''Location'' in
       if location = [] then returnE (res, client)
       else
         let closed = body_close c (SBody res) client in
         case resolveRedirectURL (URL req) location of
           Inl e \<Rightarrow> failE e
         | Inr nextURL \<Rightarrow> stream_redirect_loop env c n (nextRedirectRequest req nextURL (SStatusCode res)))"

definition doStreamWithRedirects ::
    "'w http_env \<Rightarrow> 'w HTTPClient \<Rightarrow> HTTPRequest \<Rightarrow> ('w, HTTPStreamResponse \<times> tcp_client) io" where
  "doStreamWithRedirects env c req = stream_redirect_loop env c (max_requests c) (cloneHTTPRequest req)"

subsection \<open>Retries\<close>

text \<open>
  The loop of \<^verbatim>\<open>Do\<close> and of \<^verbatim>\<open>DoStream\<close>, over the attempt: \<open>n\<close> more attempts are allowed, \<open>k\<close> were
  made. The result carries the calls of the debug callback; when no attempt is allowed at all, the
  code returns a nil response and a nil error, which is \<^term>\<open>Inr None\<close>.
\<close>

fun retry_loop ::
    "('w, 'r) io \<Rightarrow> ('w, unit) io \<Rightarrow> ('r \<Rightarrow> int) \<Rightarrow> HTTPRequest \<Rightarrow> bool \<Rightarrow> int \<Rightarrow> nat \<Rightarrow> nat \<Rightarrow> go_error option
     \<Rightarrow> 'w \<Rightarrow> ((go_error + 'r option) \<times> HTTPDebugInfo list) \<times> 'w" where
  "retry_loop attempt wait status req proxied delay 0 k lastErr w =
     ((case lastErr of None \<Rightarrow> Inr None | Some e \<Rightarrow> Inl e, []), w)"
| "retry_loop attempt wait status req proxied delay (Suc n) k lastErr w =
     (case attempt w of (r, w1) \<Rightarrow>
      let info = \<lparr>DMethod = Method req, DURL = URL req, ProxyUsed = proxied,
            DStatusCode = (case r of Inr res \<Rightarrow> status res | Inl _ \<Rightarrow> 0),
            DError = (case r of Inr _ \<Rightarrow> None | Inl e \<Rightarrow> Some e), Attempt = Suc k\<rparr> in
      case r of
        Inr res \<Rightarrow> ((Inr (Some res), [info]), w1)
      | Inl err \<Rightarrow>
          if \<not> isRetryableHTTPError err then ((Inl err, [info]), w1)
          else
            (case (if 0 < n \<and> 0 < delay then wait w1 else (Inr (), w1)) of
               (Inl ctxErr, w2) \<Rightarrow> ((Inl ctxErr, [info]), w2)
             | (Inr _, w2) \<Rightarrow>
                 (case retry_loop attempt wait status req proxied delay n (Suc k) (Some err) w2 of
                    ((x, infos), w3) \<Rightarrow> ((x, info # infos), w3))))"

definition Do ::
    "'w http_env \<Rightarrow> 'w HTTPClient \<Rightarrow> HTTPRequest
     \<Rightarrow> 'w \<Rightarrow> ((go_error + HTTPResponse option) \<times> HTTPDebugInfo list) \<times> 'w" where
  "Do env c req =
     (let currentReq = cloneHTTPRequest req in
      retry_loop (doWithRedirects env c currentReq) (env_wait env) StatusCode currentReq (Picker c \<noteq> None)
        (RetryDelay c) (nat (MaxRetries c + 1)) 0 None)"

definition DoStream ::
    "'w http_env \<Rightarrow> 'w HTTPClient \<Rightarrow> HTTPRequest
     \<Rightarrow> 'w \<Rightarrow> ((go_error + (HTTPStreamResponse \<times> tcp_client) option) \<times> HTTPDebugInfo list) \<times> 'w" where
  "DoStream env c req =
     (let currentReq = cloneHTTPRequest req in
      retry_loop (doStreamWithRedirects env c currentReq) (env_wait env) (\<lambda>(res, _). SStatusCode res) currentReq
        (Picker c \<noteq> None) (RetryDelay c) (nat (MaxRetries c + 1)) 0 None)"

definition Get where
  "Get env c rawURL hs = Do env c \<lparr>Method = ''GET'', URL = rawURL, Headers = hs, Body = []\<rparr>"

definition Delete where
  "Delete env c rawURL hs = Do env c \<lparr>Method = ''DELETE'', URL = rawURL, Headers = hs, Body = []\<rparr>"

definition Post where
  "Post env c rawURL hs body = Do env c \<lparr>Method = ''POST'', URL = rawURL, Headers = hs, Body = body\<rparr>"

definition Put where
  "Put env c rawURL hs body = Do env c \<lparr>Method = ''PUT'', URL = rawURL, Headers = hs, Body = body\<rparr>"


subsection \<open>An exchange from the request to the body\<close>

lemma readHTTPLine_frame:
  "nsent (bsrc (snd (readHTTPLine b))) = nsent (bsrc b) \<and> socket_open (bsrc (snd (readHTTPLine b))) = socket_open (bsrc b)"
  using read_string_frame [of b] by (auto simp: readHTTPLine_def simp del: read_string_frame split: prod.split option.split)

lemma readHTTPHeaders_loop_frame:
  "nsent (bsrc (snd (readHTTPHeaders_loop hs b))) = nsent (bsrc b)
   \<and> socket_open (bsrc (snd (readHTTPHeaders_loop hs b))) = socket_open (bsrc b)"
proof (induction hs b rule: readHTTPHeaders_loop.induct)
  case (1 hs b)
  show ?case
  proof (cases "readHTTPLine b")
    case (Pair x b')
    with 1 readHTTPLine_frame [of b] show ?thesis
      by (subst (1 2) readHTTPHeaders_loop.simps) (auto split: sum.split option.split nat.split)
  qed
qed

text \<open>Which bytes the body of a response has, after decompression.\<close>

definition decoded_body :: "'w http_env \<Rightarrow> bool \<Rightarrow> headers \<Rightarrow> byte list \<times> go_error \<Rightarrow> go_error + (byte list \<times> go_error)" where
  "decoded_body env auto hs st =
     (let encoding = to_lower (trim_space (field_value hs ''Content-Encoding'')) in
      if auto \<and> encoding = ''gzip'' then gunzip (env_z env) st
      else if auto \<and> encoding = ''deflate'' then Inr (inflate (env_z env) st)
      else Inr st)"

lemma wrapDecompressReader_decoded:
  assumes "body_regular r" and "visits_all (env_order env)" and "distinct_names hs"
  shows "case (if auto then wrapDecompressReader (env_order env) (env_z env) r hs else Inr r) of
     Inl e \<Rightarrow> decoded_body env auto hs (body_stream r) = Inl e
   | Inr r' \<Rightarrow> decoded_body env auto hs (body_stream r) = Inr (body_stream r') \<and> body_regular r'
       \<and> body_bufio r' = body_bufio r"
  using assms by (auto simp: getHeader_field_value wrapDecompressReader_def decoded_body_def Let_def split: sum.split prod.split)

lemma http_exchange_run:
  assumes c: "nwrites_all (tconn client)" "nregular (tconn client)" "\<not> isClosed client"
    and st: "nstream (tconn client) = (bytes_of (status @ crlf) @ bytes_of (fields_text fs @ crlf) @ raw, e)"
    and ok: "clean_line status" "parseHTTPStatusCode status = Inr code"
      "list_all clean_field fs" "distinct_names fs" "visits_all (env_order env)"
    and framed: "framed_body fs (raw, e) = Inr st1" and dec: "decoded_body env (AutoDecompress c) fs st1 = Inr st2"
  shows "\<exists>r client1. http_exchange env c mthd u req client
      = (Inr \<lparr>SStatusCode = code, SStatus = status, SHeaders = fs, SBody = r\<rparr>, client1)
    \<and> body_regular r \<and> body_stream r = st2 \<and> \<not> isClosed client1
    \<and> nsent (tconn client1) = nsent (tconn client)
        @ buildRawHTTPRequest mthd u (Headers req) (Body req) (UserAgent c) (AutoDecompress c)"
proof -
  let ?raw = "buildRawHTTPRequest mthd u (Headers req) (Body req) (UserAgent c) (AutoDecompress c)"
  obtain c1 where c1: "WriteFull ?raw client = (Inr (), c1)" "\<not> isClosed c1"
    "nsent (tconn c1) = nsent (tconn client) @ ?raw" "nstream (tconn c1) = nstream (tconn client)"
    "nregular (tconn c1)"
    using WriteFull_all [OF c(1,3), of ?raw] c(2) by blast
  let ?b0 = "bufio_new (if 0 < Timeout c then SetReadDeadline True (tconn c1) else tconn c1)"
  have b0: "bufio_regular ?b0" "bufio_stream ?b0 = (bytes_of (status @ crlf) @ bytes_of (fields_text fs @ crlf) @ raw, e)"
    "nsent (bsrc ?b0) = nsent (tconn client) @ ?raw"
    using c1 st by (simp_all add: bufio_new_def bufio_stream_def bufio_regular_def)
  obtain b1 where b1: "readHTTPLine ?b0 = (Inr status, b1)" "bufio_regular b1"
    "bufio_stream b1 = (bytes_of (fields_text fs @ crlf) @ raw, e)"
    using readHTTPLine_line [OF b0(1,2) ok(1)] by blast
  obtain b2 where b2: "readHTTPHeaders b1 = (Inr fs, b2)" "bufio_regular b2" "bufio_stream b2 = (raw, e)"
    using readHTTPHeaders_loop_fields [OF ok(3) _ b1(2,3), of "[]"] distinct_names_keys [OF ok(4)] by (auto simp: readHTTPHeaders_def)
  have sent2: "nsent (bsrc b2) = nsent (tconn client) @ ?raw"
    using readHTTPLine_frame [of ?b0] readHTTPHeaders_loop_frame [of "[]" b1] b0(3) b1(1) b2(1)
    by (simp add: readHTTPHeaders_def)
  obtain r where r: "buildHTTPBodyReader (env_order env) b2 fs = Inr r" "body_regular r" "body_stream r = st1"
    using buildHTTPBodyReader_framed [OF b2(2) ok(5,4)] framed b2(3) by (auto split: sum.splits)
  obtain r' where r': "(if AutoDecompress c then wrapDecompressReader (env_order env) (env_z env) r fs else Inr r) = Inr r'"
    "body_regular r'" "body_stream r' = st2"
    using wrapDecompressReader_decoded [OF r(2) ok(5,4), where auto = "AutoDecompress c"] dec r(3) by (auto split: sum.splits)
  have "http_exchange env c mthd u req client
      = (Inr \<lparr>SStatusCode = code, SStatus = status, SHeaders = fs, SBody = r'\<rparr>, c1\<lparr>tconn := bsrc b2\<rparr>)"
    unfolding http_exchange_def Let_def c1(1) prod.case sum.case b1(1) ok(2) b2(1) r(1) r'(1) ..
  with r' c1(2) sent2 show ?thesis by simp
qed

lemma read_body_result:
  assumes "body_regular r" and "body_stream r = (body, EOF)" and "\<And>n. 0 < env_room env n"
  shows "\<exists>r'. read_body env c r = ((if 0 < MaxBodySize c then take (nat (MaxBodySize c)) body else body, None), r')"
proof (cases "0 < MaxBodySize c")
  case True
  with body.read_all_limit [where room = "env_room env" and acc = "[]" and n = "nat (MaxBodySize c)", OF assms(1) lessI assms(3)] assms(2)
  show ?thesis by (fastforce simp: read_body_def simp del: read_all_loop.simps split: prod.split)
next
  case False
  with body.read_all_loop_result [where room = "env_room env" and acc = "[]" and fuel = "Suc (Suc (body_budget r))", OF assms(1) _ assms(3)] assms(2)
  show ?thesis by (fastforce simp: read_body_def simp del: read_all_loop.simps)
qed

lemma body_close_closes: "\<not> isClosed client \<Longrightarrow> isClosed (body_close c r client) \<and> \<not> socket_open (tconn (body_close c r client))"
  by (auto simp: body_close_def Close_def close_conn_def Let_def dest: nclose_socket split: prod.split)

lemma finish_response_closes:
  "finish_response env c res client = (x, client') \<Longrightarrow> \<not> isClosed client \<Longrightarrow> isClosed client' \<and> \<not> socket_open (tconn client')"
  using body_close_closes by (auto simp: finish_response_def split: prod.splits)

text \<open>
  C2: an exchange over a connection that takes the request returns what the server sent. If
  the server answers with a well-formed status line, well-formed header fields whose names differ
  in more than case and a body that its framing headers and its content encoding decode to \<open>body\<close>, then the server
  has been sent exactly the request, the response has that status code, status line, those header
  fields and that body (cut off at \<^verbatim>\<open>MaxBodySize\<close>, without an error, when the limit is
  positive), and the socket is closed at the end; in whatever order Go walks the header map, and
  however the answer is cut into reads.
\<close>

theorem exchange_returns_response:
  assumes "nwrites_all (tconn client)" and "nregular (tconn client)" and "\<not> isClosed client"
    and "nstream (tconn client) = (bytes_of (status @ crlf) @ bytes_of (fields_text fs @ crlf) @ raw, e)"
    and "clean_line status" and "parseHTTPStatusCode status = Inr code"
    and "list_all clean_field fs" and "distinct_names fs" and "visits_all (env_order env)"
    and "framed_body fs (raw, e) = Inr st"
    and "decoded_body env (AutoDecompress c) fs st = Inr (body, EOF)"
    and "\<And>n. 0 < env_room env n"
  shows "\<exists>res client1 client2. http_exchange env c mthd u req client = (Inr res, client1)
    \<and> nsent (tconn client1) = nsent (tconn client)
        @ buildRawHTTPRequest mthd u (Headers req) (Body req) (UserAgent c) (AutoDecompress c)
    \<and> finish_response env c res client1
        = (Inr \<lparr>StatusCode = code, Status = status, RHeaders = fs,
                RBody = (if 0 < MaxBodySize c then take (nat (MaxBodySize c)) body else body)\<rparr>, client2)
    \<and> \<not> socket_open (tconn client2)"
proof -
  obtain r client1 where ex: "http_exchange env c mthd u req client
      = (Inr \<lparr>SStatusCode = code, SStatus = status, SHeaders = fs, SBody = r\<rparr>, client1)"
    "body_regular r" "body_stream r = (body, EOF)" "\<not> isClosed client1"
    "nsent (tconn client1) = nsent (tconn client)
        @ buildRawHTTPRequest mthd u (Headers req) (Body req) (UserAgent c) (AutoDecompress c)"
    using http_exchange_run [OF assms(1-11)] by blast
  obtain r' where r': "read_body env c r
      = ((if 0 < MaxBodySize c then take (nat (MaxBodySize c)) body else body, None), r')"
    using read_body_result [OF ex(2,3) assms(12)] by blast
  then have fin: "finish_response env c \<lparr>SStatusCode = code, SStatus = status, SHeaders = fs, SBody = r\<rparr> client1
      = (Inr \<lparr>StatusCode = code, Status = status, RHeaders = fs,
              RBody = (if 0 < MaxBodySize c then take (nat (MaxBodySize c)) body else body)\<rparr>, body_close c r' client1)"
    by (simp add: finish_response_def)
  with finish_response_closes [OF fin ex(4)] ex(1,5) show ?thesis by blast
qed

text \<open>The example of the witnesses: a server that answers a request with a chunked body.\<close>

definition ex_env :: "unit http_env" where
  "ex_env = \<lparr>env_dial = (\<lambda>addr t l w. (Inl EOF, w)), env_tls = (\<lambda>n c. (Inl EOF, c)),
     env_z = \<lparr>gunzip = (\<lambda>st. Inr st), inflate = (\<lambda>st. st)\<rparr>, env_room = (\<lambda>n. 512), env_wait = (\<lambda>w. (Inr (), w)), env_order = (\<lambda>_. rev)\<rparr>"

definition ex_http :: "unit HTTPClient" where
  "ex_http = (NewHTTPClient 5 None [])\<lparr>MaxBodySize := 3\<rparr>"

definition ex_request :: HTTPRequest where
  "ex_request = \<lparr>Method = ''GET'', URL = ''http://h/'', Headers = [], Body = []\<rparr>"

definition ex_server :: tcp_client where
  "ex_server = \<lparr>tconn = ex_peer [(bytes_of (''HTTP/1.1 200 OK'' @ crlf), None),
     (bytes_of (fields_text [(''Content-Length'', ''5'')] @ crlf) @ [1, 2], None), ([3, 4, 5], Some EOF)],
     ttimeout = 5, isClosed = False\<rparr>"

lemma exchange_returns_response_witness:
  "let u = empty_url\<lparr>Host := ''h''\<rparr>; req = \<lparr>Method = ''GET'', URL = ''http://h'', Headers = [], Body = []\<rparr> in
   \<exists>res client1 client2. http_exchange ex_env ex_http ''GET'' u req ex_server = (Inr res, client1)
    \<and> nsent (tconn client1) = nsent (tconn ex_server)
        @ buildRawHTTPRequest ''GET'' u (Headers req) (Body req) (UserAgent ex_http) (AutoDecompress ex_http)
    \<and> finish_response ex_env ex_http res client1
        = (Inr \<lparr>StatusCode = 200, Status = ''HTTP/1.1 200 OK'', RHeaders = [(''Content-Length'', ''5'')],
                RBody = (if 0 < MaxBodySize ex_http then take (nat (MaxBodySize ex_http)) [1, 2, 3, 4, 5] else [1, 2, 3, 4, 5])\<rparr>, client2)
    \<and> \<not> socket_open (tconn client2)"
  unfolding Let_def
proof (rule exchange_returns_response)
  show "list_all clean_field [(''Content-Length'', ''5'')]"
    by code_simp
  show "parseHTTPStatusCode ''HTTP/1.1 200 OK'' = Inr 200" by code_simp
  show "framed_body [(''Content-Length'', ''5'')] ([1, 2, 3, 4, 5], EOF) = Inr ([1, 2, 3, 4, 5], EOF)"
    by code_simp
  show "decoded_body ex_env (AutoDecompress ex_http) [(''Content-Length'', ''5'')] ([1, 2, 3, 4, 5], EOF) = Inr ([1, 2, 3, 4, 5], EOF)"
    by code_simp
qed (simp_all add: ex_server_def ex_peer_def ex_env_def clean_line_def conn_regular_def regular_def conn_stream_def
    fields_text_def header_line_def visits_all_def distinct_names_def)

text \<open>
  When an exchange fails, its client is closed; the socket itself is closed too, except
  when it was the writing of the request that failed, where the flag set by the failed
  \<^verbatim>\<open>Write\<close> keeps \<^verbatim>\<open>Close\<close> from reaching the socket.
\<close>

theorem failed_exchange_closes:
  "case http_exchange env c mthd u req client of
     (Inr _, _) \<Rightarrow> True
   | (Inl err, client') \<Rightarrow> isClosed client' \<and>
       (socket_open (tconn client') \<longrightarrow> isClosed client \<or> fst (WriteFull
          (buildRawHTTPRequest mthd u (Headers req) (Body req) (UserAgent c) (AutoDecompress c)) client) = Inl err)"
proof -
  have closes: "isClosed (close_bufio_client k b) \<and> (socket_open (tconn (close_bufio_client k b)) \<longrightarrow> isClosed k)" for k b
    by (auto simp: close_bufio_client_def Close_def close_conn_def dest: nclose_socket split: prod.split)
  have close: "isClosed (snd (Close k))" for k
    by (auto simp: Close_def close_conn_def split: prod.split)
  obtain x k where w: "WriteFull (buildRawHTTPRequest mthd u (Headers req) (Body req) (UserAgent c) (AutoDecompress c)) client = (x, k)"
    by force
  have "isClosed k \<longrightarrow> isClosed client" if "x = Inr ()"
    using WriteFull_open [OF w [unfolded that]] by simp
  with w closes close show ?thesis
    unfolding http_exchange_def Let_def
    by (auto split: prod.split sum.split)
qed

definition ex_silent :: tcp_client where
  "ex_silent = \<lparr>tconn = ex_peer [([72, 84], None)], ttimeout = 5, isClosed = False\<rparr>"

lemma failed_exchange_closes_witness:
  "\<exists>client'. http_exchange ex_env ex_http ''GET'' empty_url ex_request ex_silent = (Inl EOF, client')
     \<and> isClosed client' \<and> \<not> socket_open (tconn client')"
proof -
  have "isl (fst (WriteFull (buildRawHTTPRequest ''GET'' empty_url (Headers ex_request) (Body ex_request)
      (UserAgent ex_http) (AutoDecompress ex_http)) ex_silent)) = False" by code_simp
  moreover have "map_prod id (\<lambda>_. ()) (http_exchange ex_env ex_http ''GET'' empty_url ex_request ex_silent)
      = (Inl EOF, ())" by code_simp
  moreover have "\<not> isClosed ex_silent" by (simp add: ex_silent_def)
  ultimately show ?thesis
    using failed_exchange_closes [where env = ex_env and c = ex_http and mthd = "''GET''" and u = empty_url
        and req = ex_request and client = ex_silent]
    by (cases "http_exchange ex_env ex_http ''GET'' empty_url ex_request ex_silent") auto
qed

subsection \<open>Redirects\<close>

text \<open>
  What following redirects means, without a bound: a chain of requests, each answered by a
  redirect to the next, that ends with a response, with an error, or with one more redirect.
\<close>

datatype 'r redirect_outcome = Finished_with "go_error + 'r" | Redirected_again

inductive redirect_run ::
    "(HTTPRequest \<Rightarrow> ('w, 'r) io) \<Rightarrow> ('r \<Rightarrow> int) \<Rightarrow> ('r \<Rightarrow> string)
     \<Rightarrow> HTTPRequest list \<Rightarrow> 'w \<Rightarrow> 'r redirect_outcome \<Rightarrow> 'w \<Rightarrow> bool"
  for once code loc where
  failed: "once req w = (Inl e, w') \<Longrightarrow> redirect_run once code loc [req] w (Finished_with (Inl e)) w'"
| answered: "once req w = (Inr res, w') \<Longrightarrow>
    \<not> isRedirectStatus (code res) \<or> loc res = [] \<Longrightarrow>
    redirect_run once code loc [req] w (Finished_with (Inr res)) w'"
| bad_location: "once req w = (Inr res, w') \<Longrightarrow> isRedirectStatus (code res) \<Longrightarrow>
    loc res \<noteq> [] \<Longrightarrow>
    resolveRedirectURL (URL req) (loc res) = Inl e \<Longrightarrow>
    redirect_run once code loc [req] w (Finished_with (Inl e)) w'"
| redirected: "once req w = (Inr res, w') \<Longrightarrow> isRedirectStatus (code res) \<Longrightarrow>
    loc res \<noteq> [] \<Longrightarrow>
    resolveRedirectURL (URL req) (loc res) = Inr nextURL \<Longrightarrow>
    redirect_run once code loc [req] w Redirected_again w'"
| followed: "once req w = (Inr res, w1) \<Longrightarrow> isRedirectStatus (code res) \<Longrightarrow>
    loc res \<noteq> [] \<Longrightarrow>
    resolveRedirectURL (URL req) (loc res) = Inr nextURL \<Longrightarrow>
    next = nextRedirectRequest req nextURL (code res) \<Longrightarrow>
    redirect_run once code loc (next # reqs) w1 out w' \<Longrightarrow>
    redirect_run once code loc (req # next # reqs) w out w'"

text \<open>A loop that follows redirects for at most a number of requests, as both clients have.\<close>

locale redirect_follower =
  fixes once :: "HTTPRequest \<Rightarrow> ('w, 'r) io" and code :: "'r \<Rightarrow> int" and loc :: "'r \<Rightarrow> string"
    and loop :: "nat \<Rightarrow> HTTPRequest \<Rightarrow> ('w, 'r) io"
  assumes loop_0: "loop 0 req w = (Inl (Errorf ''too many redirects''), w)"
    and loop_Suc: "loop (Suc n) req w = (case once req w of
        (Inl e, w1) \<Rightarrow> (Inl e, w1)
      | (Inr res, w1) \<Rightarrow>
          if isRedirectStatus (code res) \<and> loc res \<noteq> [] then
            (case resolveRedirectURL (URL req) (loc res) of
               Inl e \<Rightarrow> (Inl e, w1)
             | Inr nextURL \<Rightarrow> loop n (nextRedirectRequest req nextURL (code res)) w1)
          else (Inr res, w1))"
begin

lemma loop_follows:
  "loop (Suc n) req w = (r, w') \<Longrightarrow> \<exists>reqs out. redirect_run once code loc (req # reqs) w out w'
     \<and> length reqs \<le> n \<and> (case out of Finished_with x \<Rightarrow> r = x
         | Redirected_again \<Rightarrow> length reqs = n \<and> r = Inl (Errorf ''too many redirects''))"
proof (induction n arbitrary: req w)
  case (0 req w)
  obtain x w1 where o: "once req w = (x, w1)" by force
  consider (fin) "redirect_run once code loc [req] w (Finished_with r) w'"
    | (again) "redirect_run once code loc [req] w Redirected_again w'" "r = Inl (Errorf ''too many redirects'')"
    using 0 o by (auto simp: loop_Suc loop_0 split: sum.splits if_splits intro: redirect_run.intros)
  then show ?case by cases fastforce+
next
  case (Suc n req w)
  obtain x w1 where o: "once req w = (x, w1)" by force
  show ?case
  proof (cases "\<exists>res nextURL. x = Inr res \<and> isRedirectStatus (code res) \<and> loc res \<noteq> []
      \<and> resolveRedirectURL (URL req) (loc res) = Inr nextURL")
    case True
    then obtain res nextURL where x: "x = Inr res" "isRedirectStatus (code res)"
      "loc res \<noteq> []"
      "resolveRedirectURL (URL req) (loc res) = Inr nextURL" by blast
    let ?next = "nextRedirectRequest req nextURL (code res)"
    have "loop (Suc n) ?next w1 = (r, w')"
      using Suc.prems o x by (subst (asm) loop_Suc) simp
    from Suc.IH [OF this] obtain reqs out where run: "redirect_run once code loc (?next # reqs) w1 out w'"
      "length reqs \<le> n" "case out of Finished_with x \<Rightarrow> r = x
         | Redirected_again \<Rightarrow> length reqs = n \<and> r = Inl (Errorf ''too many redirects'')" by blast
    have "redirect_run once code loc (req # ?next # reqs) w out w'"
      using redirect_run.followed [OF o [unfolded x(1)] x(2-4) refl run(1)] .
    with run(2,3) show ?thesis
      by (intro exI [of _ "?next # reqs"] exI [of _ out]) (auto split: redirect_outcome.splits)
  next
    case False
    then have "redirect_run once code loc [req] w (Finished_with r) w'"
      using Suc.prems o by (subst (asm) loop_Suc) (auto split: sum.splits if_splits intro: redirect_run.intros)
    then show ?thesis by (intro exI [of _ "[]"] exI [of _ "Finished_with r"]) simp
  qed
qed

end

interpretation plain: redirect_follower "doOnce env c" StatusCode
    "\<lambda>res. getHeader (env_order env) (RHeaders res) ''Location''" "redirect_loop env c" for env c
  by unfold_locales
    (auto simp: bindE_apply Let_def returnE_def failE_def split: prod.split sum.split)

interpretation streamed: redirect_follower "doStreamOnce env c" "\<lambda>(res, _). SStatusCode res"
    "\<lambda>(res, _). getHeader (env_order env) (SHeaders res) ''Location''" "stream_redirect_loop env c" for env c
  by unfold_locales
    (auto simp: bindE_apply Let_def returnE_def failE_def split: prod.split sum.split)

lemma cloneHTTPRequest_id [simp]: "cloneHTTPRequest req = req"
  by (simp add: cloneHTTPRequest_def)

definition bounded_run ::
    "(HTTPRequest \<Rightarrow> ('w, 'r) io) \<Rightarrow> ('r \<Rightarrow> int) \<Rightarrow> ('r \<Rightarrow> string) \<Rightarrow> int \<Rightarrow> HTTPRequest
     \<Rightarrow> 'w \<Rightarrow> (go_error + 'r) \<times> 'w \<Rightarrow> bool" where
  "bounded_run once code loc m req w result \<longleftrightarrow>
     (\<exists>reqs out. redirect_run once code loc (req # reqs) w out (snd result) \<and> int (length reqs) \<le> m
        \<and> (case out of Finished_with x \<Rightarrow> fst result = x
           | Redirected_again \<Rightarrow> int (length reqs) = m \<and> fst result = Inl (Errorf ''too many redirects'')))"

text \<open>
  C10: \<^verbatim>\<open>doWithRedirects\<close> sends at most one request more than \<^verbatim>\<open>MaxRedirects\<close> (one, when that
  is negative), each the redirected form of the one before it; it gives the response or the error
  that ends the chain, and ``too many redirects'' only when all these requests were answered
  with redirects. The streaming client behaves in the same way.
\<close>

theorem redirects_bounded:
  "bounded_run (doOnce env c) StatusCode (\<lambda>res. getHeader (env_order env) (RHeaders res) ''Location'')
     (if MaxRedirects c < 0 then 0 else MaxRedirects c) req w
     (doWithRedirects env c req w)
   \<and> bounded_run (doStreamOnce env c) (\<lambda>(res, _). SStatusCode res) (\<lambda>(res, _). getHeader (env_order env) (SHeaders res) ''Location'')
     (if MaxRedirects c < 0 then 0 else MaxRedirects c) req w (doStreamWithRedirects env c req w)"
proof -
  have n: "int n \<le> (if MaxRedirects c < 0 then 0 else MaxRedirects c) \<longleftrightarrow> n \<le> nat (MaxRedirects c)"
    "int n = (if MaxRedirects c < 0 then 0 else MaxRedirects c) \<longleftrightarrow> n = nat (MaxRedirects c)" for n by auto
  show ?thesis
    unfolding bounded_run_def n
    using plain.loop_follows [of env c "nat (MaxRedirects c)" req w]
      streamed.loop_follows [of env c "nat (MaxRedirects c)" req w]
    by (simp add: doWithRedirects_def doStreamWithRedirects_def max_requests_def
        del: redirect_loop.simps stream_redirect_loop.simps)
qed

definition without_headers :: "string list \<Rightarrow> headers \<Rightarrow> headers" where
  "without_headers ks hs = filter (\<lambda>(k, v). \<not> list_ex (equal_fold (trim_space k)) ks) hs"

lemma without_headers_gone:
  assumes "key \<in> set ks"
  shows "\<not> hasHeader (without_headers ks hs) key"
proof -
  have none: "\<not> equal_fold (trim_space (fst kv)) key" if "kv \<in> set (without_headers ks hs)" for kv
    using that assms by (auto simp: list_ex_iff without_headers_def)
  then show ?thesis unfolding hasHeader_def by (auto simp: list_ex_iff)
qed

lemma removeHeader_without: "removeHeader hs key = without_headers [key] hs"
  by (simp add: removeHeader_def without_headers_def)

lemma without_headers_twice: "without_headers ks (without_headers ls hs) = without_headers (ls @ ks) hs"
  unfolding without_headers_def filter_filter by (rule filter_cong) (auto simp: case_prod_unfold)

text \<open>
  The request that follows a redirect goes to the new URL and carries no \<^verbatim>\<open>Host\<close> header.
  After a 303, or a 301 or 302 answer to a POST, it is a GET without a body and without
  \<^verbatim>\<open>Content-Length\<close> and \<^verbatim>\<open>Content-Type\<close> headers; otherwise method and body are kept. Every other
  header is kept, whatever the host of the new URL.
\<close>

theorem redirect_request_rewritten:
  "let next = nextRedirectRequest req nextURL code;
       to_get = (code = 303 \<or> ((code = 301 \<or> code = 302) \<and> to_upper (trim_space (Method req)) = ''POST''));
       dropped = (if to_get then [''Content-Length'', ''Content-Type'', ''Host''] else [''Host'']) in
   URL next = nextURL
   \<and> Method next = (if to_get then ''GET'' else Method req) \<and> Body next = (if to_get then [] else Body req)
   \<and> Headers next = without_headers dropped (Headers req)
   \<and> list_all (\<lambda>key. \<not> hasHeader (Headers next) key) dropped"
proof -
  have gone: "list_all (\<lambda>key. \<not> hasHeader (without_headers ks hs) key) ks" for ks hs
    unfolding list_all_iff using without_headers_gone by blast
  show ?thesis
  proof (cases "code = 303 \<or> ((code = 301 \<or> code = 302) \<and> to_upper (trim_space (Method req)) = ''POST'')")
    case True
    then have "nextRedirectRequest req nextURL code = req\<lparr>URL := nextURL, Method := ''GET'', Body := [],
        Headers := without_headers [''Content-Length'', ''Content-Type'', ''Host''] (Headers req)\<rparr>"
      by (simp add: nextRedirectRequest_def Let_def removeHeader_without without_headers_twice)
    with True gone [of "[''Content-Length'', ''Content-Type'', ''Host'']" "Headers req"] show ?thesis
      by (simp only: Let_def if_True) simp
  next
    case False
    then have "nextRedirectRequest req nextURL code
        = req\<lparr>URL := nextURL, Headers := without_headers [''Host''] (Headers req)\<rparr>"
      by (auto simp: nextRedirectRequest_def Let_def removeHeader_without)
    with False gone [of "[''Host'']" "Headers req"] show ?thesis
      by (simp only: Let_def if_False) simp
  qed
qed

subsection \<open>Retries\<close>

text \<open>The calls of the debug callback tell the story: numbered from one, all but the last a failure worth a retry.\<close>

definition retry_story :: "nat \<Rightarrow> HTTPDebugInfo list \<Rightarrow> bool" where
  "retry_story k infos \<longleftrightarrow> map Attempt infos = map Suc [k ..< k + length infos]
     \<and> list_all (\<lambda>i. case DError i of None \<Rightarrow> False | Some e \<Rightarrow> isRetryableHTTPError e) (butlast infos)"

lemma retry_story_Cons:
  "Attempt i = Suc k \<Longrightarrow> DError i = Some e \<Longrightarrow> isRetryableHTTPError e \<Longrightarrow> retry_story (Suc k) infos
   \<Longrightarrow> retry_story k (i # infos)"
  by (auto simp: retry_story_def upt_conv_Cons)

lemma retry_loop_story:
  "retry_loop attempt wait status req proxied delay n k lastErr w = ((x, infos), w') \<Longrightarrow>
     length infos \<le> n \<and> retry_story k infos
     \<and> (0 < n \<longrightarrow> infos \<noteq> [])
     \<and> (case x of
          Inr (Some res) \<Rightarrow> infos \<noteq> [] \<and> DError (last infos) = None \<and> DStatusCode (last infos) = status res
        | Inr None \<Rightarrow> n = 0 \<and> lastErr = None
        | Inl e \<Rightarrow> (infos = [] \<and> lastErr = Some e) \<or>
            (infos \<noteq> [] \<and> (DError (last infos) = Some e \<and> (isRetryableHTTPError e \<longrightarrow> length infos = n)
              \<or> (\<exists>v. fst (wait v) = Inl e) \<and> length infos < n)))"
proof (induction n arbitrary: k lastErr w x infos w')
  case 0
  then show ?case by (auto simp: retry_story_def split: option.splits)
next
  case (Suc n)
  obtain r w1 where a: "attempt w = (r, w1)" by force
  show ?case
  proof (cases "\<exists>err. r = Inl err \<and> isRetryableHTTPError err")
    case False
    with Suc.prems a show ?thesis by (auto simp: retry_story_def Let_def split: sum.splits)
  next
    case True
    then obtain err where r: "r = Inl err" "isRetryableHTTPError err" by blast
    obtain y w2 where wt: "(if 0 < n \<and> 0 < delay then wait w1 else (Inr (), w1)) = (y, w2)" by force
    show ?thesis
    proof (cases y)
      case (Inl e)
      then have "0 < n" "fst (wait w1) = Inl e" using wt by (auto split: if_splits)
      with Suc.prems a r wt Inl show ?thesis by (auto simp: retry_story_def Let_def)
    next
      case (Inr u)
      obtain x' infos' w3 where l: "retry_loop attempt wait status req proxied delay n (Suc k) (Some err) w2
          = ((x', infos'), w3)" by (metis surj_pair)
      let ?info = "\<lparr>DMethod = Method req, DURL = URL req, ProxyUsed = proxied, DStatusCode = 0,
          DError = Some err, Attempt = Suc k\<rparr>"
      have xi: "x = x'" "infos = ?info # infos'" using Suc.prems a r wt Inr l by (auto simp: Let_def)
      note IH = Suc.IH [OF l]
      have "retry_story k (?info # infos')"
        using IH r(2) by (intro retry_story_Cons [where e = err]) simp_all
      with IH r(2) show ?thesis
        unfolding xi by (cases "infos' = []") (auto split: sum.splits option.splits)
    qed
  qed
qed

text \<open>
  C21: \<^verbatim>\<open>Do\<close> makes at most one attempt more than \<^verbatim>\<open>MaxRetries\<close>, reports them to the debug
  callback numbered from one, and goes on after an attempt only if it failed with a retryable
  error. A response is the last attempt's; an error is the last attempt's and is then not
  retryable or the attempts are used up, or it is the context's error from a wait between two attempts. There
  is no result at all exactly when \<^verbatim>\<open>MaxRetries\<close> is negative: the request is not sent, and
  the caller gets a nil response and a nil error.
\<close>

theorem retries_bounded:
  "case Do env c req w of ((x, infos), w') \<Rightarrow>
     int (length infos) \<le> (if MaxRetries c < 0 then 0 else MaxRetries c + 1) \<and> retry_story 0 infos
     \<and> (x = Inr None \<longleftrightarrow> MaxRetries c < 0) \<and> (infos = [] \<longleftrightarrow> MaxRetries c < 0) \<and> (infos = [] \<longrightarrow> w' = w)
     \<and> (case x of
          Inr (Some res) \<Rightarrow> DError (last infos) = None \<and> DStatusCode (last infos) = StatusCode res
        | Inr None \<Rightarrow> True
        | Inl e \<Rightarrow> (DError (last infos) = Some e
              \<and> (isRetryableHTTPError e \<longrightarrow> int (length infos) = MaxRetries c + 1))
            \<or> (\<exists>v. fst (env_wait env v) = Inl e))"
proof -
  obtain x infos w' where d: "Do env c req w = ((x, infos), w')" by (metis surj_pair)
  note story = retry_loop_story [OF d [unfolded Do_def Let_def]]
  show ?thesis
  proof (cases "MaxRetries c < 0")
    case True
    with d show ?thesis by (auto simp: Do_def Let_def retry_story_def)
  next
    case False
    with story show ?thesis unfolding d by (auto split: sum.splits option.splits)
  qed
qed

text \<open>A world that counts the dials, all of which are refused, and a client with two retries.\<close>

definition ex_refused :: "nat http_env" where
  "ex_refused = \<lparr>env_dial = (\<lambda>addr t l w. (Inl (Errorf ''connection refused''), Suc w)), env_tls = (\<lambda>n c. (Inl EOF, c)),
     env_z = \<lparr>gunzip = (\<lambda>st. Inr st), inflate = (\<lambda>st. st)\<rparr>, env_room = (\<lambda>n. 512), env_wait = (\<lambda>w. (Inr (), w)), env_order = (\<lambda>_. rev)\<rparr>"

definition ex_retrying :: "nat HTTPClient" where
  "ex_retrying = (NewHTTPClient 5 None [])\<lparr>MaxRetries := 2\<rparr>"

lemma ex_refused_run:
  "map_prod (map_prod id (map Attempt)) id (Do ex_refused ex_retrying ex_request 0)
   = ((Inl (Errorf ''connection refused''), [1, 2, 3]), 3)"
  by code_simp

lemma retries_bounded_witness:
  "\<exists>infos w'. Do ex_refused ex_retrying ex_request 0 = ((Inl (Errorf ''connection refused''), infos), w')
     \<and> length infos = 3 \<and> w' = 3 \<and> retry_story 0 infos"
proof -
  obtain infos where d: "Do ex_refused ex_retrying ex_request 0 = ((Inl (Errorf ''connection refused''), infos), 3)"
    "map Attempt infos = [1, 2, 3]"
    using ex_refused_run by (cases "Do ex_refused ex_retrying ex_request 0") auto
  then have "length infos = length [1::nat, 2, 3]" by (metis length_map)
  with retries_bounded [where env = ex_refused and c = ex_retrying and req = ex_request and w = 0] d show ?thesis by simp
qed

end
