(* ===== verification/WebSocket_Client.thy ===== *)
theory WebSocket_Client
  imports WebSocket_Frame Http_Client
begin

text \<open>
  \<^verbatim>\<open>WebSocketClient\<close> of \<^verbatim>\<open>network/websocket_client.go\<close>: the opening handshake, sending, the
  reassembly of messages by \<^verbatim>\<open>ReadMessage\<close>, closing, and the goroutines of \<^verbatim>\<open>Listen\<close> and
  \<^verbatim>\<open>StartPing\<close>. The random bytes (\<^verbatim>\<open>crypto/rand\<close>), \<^verbatim>\<open>sha1\<close>, the dialler and the TLS handshake are
  parameters.
\<close>

definition websocketGUID :: string where
  "websocketGUID = ''258EAFA5-E914-47DA-95CA-C5AB0DC85B11''"

text \<open>
  The \<^verbatim>\<open>bufio.Reader\<close> made in the handshake and the TCP client share one connection: the reader of
  the model holds its buffer, the connection is the TCP client's. \<open>draws\<close> counts the masking keys
  drawn so far.
\<close>

record WebSocketClient =
  tcp :: tcp_client
  wreader :: bufio
  wtimeout :: int
  readTimeout :: int
  wclosed :: bool
  maxPayloadSize :: int
  disableAutoPong :: bool
  draws :: nat

record 'w WebSocketConfig =
  WTimeout :: int
  WPicker :: "'w picker option"
  WLocalBind :: "LocalBindTCP option"
  WHeaders :: headers
  WUserAgent :: string
  Compress :: bool
  Protocols :: "string list"
  PingInterval :: int
  PingPayload :: "byte list"
  MaxPayloadSize :: int
  ReadTimeout :: int
  DisableAutoPong :: bool

record WebSocketMessage =
  MOpcode :: byte
  MData :: "byte list"

definition shared_reader :: "WebSocketClient \<Rightarrow> bufio" where
  "shared_reader c = (wreader c)\<lparr>bsrc := tconn (tcp c)\<rparr>"

definition put_reader :: "bufio \<Rightarrow> WebSocketClient \<Rightarrow> WebSocketClient" where
  "put_reader b c = c\<lparr>wreader := b, tcp := (tcp c)\<lparr>tconn := bsrc b\<rparr>\<rparr>"

definition on_conn :: "(nconn \<Rightarrow> nconn) \<Rightarrow> WebSocketClient \<Rightarrow> WebSocketClient" where
  "on_conn f c = c\<lparr>tcp := (tcp c)\<lparr>tconn := f (tconn (tcp c))\<rparr>\<rparr>"

subsection \<open>The opening handshake\<close>

definition generateWebSocketKey :: "go_error + byte list \<Rightarrow> go_error + string" where
  "generateWebSocketKey rnd = (case rnd of Inl e \<Rightarrow> Inl e | Inr b \<Rightarrow> Inr (base64_encode b))"

definition computeWebSocketAccept :: "(byte list \<Rightarrow> byte list) \<Rightarrow> string \<Rightarrow> string" where
  "computeWebSocketAccept sha1 key = base64_encode (sha1 (bytes_of (key @ websocketGUID)))"

definition writeWSHeaderIfMissing :: "headers \<Rightarrow> string \<Rightarrow> string \<Rightarrow> string" where
  "writeWSHeaderIfMissing hs key v = (if hasHeader hs key then [] else key @ '': '' @ v @ crlf)"

definition defaultWebSocketPort :: "string \<Rightarrow> int" where
  "defaultWebSocketPort scheme = (if to_lower scheme = ''wss'' then 443 else 80)"

definition upgrade_request :: "string \<Rightarrow> url \<Rightarrow> 'w WebSocketConfig \<Rightarrow> byte list" where
  "upgrade_request key u conf =
     (let path = (if RequestURI u = [] then ''/'' else RequestURI u);
          hostHeader = (if Host u = [] then Hostname u else Host u);
          userAgent = (if WUserAgent conf = [] then defaultHTTPUserAgent else WUserAgent conf);
          hs = WHeaders conf
      in bytes_of (''GET '' @ path @ '' HTTP/1.1'' @ crlf
           @ writeWSHeaderIfMissing hs ''Host'' hostHeader
           @ writeWSHeaderIfMissing hs ''Upgrade'' ''websocket''
           @ writeWSHeaderIfMissing hs ''Connection'' ''Upgrade''
           @ writeWSHeaderIfMissing hs ''Sec-WebSocket-Key'' key
           @ writeWSHeaderIfMissing hs ''Sec-WebSocket-Version'' ''13''
           @ writeWSHeaderIfMissing hs ''User-Agent'' userAgent
           @ (if Compress conf then
                writeWSHeaderIfMissing hs ''Sec-WebSocket-Extensions'' ''permessage-deflate; client_max_window_bits''
              else [])
           @ (if Protocols conf \<noteq> [] then
                writeWSHeaderIfMissing hs ''Sec-WebSocket-Protocol'' (join '', '' (Protocols conf))
              else [])
           @ write_headers hs @ crlf))"

text \<open>The part that reads the answer, through the new reader.\<close>

definition read_upgrade_response :: "range_order \<Rightarrow> (byte list \<Rightarrow> byte list) \<Rightarrow> string \<Rightarrow> (bufio, unit) io" where
  "read_upgrade_response ord sha1 key =
     bindE readHTTPLine (\<lambda>statusLine.
     case parseHTTPStatusCode statusLine of
       Inl err \<Rightarrow> failE err
     | Inr statusCode \<Rightarrow>
         if statusCode \<noteq> 101 then
           (\<lambda>b. case readHTTPHeaders b of (r, b') \<Rightarrow>
              (Inl (Errorf (''websocket upgrade failed: status='' @ itoa statusCode @ '' location=''
                 @ go_quote (case r of Inr hs \<Rightarrow> getHeader ord hs ''Location'' | Inl _ \<Rightarrow> []))), b'))
         else
           bindE readHTTPHeaders (\<lambda>hs.
           let upgrade = getHeader ord hs ''Upgrade'';
               connection = to_lower (getHeader ord hs ''Connection'') in
           bindE (guardE (equal_fold upgrade ''websocket'')
                    (Errorf (''invalid websocket Upgrade header: '' @ go_quote upgrade))) (\<lambda>_.
           bindE (guardE (contains connection ''upgrade'')
                    (Errorf (''invalid websocket Connection header: '' @ go_quote connection))) (\<lambda>_.
           guardE (trim_space (getHeader ord hs ''Sec-WebSocket-Accept'') = computeWebSocketAccept sha1 key)
             (Errorf ''invalid websocket accept key'')))))"

definition handshake ::
    "range_order \<Rightarrow> (byte list \<Rightarrow> byte list) \<Rightarrow> go_error + byte list \<Rightarrow> url \<Rightarrow> 'w WebSocketConfig
     \<Rightarrow> (WebSocketClient, unit) io" where
  "handshake ord sha1 rnd u conf c =
     (case generateWebSocketKey rnd of
        Inl err \<Rightarrow> (Inl err, c)
      | Inr key \<Rightarrow>
     (case WriteFull (upgrade_request key u conf) (tcp c) of
        (Inl err, t) \<Rightarrow> (Inl err, c\<lparr>tcp := t\<rparr>)
      | (Inr _, t) \<Rightarrow>
        let c1 = c\<lparr>tcp := t\<rparr>;
            c2 = (if 0 < wtimeout c then on_conn (SetReadDeadline True) c1 else c1) in
        (case read_upgrade_response ord sha1 key (bufio_new (tconn (tcp c2))) of (r, b) \<Rightarrow>
           let c3 = put_reader b c2 in
           (r, if 0 < wtimeout c then on_conn (SetReadDeadline False) c3 else c3))))"

record 'w ws_env =
  ws_dial :: "'w dialer"
  ws_tls :: tls_handshake
  ws_sha1 :: "byte list \<Rightarrow> byte list"
  ws_key :: "'w \<Rightarrow> (go_error + byte list) \<times> 'w"
  ws_order :: range_order

text \<open>
  \<^verbatim>\<open>StartPing\<close> on the goroutines that ping a client: each is the payload it sends. What they do is below.
  \<^verbatim>\<open>NewWebSocketClient\<close> returns the client and the goroutines it has started.
\<close>

definition StartPing :: "int \<Rightarrow> byte list \<Rightarrow> byte list list \<Rightarrow> byte list list" where
  "StartPing interval payload pings =
     (if interval \<le> 0 then pings else pings @ [if 125 < length payload then take 125 payload else payload])"

definition NewWebSocketClient ::
    "'w ws_env \<Rightarrow> string \<Rightarrow> 'w WebSocketConfig \<Rightarrow> ('w, WebSocketClient \<times> byte list list) io" where
  "NewWebSocketClient env rawURL conf =
     (let limit = (if MaxPayloadSize conf \<le> 0 then 16 * 1024 * 1024 else MaxPayloadSize conf) in
      case url_parse (trim_space rawURL) of
        Inl e \<Rightarrow> failE e
      | Inr u \<Rightarrow>
      bindE (guardE (\<not> (Scheme u \<noteq> ''ws'' \<and> Scheme u \<noteq> ''wss''))
               (Errorf (''unsupported websocket scheme: '' @ Scheme u))) (\<lambda>_.
      bindE (guardE (Hostname u \<noteq> []) (Errorf ''empty websocket host'')) (\<lambda>_.
      case (if Port u = [] then Some (defaultWebSocketPort (Scheme u)) else atoi (Port u)) of
        None \<Rightarrow> failE (Errorf (''invalid websocket port: '' @ Port u))
      | Some port \<Rightarrow>
      bindE (NewTCPClientAutoTLS (ws_dial env) (ws_tls env) (Hostname u) port (WTimeout conf) (WPicker conf)
               (Scheme u = ''wss'') [WLocalBind conf]) (\<lambda>t.
      let rt = (if ReadTimeout conf = 0 \<and> 0 < PingInterval conf then PingInterval conf * 3 else ReadTimeout conf);
          client = \<lparr>tcp = t, wreader = bufio_new (tconn t), wtimeout = WTimeout conf, readTimeout = rt,
                    wclosed = False, maxPayloadSize = limit, disableAutoPong = DisableAutoPong conf, draws = 0\<rparr> in
      (\<lambda>w. case ws_key env w of (rnd, w') \<Rightarrow>
         (case handshake (ws_order env) (ws_sha1 env) rnd u conf client of
            (Inl err, client') \<Rightarrow> let closed = Tcp_Client.Close (tcp client') in (Inl err, w')
          | (Inr _, client') \<Rightarrow>
              (Inr (client', if 0 < PingInterval conf then StartPing (PingInterval conf) (PingPayload conf) [] else []), w')))))))"

subsection \<open>Sending\<close>

text \<open>\<open>rnd i\<close> is the result of the \<open>i\<close>th call of \<^verbatim>\<open>rand.Read\<close> for a masking key.\<close>

definition writeFrameLocked ::
    "(nat \<Rightarrow> go_error + byte list) \<Rightarrow> byte \<Rightarrow> byte list \<Rightarrow> (WebSocketClient, unit) io" where
  "writeFrameLocked rnd opcode payload c =
     (let c1 = (if 0 < wtimeout c then on_conn (SetWriteDeadline True) c else c);
          clear = (\<lambda>c'. if 0 < wtimeout c then on_conn (SetWriteDeadline False) c' else c');
          c2 = c1\<lparr>draws := Suc (draws c1)\<rparr> in
      case buildClientWebSocketFrame (rnd (draws c)) opcode payload of
        Inl err \<Rightarrow> (Inl err, clear c2)
      | Inr frame \<Rightarrow>
          (case WriteFull frame (tcp c2) of (r, t) \<Rightarrow> (r, clear (c2\<lparr>tcp := t\<rparr>))))"

definition WriteFrame ::
    "(nat \<Rightarrow> go_error + byte list) \<Rightarrow> byte \<Rightarrow> byte list \<Rightarrow> (WebSocketClient, unit) io" where
  "WriteFrame rnd opcode payload c =
     (if wclosed c then (Inl ErrTCPClientClosed, c) else writeFrameLocked rnd opcode payload c)"

definition SendText where
  "SendText rnd text = WriteFrame rnd wsOpText (bytes_of text)"

definition SendBinary where
  "SendBinary rnd data = WriteFrame rnd wsOpBinary data"

definition Ping :: "(nat \<Rightarrow> go_error + byte list) \<Rightarrow> byte list \<Rightarrow> (WebSocketClient, unit) io" where
  "Ping rnd data c =
     (if 125 < length data then (Inl (Errorf ''websocket ping payload too large''), c)
      else WriteFrame rnd wsOpPing data c)"

definition Pong :: "(nat \<Rightarrow> go_error + byte list) \<Rightarrow> byte list \<Rightarrow> (WebSocketClient, unit) io" where
  "Pong rnd data c =
     (if 125 < length data then (Inl (Errorf ''websocket pong payload too large''), c)
      else WriteFrame rnd wsOpPong data c)"

definition writeCloseFrame ::
    "(nat \<Rightarrow> go_error + byte list) \<Rightarrow> 16 word \<Rightarrow> string \<Rightarrow> (WebSocketClient, unit) io" where
  "writeCloseFrame rnd code reason = writeFrameLocked rnd wsOpClose (close_payload code reason)"

definition ws_Close :: "(nat \<Rightarrow> go_error + byte list) \<Rightarrow> WebSocketClient \<Rightarrow> go_error option \<times> WebSocketClient" where
  "ws_Close rnd c =
     (if wclosed c then (None, c)
      else
        let c1 = snd (writeCloseFrame rnd 1000 ''normal closure'' (c\<lparr>wclosed := True\<rparr>)) in
        case Tcp_Client.Close (tcp c1) of (r, t) \<Rightarrow> (r, c1\<lparr>tcp := t\<rparr>))"

subsection \<open>Reading messages\<close>

lemma nwrite_budget: "nwrite b c = (x, c') \<Longrightarrow> nbudget c' = nbudget c"
  by (induction c arbitrary: x c')
    (fastforce simp: conn_write_def conn_budget_def split: prod.splits if_splits list.splits)+

lemma WriteFull_frame:
  assumes "\<And>b k x k'. nwrite b k = (x, k') \<Longrightarrow> f k' = f k"
  shows "f (tconn (snd (WriteFull b c))) = f (tconn c)"
proof (induction b c rule: WriteFull.induct)
  case (1 b c)
  have "f (tconn (snd (Write b c))) = f (tconn c)"
    using assms by (auto simp: Write_def split: prod.split)
  with 1 show ?case
    by (subst WriteFull.simps) (fastforce split: prod.split option.split)
qed

lemma WriteFull_budget: "nbudget (tconn (snd (WriteFull b c))) = nbudget (tconn c)"
  using nwrite_budget by (rule WriteFull_frame)

definition ws_budget :: "WebSocketClient \<Rightarrow> nat" where
  "ws_budget c = bufio_budget (shared_reader c)"

lemma ws_budget_simps:
  "ws_budget (on_conn (SetReadDeadline v) c) = ws_budget c"
  "ws_budget (on_conn (SetWriteDeadline v) c) = ws_budget c"
  "ws_budget (put_reader b c) = bufio_budget b"
  "ws_budget (c\<lparr>draws := n\<rparr>) = ws_budget c" "ws_budget (c\<lparr>wclosed := v\<rparr>) = ws_budget c"
  by (simp_all add: ws_budget_def shared_reader_def on_conn_def put_reader_def bufio_budget_def)

lemma writeFrameLocked_budget: "ws_budget (snd (writeFrameLocked rnd opcode payload c)) = ws_budget c"
proof -
  have "ws_budget (c'\<lparr>draws := n, tcp := snd (WriteFull f (tcp c'))\<rparr>) = ws_budget c'" for f c' n
    by (simp add: ws_budget_def shared_reader_def bufio_budget_def WriteFull_budget)
  then show ?thesis
    unfolding writeFrameLocked_def Let_def
    by (simp add: ws_budget_simps case_prod_unfold split: sum.split)
qed

lemma Pong_budget: "ws_budget (snd (Pong rnd data c)) = ws_budget c"
  by (simp add: Pong_def WriteFrame_def writeFrameLocked_budget)

text \<open>Reading actions never give bytes back.\<close>

definition shrinks :: "(bufio, 'a) io \<Rightarrow> bool" where
  "shrinks m \<longleftrightarrow> (\<forall>b. bufio_budget (snd (m b)) \<le> bufio_budget b)"

lemma shrinks_bindE: "shrinks m \<Longrightarrow> (\<And>a. shrinks (f a)) \<Longrightarrow> shrinks (bindE m f)"
  unfolding shrinks_def bindE_apply by (auto split: prod.split sum.split) (metis order_trans snd_conv)+

lemma shrinks_simps: "shrinks (returnE a)" "shrinks (failE e)" "shrinks (guardE p e)"
  by (simp_all add: shrinks_def returnE_def failE_def guardE_def)

lemma shrinks_read_full: "shrinks (bufio_read_full n)"
  unfolding shrinks_def by (metis bufio_read_full_budget prod.collapse)

lemma read_frame_budget:
  assumes "readWebSocketFrameWithLimit bufio_read_full limit b = (Inr f, b')"
  shows "bufio_budget b' < bufio_budget b"
proof -
  obtain hd b1 where h: "bufio_read_full 2 b = (Inr hd, b1)"
    using assms unfolding readWebSocketFrameWithLimit_def bindE_apply [of "bufio_read_full 2"]
    by (auto split: prod.splits sum.splits)
  obtain g where g: "readWebSocketFrameWithLimit bufio_read_full limit = bindE (bufio_read_full 2) g" "shrinks (g hd)"
    by (rule that [OF readWebSocketFrameWithLimit_def])
      (auto simp: Let_def read_payload_len_def read_frame_payload_def
        intro!: shrinks_bindE shrinks_simps shrinks_read_full)
  then have "bufio_budget b' \<le> bufio_budget b1"
    using assms bindE_Inr [of "bufio_read_full 2", OF h] unfolding shrinks_def by (metis snd_conv)
  moreover have "bufio_budget b1 < bufio_budget b" using bufio_read_full_budget [OF h] by simp
  ultimately show ?thesis by simp
qed

text \<open>One frame, read under the read timeout.\<close>

definition next_frame :: "(WebSocketClient, websocketFrame) io" where
  "next_frame c =
     (let c1 = (if 0 < readTimeout c then on_conn (SetReadDeadline True) c else c) in
      case readWebSocketFrameWithLimit bufio_read_full (maxPayloadSize c) (shared_reader c1) of (r, b) \<Rightarrow>
      let c2 = put_reader b c1 in
      (r, if 0 < readTimeout c then on_conn (SetReadDeadline False) c2 else c2))"

lemma next_frame_budget: "next_frame c = (Inr f, c') \<Longrightarrow> ws_budget c' < ws_budget c"
  using read_frame_budget [of "maxPayloadSize c" "shared_reader c" f]
    read_frame_budget [of "maxPayloadSize c" "shared_reader (on_conn (SetReadDeadline True) c)" f]
    ws_budget_simps(1) [of True c]
  by (auto simp: next_frame_def Let_def ws_budget_simps(3) ws_budget_simps(1) [of False] ws_budget_def [symmetric]
      split: prod.splits if_splits)

text \<open>
  The loop of \<^verbatim>\<open>ReadMessage\<close>: \<open>op\<close> and \<open>frag\<close> are \<^verbatim>\<open>fragmentedOpcode\<close> and \<^verbatim>\<open>fragmentedPayload\<close>. The result
  is the message and the error; a close frame has both.
\<close>

definition fragments_too_large :: go_error where
  "fragments_too_large = Errorf ''websocket fragmented payload too large''"

function read_message_loop ::
    "(nat \<Rightarrow> go_error + byte list) \<Rightarrow> byte \<Rightarrow> byte list \<Rightarrow> WebSocketClient
     \<Rightarrow> (WebSocketMessage option \<times> go_error option) \<times> WebSocketClient" where
  "read_message_loop rnd op frag c =
     (case next_frame c of
        (Inl err, c1) \<Rightarrow> ((None, Some err), c1\<lparr>wclosed := True\<rparr>)
      | (Inr frame, c1) \<Rightarrow>
          if Opcode frame = wsOpPing then
            read_message_loop rnd op frag (if \<not> disableAutoPong c1 then snd (Pong rnd (Payload frame) c1) else c1)
          else if Opcode frame = wsOpPong then
            ((Some \<lparr>MOpcode = wsOpPong, MData = Payload frame\<rparr>, None), c1)
          else if Opcode frame = wsOpClose then
            (case parseWebSocketClosePayload (Payload frame) of (code, reason) \<Rightarrow>
               ((Some \<lparr>MOpcode = wsOpClose, MData = Payload frame\<rparr>, Some (WebSocketCloseError code reason)),
                (snd (writeCloseFrame rnd code reason c1))\<lparr>wclosed := True\<rparr>))
          else if Opcode frame = wsOpText \<or> Opcode frame = wsOpBinary then
            (if Fin frame then ((Some \<lparr>MOpcode = Opcode frame, MData = Payload frame\<rparr>, None), c1)
             else if int (length (frag @ Payload frame)) > maxPayloadSize c1
             then ((None, Some fragments_too_large), c1)
             else read_message_loop rnd (Opcode frame) (frag @ Payload frame) c1)
          else if Opcode frame = wsOpContinuation then
            (if op = 0 then ((None, Some (Errorf ''unexpected websocket continuation frame'')), c1)
             else if int (length (frag @ Payload frame)) > maxPayloadSize c1
             then ((None, Some fragments_too_large), c1)
             else if Fin frame then ((Some \<lparr>MOpcode = op, MData = frag @ Payload frame\<rparr>, None), c1)
             else read_message_loop rnd op (frag @ Payload frame) c1)
          else ((None, Some (Errorf (''unsupported websocket opcode: '' @ show_nat (unat (Opcode frame))))), c1))"
  by pat_completeness auto
termination
proof (relation "measure (\<lambda>(rnd, op, frag, c). ws_budget c)", goal_cases)
  case (2 rnd op frag c x c1 frame)
  then show ?case using next_frame_budget [of c frame c1] by (simp add: Pong_budget)
qed (auto dest: next_frame_budget [OF sym])

declare read_message_loop.simps [simp del]

definition ReadMessage ::
    "(nat \<Rightarrow> go_error + byte list) \<Rightarrow> WebSocketClient
     \<Rightarrow> (WebSocketMessage option \<times> go_error option) \<times> WebSocketClient" where
  "ReadMessage rnd c =
     (if wclosed c then ((None, Some ErrTCPClientClosed), c) else read_message_loop rnd 0 [] c)"

subsection \<open>What writing leaves alone\<close>

lemma nwrite_input:
  "nwrite b c = (x, c') \<Longrightarrow> nstream c' = nstream c \<and> nregular c' = nregular c \<and> socket_open c' = socket_open c"
  by (induction c arbitrary: x c')
    (fastforce simp: conn_write_def conn_stream_def conn_regular_def split: prod.splits if_splits list.splits)+

lemma WriteFull_input:
  "nstream (tconn (snd (WriteFull b c))) = nstream (tconn c)" "nregular (tconn (snd (WriteFull b c))) = nregular (tconn c)"
  "socket_open (tconn (snd (WriteFull b c))) = socket_open (tconn c)"
  using nwrite_input WriteFull_frame [of nstream] WriteFull_frame [of nregular] WriteFull_frame [of socket_open] by blast+

text \<open>The bytes a client will read, and the settings no operation on a client changes.\<close>

definition ws_stream :: "WebSocketClient \<Rightarrow> byte list \<times> go_error" where
  "ws_stream c = bufio_stream (shared_reader c)"

definition ws_regular :: "WebSocketClient \<Rightarrow> bool" where
  "ws_regular c \<longleftrightarrow> bufio_regular (shared_reader c)"

definition ws_settings where
  "ws_settings c = (wtimeout c, readTimeout c, maxPayloadSize c, disableAutoPong c)"

definition ws_socket :: "WebSocketClient \<Rightarrow> bool" where
  "ws_socket c = socket_open (tconn (tcp c))"

text \<open>\<open>undisturbed c c'\<close>: what was sent aside, \<open>c'\<close> will read the same bytes as \<open>c\<close>.\<close>

definition undisturbed :: "WebSocketClient \<Rightarrow> WebSocketClient \<Rightarrow> bool" where
  "undisturbed c c' \<longleftrightarrow> ws_stream c' = ws_stream c \<and> ws_regular c' = ws_regular c \<and> ws_settings c' = ws_settings c
     \<and> ws_socket c' = ws_socket c \<and> wclosed c' = wclosed c"

lemma bufio_stream_cong: "nstream k = nstream k' \<Longrightarrow> bufio_stream (b\<lparr>bsrc := k\<rparr>) = bufio_stream (b\<lparr>bsrc := k'\<rparr>)"
  by (simp add: bufio_stream_def split: option.split)

lemma undisturbedI:
  assumes "nstream (tconn (tcp c')) = nstream (tconn (tcp c))" "nregular (tconn (tcp c')) = nregular (tconn (tcp c))"
    "socket_open (tconn (tcp c')) = socket_open (tconn (tcp c))"
    "wreader c' = wreader c" "ws_settings c' = ws_settings c" "wclosed c' = wclosed c"
  shows "undisturbed c c'"
  using assms bufio_stream_cong [OF assms(1)]
  by (simp add: undisturbed_def ws_stream_def ws_regular_def ws_socket_def shared_reader_def bufio_regular_def)

lemma ws_put_reader [simp]:
  "ws_stream (put_reader b c) = bufio_stream b" "ws_regular (put_reader b c) = bufio_regular b"
  "ws_settings (put_reader b c) = ws_settings c" "wclosed (put_reader b c) = wclosed c"
  "ws_socket (put_reader b c) = socket_open (bsrc b)"
  by (simp_all add: ws_stream_def ws_regular_def ws_settings_def ws_socket_def shared_reader_def put_reader_def)

lemma undisturbed_trans [trans]: "undisturbed a b \<Longrightarrow> undisturbed b c \<Longrightarrow> undisturbed a c"
  by (simp add: undisturbed_def)

lemma undisturbed_deadline:
  "undisturbed c (on_conn (SetReadDeadline v) c)" "undisturbed c (on_conn (SetWriteDeadline v) c)"
  by (rule undisturbedI; simp add: on_conn_def ws_settings_def)+

lemma undisturbed_write: "undisturbed c (c\<lparr>draws := n, tcp := snd (WriteFull f (tcp c))\<rparr>)"
  by (rule undisturbedI) (simp_all add: WriteFull_input ws_settings_def)

lemma writeFrameLocked_undisturbed: "undisturbed c (snd (writeFrameLocked rnd opcode payload c))"
proof -
  let ?c1 = "if 0 < wtimeout c then on_conn (SetWriteDeadline True) c else c"
  let ?clear = "\<lambda>c'. if 0 < wtimeout c then on_conn (SetWriteDeadline False) c' else c'"
  have 1: "undisturbed c ?c1" using undisturbed_deadline by (simp add: undisturbed_def)
  have 2: "undisturbed c' (?clear c')" for c' using undisturbed_deadline by (simp add: undisturbed_def)
  have 3: "undisturbed c' (c'\<lparr>draws := n\<rparr>)" for c' n
    by (rule undisturbedI) (simp_all add: ws_settings_def)
  show ?thesis
  proof (cases "buildClientWebSocketFrame (rnd (draws c)) opcode payload")
    case (Inl err)
    have "undisturbed c (?clear (?c1\<lparr>draws := Suc (draws ?c1)\<rparr>))"
      by (rule undisturbed_trans [OF undisturbed_trans [OF 1 3] 2])
    with Inl show ?thesis unfolding writeFrameLocked_def Let_def by simp
  next
    case (Inr frame)
    have "undisturbed c (?clear (?c1\<lparr>draws := Suc (draws ?c1), tcp := snd (WriteFull frame (tcp ?c1))\<rparr>))"
      by (rule undisturbed_trans [OF undisturbed_trans [OF 1 undisturbed_write] 2])
    with Inr show ?thesis unfolding writeFrameLocked_def Let_def by (simp add: case_prod_unfold split: if_splits)
  qed
qed

lemma Pong_undisturbed: "undisturbed c (snd (Pong rnd data c))"
  using writeFrameLocked_undisturbed by (simp add: Pong_def WriteFrame_def undisturbed_def)

subsection \<open>Reassembly of messages\<close>

text \<open>
  A reference decoder for the frames of a connection, after RFC 6455, section 5.4: frames are given
  by their FIN bit, opcode, masking key and payload. A message is one final data frame, or a data
  frame that is not final and continuation frames up to a final one; ping frames may stand anywhere
  between them.
\<close>

type_synonym wire_frame = "bool \<times> byte \<times> byte list option \<times> byte list"

fun continues :: "wire_frame list \<Rightarrow> byte list option" where
  "continues [] = None"
| "continues ((fin, op, key, p) # fs) =
     (if op = wsOpPing then continues fs
      else if op = wsOpContinuation then
        (if fin then (if fs = [] then Some p else None) else map_option ((@) p) (continues fs))
      else None)"

fun message_of :: "wire_frame list \<Rightarrow> (byte \<times> byte list) option" where
  "message_of [] = None"
| "message_of ((fin, op, key, p) # fs) =
     (if op = wsOpPing then message_of fs
      else if op = wsOpText \<or> op = wsOpBinary then
        (if fin then (if fs = [] then Some (op, p) else None)
         else map_option (\<lambda>d. (op, p @ d)) (continues fs))
      else None)"

definition encode_frames :: "wire_frame list \<Rightarrow> byte list" where
  "encode_frames fs = concat (map (\<lambda>(fin, op, key, p). encode_frame fin op key p) fs)"

definition frame_ok :: "int \<Rightarrow> wire_frame \<Rightarrow> bool" where
  "frame_ok limit f \<longleftrightarrow> (case f of (fin, op, key, p) \<Rightarrow>
     pred_option (\<lambda>k. length k = 4) key \<and> int (length p) \<le> limit \<and> limit < 2 ^ 63 \<and> op AND 0x0F = op)"

lemma next_frame_encoded:
  assumes "ws_regular c" and st: "ws_stream c = (encode_frame fin op key p @ rest, e)"
    and ok: "frame_ok (maxPayloadSize c) (fin, op, key, p)"
  shows "\<exists>c1. next_frame c = (Inr \<lparr>Fin = fin, Opcode = op, Masked = key \<noteq> None, Payload = p\<rparr>, c1)
     \<and> ws_regular c1 \<and> ws_stream c1 = (rest, e) \<and> ws_settings c1 = ws_settings c \<and> wclosed c1 = wclosed c"
proof -
  let ?c = "if 0 < readTimeout c then on_conn (SetReadDeadline True) c else c"
  have u: "undisturbed c ?c" using undisturbed_deadline by (simp add: undisturbed_def)
  then have "bufio_regular (shared_reader ?c)" "bufio_stream (shared_reader ?c) = (encode_frame fin op key p @ rest, e)"
    using assms(1,2) unfolding undisturbed_def ws_regular_def ws_stream_def by simp_all
  moreover have "length p < 2 ^ 63" "int (length p) \<le> maxPayloadSize c" "maxPayloadSize c < 2 ^ 63"
    "op AND 15 = op" "pred_option (\<lambda>k. length k = 4) key"
    using ok by (auto simp: frame_ok_def)
  ultimately obtain b where b: "readWebSocketFrameWithLimit bufio_read_full (maxPayloadSize c) (shared_reader ?c)
      = (Inr \<lparr>Fin = fin, Opcode = op, Masked = key \<noteq> None, Payload = p\<rparr>, b)" "bufio_regular b" "bufio_stream b = (rest, e)"
    using bufio_full_reader.read_frame_encoded [of "shared_reader ?c" fin op key p rest e "maxPayloadSize c"] by auto
  let ?c2 = "put_reader b ?c"
  let ?c3 = "if 0 < readTimeout c then on_conn (SetReadDeadline False) ?c2 else ?c2"
  have "next_frame c = (Inr \<lparr>Fin = fin, Opcode = op, Masked = key \<noteq> None, Payload = p\<rparr>, ?c3)"
    unfolding next_frame_def Let_def b(1) by simp
  moreover have "undisturbed ?c2 ?c3" using undisturbed_deadline by (simp add: undisturbed_def)
  ultimately show ?thesis using b(2,3) u unfolding undisturbed_def by auto
qed

definition reads_on :: "WebSocketClient \<Rightarrow> byte list \<times> go_error \<Rightarrow> WebSocketClient \<Rightarrow> bool" where
  "reads_on c st c' \<longleftrightarrow> ws_regular c' \<and> ws_stream c' = st \<and> ws_settings c' = ws_settings c \<and> wclosed c' = wclosed c"

lemma reads_on_trans: "reads_on c st c' \<Longrightarrow> reads_on c' st' c'' \<Longrightarrow> reads_on c st' c''"
  by (simp add: reads_on_def)

lemma reads_on_limit: "reads_on c st c' \<Longrightarrow> maxPayloadSize c' = maxPayloadSize c"
  by (simp add: reads_on_def ws_settings_def)

text \<open>The four kinds of frames within a message, one iteration of the loop each.\<close>

lemma loop_ping:
  assumes "ws_regular c" and "ws_stream c = (encode_frame fin wsOpPing key p @ rest, e)"
    and "frame_ok (maxPayloadSize c) (fin, wsOpPing, key, p)"
  shows "\<exists>c'. read_message_loop rnd op frag c = read_message_loop rnd op frag c' \<and> reads_on c (rest, e) c'"
proof -
  obtain c1 where c1: "next_frame c = (Inr \<lparr>Fin = fin, Opcode = wsOpPing, Masked = key \<noteq> None, Payload = p\<rparr>, c1)"
    "reads_on c (rest, e) c1"
    using next_frame_encoded [OF assms] by (auto simp: reads_on_def)
  let ?c = "if \<not> disableAutoPong c1 then snd (Pong rnd p c1) else c1"
  have "read_message_loop rnd op frag c = read_message_loop rnd op frag ?c"
    by (subst read_message_loop.simps) (simp add: c1(1))
  moreover have "undisturbed c1 ?c" using Pong_undisturbed by (simp add: undisturbed_def)
  then have "reads_on c (rest, e) ?c" using c1(2) unfolding reads_on_def undisturbed_def by presburger
  ultimately show ?thesis by blast
qed

lemma loop_frame:
  assumes "ws_regular c" and "ws_stream c = (encode_frame fin o1 key p @ rest, e)"
    and "frame_ok (maxPayloadSize c) (fin, o1, key, p)"
    and "o1 = wsOpText \<or> o1 = wsOpBinary \<or> o1 = wsOpContinuation \<and> op \<noteq> 0"
    and "int (length (frag @ p)) \<le> maxPayloadSize c"
  shows "\<exists>c'. reads_on c (rest, e) c' \<and> read_message_loop rnd op frag c =
     (if fin then ((Some (if o1 = wsOpContinuation then \<lparr>MOpcode = op, MData = frag @ p\<rparr>
                          else \<lparr>MOpcode = o1, MData = p\<rparr>), None), c')
      else read_message_loop rnd (if o1 = wsOpContinuation then op else o1) (frag @ p) c')"
proof -
  obtain c1 where c1: "next_frame c = (Inr \<lparr>Fin = fin, Opcode = o1, Masked = key \<noteq> None, Payload = p\<rparr>, c1)"
    "reads_on c (rest, e) c1"
    using next_frame_encoded [OF assms(1-3)] by (auto simp: reads_on_def)
  have "\<not> maxPayloadSize c1 < int (length (frag @ p))" using assms(5) reads_on_limit [OF c1(2)] by simp
  with assms(4) have "read_message_loop rnd op frag c =
     (if fin then ((Some (if o1 = wsOpContinuation then \<lparr>MOpcode = op, MData = frag @ p\<rparr>
                          else \<lparr>MOpcode = o1, MData = p\<rparr>), None), c1)
      else read_message_loop rnd (if o1 = wsOpContinuation then op else o1) (frag @ p) c1)"
    by (subst read_message_loop.simps) (auto simp: c1(1) ws_opcodes)
  with c1(2) show ?thesis by blast
qed

lemma encode_frames_Cons:
  "encode_frames ((fin, op, key, p) # fs) @ rest = encode_frame fin op key p @ encode_frames fs @ rest"
  by (simp add: encode_frames_def)

lemma loop_continues:
  assumes "continues fs = Some d" and "list_all (frame_ok (maxPayloadSize c)) fs" and "op \<noteq> 0"
    and "ws_regular c" and "ws_stream c = (encode_frames fs @ rest, e)"
    and "int (length (frag @ d)) \<le> maxPayloadSize c"
  shows "\<exists>c'. read_message_loop rnd op frag c = ((Some \<lparr>MOpcode = op, MData = frag @ d\<rparr>, None), c')
     \<and> reads_on c (rest, e) c'"
  using assms
proof (induction fs arbitrary: c frag d rule: continues.induct)
  case 1
  then show ?case by simp
next
  case (2 fin o1 key p fs)
  note st = "2.prems"(5) [unfolded encode_frames_Cons]
  have ok: "frame_ok (maxPayloadSize c) (fin, o1, key, p)" "list_all (frame_ok (maxPayloadSize c)) fs"
    using "2.prems"(2) by auto
  show ?case
  proof (cases "o1 = wsOpPing")
    case True
    obtain c1 where c1: "read_message_loop rnd op frag c = read_message_loop rnd op frag c1"
      "reads_on c (encode_frames fs @ rest, e) c1"
      using loop_ping [OF "2.prems"(4) st [unfolded True] ok(1) [unfolded True]] by blast
    with "2.IH"(1) [OF True, of d c1 frag] "2.prems" ok(2) True reads_on_limit [OF c1(2)] show ?thesis
      by (auto simp: reads_on_def)
  next
    case False
    then have o1: "o1 = wsOpContinuation" using "2.prems"(1) by (auto split: if_splits)
    show ?thesis
    proof (cases fin)
      case True
      then have d: "fs = []" "d = p" using "2.prems"(1) False o1 by (auto split: if_splits)
      obtain c1 where "reads_on c (rest, e) c1"
        "read_message_loop rnd op frag c = ((Some \<lparr>MOpcode = op, MData = frag @ p\<rparr>, None), c1)"
        using loop_frame [OF "2.prems"(4) st ok(1), of op frag rnd] o1 d "2.prems"(3,6) True
        by (auto simp: encode_frames_def)
      with d show ?thesis by blast
    next
      case nf: False
      then obtain d' where d: "continues fs = Some d'" "d = p @ d'" using "2.prems"(1) False o1 by auto
      obtain c1 where c1: "reads_on c (encode_frames fs @ rest, e) c1"
        "read_message_loop rnd op frag c = read_message_loop rnd op (frag @ p) c1"
        using loop_frame [OF "2.prems"(4) st ok(1), of op frag rnd] o1 d "2.prems"(3,6) nf by auto
      with "2.IH"(2) [OF False o1 nf, of d' c1 "frag @ p"] "2.prems" ok(2) d reads_on_limit [OF c1(1)] show ?thesis
        by (auto simp: reads_on_def)
    qed
  qed
qed

lemma loop_message:
  assumes "message_of fs = Some (op, d)" and "list_all (frame_ok (maxPayloadSize c)) fs"
    and "ws_regular c" and "ws_stream c = (encode_frames fs @ rest, e)" and "int (length d) \<le> maxPayloadSize c"
  shows "\<exists>c'. read_message_loop rnd 0 [] c = ((Some \<lparr>MOpcode = op, MData = d\<rparr>, None), c')
     \<and> reads_on c (rest, e) c'"
  using assms
proof (induction fs arbitrary: c rule: message_of.induct)
  case 1
  then show ?case by simp
next
  case (2 fin o1 key p fs)
  note st = "2.prems"(4) [unfolded encode_frames_Cons]
  have ok: "frame_ok (maxPayloadSize c) (fin, o1, key, p)" "list_all (frame_ok (maxPayloadSize c)) fs"
    using "2.prems"(2) by auto
  show ?case
  proof (cases "o1 = wsOpPing")
    case True
    obtain c1 where c1: "read_message_loop rnd 0 [] c = read_message_loop rnd 0 [] c1"
      "reads_on c (encode_frames fs @ rest, e) c1"
      using loop_ping [OF "2.prems"(3) st [unfolded True] ok(1) [unfolded True]] by blast
    with "2.IH" [OF True, of c1] "2.prems" ok(2) True reads_on_limit [OF c1(2)] show ?thesis
      by (auto simp: reads_on_def)
  next
    case False
    then have o1: "o1 = wsOpText \<or> o1 = wsOpBinary" "op = o1" "op \<noteq> 0" "o1 \<noteq> wsOpContinuation"
      using "2.prems"(1) by (auto simp: ws_opcodes split: if_splits)
    show ?thesis
    proof (cases fin)
      case True
      then have d: "fs = []" "d = p" using "2.prems"(1) False o1 by (auto split: if_splits)
      with loop_frame [OF "2.prems"(3) st ok(1), of 0 "[]" rnd] o1 True "2.prems"(5) show ?thesis
        by (auto simp: encode_frames_def)
    next
      case nf: False
      then obtain d' where d: "continues fs = Some d'" "d = p @ d'" using "2.prems"(1) False o1 by auto
      obtain c1 where c1: "reads_on c (encode_frames fs @ rest, e) c1"
        "read_message_loop rnd 0 [] c = read_message_loop rnd op p c1"
        using loop_frame [OF "2.prems"(3) st ok(1), of 0 "[]" rnd] o1 d "2.prems"(5) nf by auto
      with loop_continues [OF d(1), of c1 op rest e p rnd] o1 "2.prems" ok(2) d reads_on_limit [OF c1(1)] show ?thesis
        by (auto simp: reads_on_def)
    qed
  qed
qed

text \<open>
  C3: \<^verbatim>\<open>ReadMessage\<close> agrees with the reference decoder: when the next frames of the connection are a
  message, in one frame or in any number of fragments, with ping frames anywhere between, masked or
  not, and the message is within \<^verbatim>\<open>maxPayloadSize\<close>, then \<^verbatim>\<open>ReadMessage\<close> returns its opcode and its
  whole payload, has read exactly these frames and leaves the client open; however the bytes
  arrive and whether or not the pongs could be sent.
\<close>

theorem read_message_reassembles:
  assumes "message_of fs = Some (op, d)" and "list_all (frame_ok (maxPayloadSize c)) fs"
    and "ws_regular c" and "ws_stream c = (encode_frames fs @ rest, e)" and "int (length d) \<le> maxPayloadSize c"
    and "\<not> wclosed c"
  shows "\<exists>c'. ReadMessage rnd c = ((Some \<lparr>MOpcode = op, MData = d\<rparr>, None), c')
     \<and> ws_stream c' = (rest, e) \<and> ws_regular c' \<and> \<not> wclosed c'"
  using loop_message [OF assms(1-5)] assms(6) by (fastforce simp: ReadMessage_def reads_on_def)

definition ex_ws :: "(byte list \<times> go_error option) list \<Rightarrow> WebSocketClient" where
  "ex_ws ds = \<lparr>tcp = \<lparr>tconn = ex_peer ds, ttimeout = 5, isClosed = False\<rparr>, wreader = bufio_new (ex_peer []),
     wtimeout = 5, readTimeout = 5, wclosed = False, maxPayloadSize = 100, disableAutoPong = False, draws = 0\<rparr>"

lemma ex_ws_simps [simp]:
  "ws_stream (ex_ws ds) = script_stream ds" "ws_regular (ex_ws ds) = list_all regular ds" "\<not> wclosed (ex_ws ds)"
  "maxPayloadSize (ex_ws ds) = 100"
  by (simp_all add: ex_ws_def ws_stream_def ws_regular_def shared_reader_def ex_peer_def bufio_new_def
      bufio_stream_def bufio_regular_def conn_stream_def conn_regular_def)

text \<open>A text message in two fragments with a ping between them, cut in odd places.\<close>

lemma read_message_reassembles_witness:
  "\<exists>c'. ReadMessage (\<lambda>_. Inr [0, 0, 0, 0]) (ex_ws [([1, 1], None), ([72, 0x89, 0], None), ([0x80, 1, 105, 9], None)])
      = ((Some \<lparr>MOpcode = wsOpText, MData = [72, 105]\<rparr>, None), c')
     \<and> ws_stream c' = ([9], EOF) \<and> ws_regular c' \<and> \<not> wclosed c'"
  by (rule read_message_reassembles
      [where fs = "[(False, wsOpText, None, [72]), (True, wsOpPing, None, []), (True, wsOpContinuation, None, [105])]"])
    (simp_all add: frame_ok_def regular_def encode_frames_def encode_frame_def length_field_def ws_opcodes)

text \<open>
  A pong frame between the fragments of a message, which RFC 6455 allows, loses the message:
  \<^verbatim>\<open>ReadMessage\<close> returns the pong, the fragments read so far are forgotten, and the next call
  reports an unexpected continuation frame.
\<close>

theorem pong_loses_fragments:
  assumes "ws_stream c = (encode_frames [(False, wsOpText, k0, p0), (True, wsOpPong, k1, q), (fin, wsOpContinuation, k2, p1)] @ rest, e)"
    and "list_all (frame_ok (maxPayloadSize c)) [(False, wsOpText, k0, p0), (True, wsOpPong, k1, q), (fin, wsOpContinuation, k2, p1)]"
    and "ws_regular c" and "\<not> wclosed c"
  shows "\<exists>c1 c2. ReadMessage rnd c = ((Some \<lparr>MOpcode = wsOpPong, MData = q\<rparr>, None), c1)
    \<and> ReadMessage rnd c1 = ((None, Some (Errorf ''unexpected websocket continuation frame'')), c2)"
proof -
  note st = assms(1) [unfolded encode_frames_Cons]
  obtain c1 where c1: "reads_on c (encode_frame True wsOpPong k1 q @ encode_frame fin wsOpContinuation k2 p1
      @ encode_frames [] @ rest, e) c1"
    "read_message_loop rnd 0 [] c = read_message_loop rnd wsOpText p0 c1"
    using loop_frame [OF assms(3) st, of 0 "[]" rnd] assms(2) by (auto simp: ws_opcodes frame_ok_def)
  have c1r: "ws_regular c1" "ws_stream c1 = (encode_frame True wsOpPong k1 q @ encode_frame fin wsOpContinuation k2 p1
      @ encode_frames [] @ rest, e)" "\<not> wclosed c1"
    using c1(1) assms(4) by (simp_all add: reads_on_def)
  obtain c2 where c2: "next_frame c1 = (Inr \<lparr>Fin = True, Opcode = wsOpPong, Masked = k1 \<noteq> None, Payload = q\<rparr>, c2)"
    "ws_regular c2" "ws_stream c2 = (encode_frame fin wsOpContinuation k2 p1 @ encode_frames [] @ rest, e)"
    "ws_settings c2 = ws_settings c1" "\<not> wclosed c2"
    using next_frame_encoded [OF c1r(1,2)] assms(2) c1r(3) reads_on_limit [OF c1(1)] by auto
  have lim: "maxPayloadSize c2 = maxPayloadSize c" using c2(4) reads_on_limit [OF c1(1)] by (simp add: ws_settings_def)
  obtain c3 where c3: "next_frame c2 = (Inr \<lparr>Fin = fin, Opcode = wsOpContinuation, Masked = k2 \<noteq> None, Payload = p1\<rparr>, c3)"
    using next_frame_encoded [OF c2(2,3)] assms(2) lim by auto
  have "read_message_loop rnd wsOpText p0 c1 = ((Some \<lparr>MOpcode = wsOpPong, MData = q\<rparr>, None), c2)"
    by (subst read_message_loop.simps) (simp add: c2(1) ws_opcodes)
  moreover have "read_message_loop rnd 0 [] c2 = ((None, Some (Errorf ''unexpected websocket continuation frame'')), c3)"
    by (subst read_message_loop.simps) (simp add: c3 ws_opcodes)
  ultimately show ?thesis using c1(2) assms(4) c2(5) by (simp add: ReadMessage_def)
qed

lemma pong_loses_fragments_witness:
  "\<exists>c1 c2. ReadMessage (\<lambda>_. Inr [0, 0, 0, 0]) (ex_ws [([1, 1, 72, 0x8A, 0, 0x80, 1, 105], None)])
      = ((Some \<lparr>MOpcode = wsOpPong, MData = []\<rparr>, None), c1)
    \<and> ReadMessage (\<lambda>_. Inr [0, 0, 0, 0]) c1 = ((None, Some (Errorf ''unexpected websocket continuation frame'')), c2)"
  by (rule pong_loses_fragments [where ?k0.0 = None and ?p0.0 = "[72]" and ?k1.0 = None and ?k2.0 = None
        and fin = True and ?p1.0 = "[105]" and rest = "[]" and e = EOF])
    (simp_all add: frame_ok_def regular_def encode_frames_def encode_frame_def length_field_def ws_opcodes)

subsection \<open>Closing\<close>

text \<open>Reading actions that leave a feature \<open>f\<close> of the connection alone.\<close>

definition keeps :: "(nconn \<Rightarrow> 'b) \<Rightarrow> (bufio, 'a) io \<Rightarrow> bool" where
  "keeps f m \<longleftrightarrow> (\<forall>b. f (bsrc (snd (m b))) = f (bsrc b))"

lemma keeps_bindE: "keeps f m \<Longrightarrow> (\<And>a. keeps f (g a)) \<Longrightarrow> keeps f (bindE m g)"
  unfolding keeps_def bindE_apply by (auto split: prod.split sum.split) (metis snd_conv)+

lemma keeps_simps: "keeps f (returnE a)" "keeps f (failE e)" "keeps f (guardE p e)"
  by (simp_all add: keeps_def returnE_def failE_def guardE_def)

lemma keeps_reads:
  "keeps socket_open (bufio_read_full n)" "keeps nsent readHTTPLine" "keeps nsent readHTTPHeaders"
  using readHTTPLine_frame readHTTPHeaders_loop_frame [of "[]"]
  by (simp_all add: keeps_def readHTTPHeaders_def)

lemma keeps_socket_frame: "keeps socket_open (readWebSocketFrameWithLimit bufio_read_full limit)"
  by (auto simp: readWebSocketFrameWithLimit_def Let_def read_payload_len_def read_frame_payload_def
      intro!: keeps_bindE keeps_simps keeps_reads)

lemma ws_socket_simps [simp]:
  "ws_socket (on_conn (SetReadDeadline v) c) = ws_socket c" "ws_socket (on_conn (SetWriteDeadline v) c) = ws_socket c"
  "ws_socket (c\<lparr>wclosed := w\<rparr>) = ws_socket c" "ws_socket (snd (Pong rnd d c)) = ws_socket c"
  "ws_socket (snd (writeCloseFrame rnd code reason c)) = ws_socket c"
  using Pong_undisturbed [of c rnd d] writeFrameLocked_undisturbed [of c rnd wsOpClose "close_payload code reason"]
  by (simp_all add: ws_socket_def on_conn_def undisturbed_def writeCloseFrame_def)

lemma next_frame_socket: "next_frame c = (x, c') \<Longrightarrow> ws_socket c' = ws_socket c"
  using keeps_socket_frame [of "maxPayloadSize c"] unfolding keeps_def next_frame_def Let_def
  by (auto simp: shared_reader_def ws_socket_def on_conn_def put_reader_def split: prod.splits if_splits)
    (metis (no_types, lifting) bufio.select_convs(3) bufio.surjective bufio.update_convs(3) snd_conv socket_open_deadlines(1))+

lemma read_message_loop_socket: "ws_socket (snd (read_message_loop rnd op frag c)) = ws_socket c"
proof (induction rnd op frag c rule: read_message_loop.induct)
  case (1 rnd op frag c)
  obtain x c1 where n: "next_frame c = (x, c1)" by force
  show ?case
  proof (cases x)
    case (Inl err)
    with n next_frame_socket [OF n] show ?thesis by (subst read_message_loop.simps) simp
  next
    case (Inr frame)
    with 1 n next_frame_socket [OF n] show ?thesis
      by (subst read_message_loop.simps) (auto split: prod.split)
  qed
qed

text \<open>
  Once \<^verbatim>\<open>ReadMessage\<close> has marked the client closed, that is after a failed read and also
  after the peer's close frame, \<^verbatim>\<open>Close\<close> returns nil without sending anything and without closing
  the connection: a socket that was open stays open.
\<close>

theorem closed_websocket_leaks_socket:
  assumes "ReadMessage rnd c = (r, c')" and "\<not> wclosed c" and "wclosed c'"
  shows "ws_Close rnd' c' = (None, c') \<and> socket_open (tconn (tcp c')) = socket_open (tconn (tcp c))"
  using assms read_message_loop_socket [of rnd 0 "[]" c]
  by (auto simp: ReadMessage_def ws_Close_def ws_socket_def)

lemma closed_websocket_leaks_socket_witness:
  "\<exists>c'. ReadMessage (\<lambda>_. Inr [0, 0, 0, 0]) (ex_ws [([0x88, 0], None)])
      = ((Some \<lparr>MOpcode = 8, MData = []\<rparr>, Some (WebSocketCloseError 1000 [])), c')
    \<and> ws_Close (\<lambda>_. Inr [0, 0, 0, 0]) c' = (None, c') \<and> socket_open (tconn (tcp c'))"
proof -
  have run: "map_prod id wclosed (ReadMessage (\<lambda>_. Inr [0, 0, 0, 0]) (ex_ws [([0x88, 0], None)]))
      = ((Some \<lparr>MOpcode = 8, MData = []\<rparr>, Some (WebSocketCloseError 1000 [])), True)"
    by code_simp
  then obtain c' where c': "ReadMessage (\<lambda>_. Inr [0, 0, 0, 0]) (ex_ws [([0x88, 0], None)])
      = ((Some \<lparr>MOpcode = 8, MData = []\<rparr>, Some (WebSocketCloseError 1000 [])), c')" "wclosed c'"
    by (cases "ReadMessage (\<lambda>_. Inr [0, 0, 0, 0]) (ex_ws [([0x88, 0], None)])") auto
  with closed_websocket_leaks_socket [OF c'(1) _ c'(2), of "\<lambda>_. Inr [0, 0, 0, 0]"] show ?thesis
    by (simp add: ex_ws_def ex_peer_def)
qed

subsection \<open>The handshake decides on the answer\<close>

text \<open>RFC 6455, section 4.2.2: what the answer to a request with the key \<open>key\<close> must have.\<close>

definition upgrade_ok :: "(byte list \<Rightarrow> byte list) \<Rightarrow> string \<Rightarrow> int \<Rightarrow> headers \<Rightarrow> bool" where
  "upgrade_ok sha1 key code hs \<longleftrightarrow> code = 101 \<and> equal_fold (field_value hs ''Upgrade'') ''websocket''
     \<and> contains (to_lower (field_value hs ''Connection'')) ''upgrade''
     \<and> trim_space (field_value hs ''Sec-WebSocket-Accept'') = base64_encode (sha1 (bytes_of (key @ websocketGUID)))"

lemma read_upgrade_response_run:
  assumes "bufio_regular b" and "bufio_stream b = (bytes_of (status @ crlf) @ bytes_of (fields_text fs @ crlf) @ rest, e)"
    and "clean_line status" and "parseHTTPStatusCode status = Inr code"
    and "list_all clean_field fs" and "distinct_names fs" and "visits_all ord"
  shows "\<exists>r b'. read_upgrade_response ord sha1 key b = (r, b') \<and> (r = Inr () \<longleftrightarrow> upgrade_ok sha1 key code fs)
     \<and> bufio_regular b' \<and> bufio_stream b' = (rest, e)"
proof -
  obtain b1 where b1: "readHTTPLine b = (Inr status, b1)" "bufio_regular b1"
    "bufio_stream b1 = (bytes_of (fields_text fs @ crlf) @ rest, e)"
    using readHTTPLine_line [OF assms(1-3)] by blast
  obtain b2 where b2: "readHTTPHeaders b1 = (Inr fs, b2)" "bufio_regular b2" "bufio_stream b2 = (rest, e)"
    using readHTTPHeaders_loop_fields [OF assms(5) _ b1(2,3), of "[]"] distinct_names_keys [OF assms(6)]
    by (auto simp: readHTTPHeaders_def)
  have "\<exists>r. read_upgrade_response ord sha1 key b = (r, b2) \<and> (r = Inr () \<longleftrightarrow> upgrade_ok sha1 key code fs)"
    unfolding read_upgrade_response_def upgrade_ok_def computeWebSocketAccept_def bindE_Inr [of readHTTPLine, OF b1(1)] assms(4) sum.case
    by (auto simp: getHeader_field_value [OF assms(7,6)] bindE_Inr [of readHTTPHeaders, OF b2(1)] b2(1) bindE_def guardE_def returnE_def failE_def Let_def)
  with b2 show ?thesis by blast
qed

lemma read_upgrade_response_sent: "keeps nsent (read_upgrade_response ord sha1 key)"
proof -
  have "keeps nsent (\<lambda>b. case readHTTPHeaders b of (r, b') \<Rightarrow> (Inl (g r), b'))" for g
    using keeps_reads(3) unfolding keeps_def by (simp add: case_prod_unfold)
  then show ?thesis
    unfolding read_upgrade_response_def Let_def
    by (auto intro!: keeps_bindE keeps_simps keeps_reads split: sum.split)
qed

text \<open>The key of the request, when the caller's headers do not set one; otherwise the generated key is not sent.\<close>

lemma upgrade_request_key:
  assumes "\<not> hasHeader (WHeaders conf) ''Sec-WebSocket-Key''"
  shows "\<exists>pre post. upgrade_request key u conf = bytes_of (pre @ ''Sec-WebSocket-Key: '' @ key @ crlf @ post)"
proof -
  have "writeWSHeaderIfMissing (WHeaders conf) ''Sec-WebSocket-Key'' key = ''Sec-WebSocket-Key: '' @ key @ crlf"
    using assms by (simp add: writeWSHeaderIfMissing_def)
  then have "\<exists>pre post. upgrade_request key u conf = bytes_of (pre @ writeWSHeaderIfMissing (WHeaders conf) ''Sec-WebSocket-Key'' key @ post)
      \<and> writeWSHeaderIfMissing (WHeaders conf) ''Sec-WebSocket-Key'' key = ''Sec-WebSocket-Key: '' @ key @ crlf"
    unfolding upgrade_request_def Let_def by (simp only: append_assoc [symmetric]) (metis append_assoc)
  then show ?thesis by (metis append_assoc)
qed

text \<open>
  A \<^verbatim>\<open>Sec-WebSocket-Key\<close> among the caller's headers replaces the generated key in the request, which then does not
  depend on it; the answer is still compared with the accept key of the generated one.
\<close>

theorem caller_key_hides_generated_key:
  assumes "hasHeader (WHeaders conf) ''Sec-WebSocket-Key''"
  shows "upgrade_request key u conf = upgrade_request key' u conf"
  using assms by (simp add: upgrade_request_def writeWSHeaderIfMissing_def Let_def)

lemma caller_key_hides_generated_key_witness:
  "upgrade_request ''a'' u (conf\<lparr>WHeaders := [(''Sec-WebSocket-Key'', ''k'')]\<rparr>)
     = upgrade_request ''b'' u (conf\<lparr>WHeaders := [(''Sec-WebSocket-Key'', ''k'')]\<rparr>)"
proof (rule caller_key_hides_generated_key)
  have "trim_space ''Sec-WebSocket-Key'' = ''Sec-WebSocket-Key''" by code_simp
  then show "hasHeader (WHeaders (conf\<lparr>WHeaders := [(''Sec-WebSocket-Key'', ''k'')]\<rparr>)) ''Sec-WebSocket-Key''"
    by (simp add: hasHeader_def)
qed

text \<open>
  C17: for a configuration whose headers do not set a key, and over a connection that takes the request,
  the handshake sends exactly the upgrade request, with the generated key in it. When the answer is a
  well-formed status line and well-formed header fields whose names differ in more than case, the handshake
  succeeds if and only if the status is 101, the \<^verbatim>\<open>Upgrade\<close> header is websocket, the \<^verbatim>\<open>Connection\<close> header has upgrade and
  the accept key belongs to the key sent (\<^verbatim>\<open>sha1\<close> is a parameter), in whatever order Go walks the header map. The client then reads from the first byte after the answer on, so frames the
  server sent along with the answer are not lost.
\<close>

theorem handshake_succeeds_iff:
  assumes "nwrites_all (tconn (tcp c))" and "nregular (tconn (tcp c))" and "\<not> isClosed (tcp c)"
    and "nstream (tconn (tcp c)) = (bytes_of (status @ crlf) @ bytes_of (fields_text fs @ crlf) @ rest, e)"
    and "clean_line status" and "parseHTTPStatusCode status = Inr code"
    and "list_all clean_field fs" and "distinct_names fs" and "visits_all ord"
    and "\<not> hasHeader (WHeaders conf) ''Sec-WebSocket-Key''"
  shows "\<exists>r c'. handshake ord sha1 (Inr nonce) u conf c = (r, c')
    \<and> (r = Inr () \<longleftrightarrow> upgrade_ok sha1 (base64_encode nonce) code fs)
    \<and> nsent (tconn (tcp c')) = nsent (tconn (tcp c)) @ upgrade_request (base64_encode nonce) u conf
    \<and> (\<exists>pre post. upgrade_request (base64_encode nonce) u conf
          = bytes_of (pre @ ''Sec-WebSocket-Key: '' @ base64_encode nonce @ crlf @ post))
    \<and> ws_stream c' = (rest, e) \<and> wclosed c' = wclosed c"
proof -
  let ?key = "base64_encode nonce"
  obtain t where t: "WriteFull (upgrade_request ?key u conf) (tcp c) = (Inr (), t)"
    "nsent (tconn t) = nsent (tconn (tcp c)) @ upgrade_request ?key u conf"
    "nstream (tconn t) = nstream (tconn (tcp c))" "nregular (tconn t)"
    using WriteFull_all [OF assms(1,3), of "upgrade_request ?key u conf"] assms(2) by blast
  let ?c1 = "c\<lparr>tcp := t\<rparr>"
  let ?c2 = "if 0 < wtimeout c then on_conn (SetReadDeadline True) ?c1 else ?c1"
  let ?b = "bufio_new (tconn (tcp ?c2))"
  have b: "bufio_regular ?b" "bufio_stream ?b = (bytes_of (status @ crlf) @ bytes_of (fields_text fs @ crlf) @ rest, e)"
    "nsent (bsrc ?b) = nsent (tconn (tcp c)) @ upgrade_request ?key u conf"
    using t assms(4) by (simp_all add: on_conn_def bufio_new_def bufio_regular_def bufio_stream_def)
  obtain r b' where r: "read_upgrade_response ord sha1 ?key ?b = (r, b')" "r = Inr () \<longleftrightarrow> upgrade_ok sha1 ?key code fs"
    "bufio_stream b' = (rest, e)"
    using read_upgrade_response_run [OF b(1,2) assms(5-9)] by blast
  let ?c3 = "put_reader b' ?c2"
  let ?c4 = "if 0 < wtimeout c then on_conn (SetReadDeadline False) ?c3 else ?c3"
  have "nsent (bsrc b') = nsent (bsrc ?b)"
    using read_upgrade_response_sent [of ord sha1 ?key] r(1) unfolding keeps_def by (metis snd_conv)
  then have sent: "nsent (tconn (tcp ?c4)) = nsent (tconn (tcp c)) @ upgrade_request ?key u conf"
    using b(3) by (simp add: on_conn_def put_reader_def)
  have "undisturbed ?c3 ?c4" using undisturbed_deadline by (simp add: undisturbed_def)
  then have "ws_stream ?c4 = (rest, e)" "wclosed ?c4 = wclosed ?c3" using r(3) unfolding undisturbed_def by simp_all
  moreover have "wclosed ?c3 = wclosed c" by (simp add: on_conn_def)
  moreover have "handshake ord sha1 (Inr nonce) u conf c = (r, ?c4)"
    unfolding handshake_def generateWebSocketKey_def sum.case t(1) prod.case Let_def r(1) ..
  ultimately show ?thesis using r(2) sent upgrade_request_key [OF assms(10), of ?key u] by metis
qed

definition ex_upgrade :: headers where
  "ex_upgrade = [(''Upgrade'', ''websocket''), (''Connection'', ''Upgrade''), (''Sec-WebSocket-Accept'', ''AQID'')]"

definition ex_conf :: "unit WebSocketConfig" where
  "ex_conf = \<lparr>WTimeout = 5, WPicker = None, WLocalBind = None, WHeaders = [], WUserAgent = [], Compress = False,
     Protocols = [], PingInterval = 0, PingPayload = [], MaxPayloadSize = 0, ReadTimeout = 0, DisableAutoPong = False\<rparr>"

lemma handshake_succeeds_iff_witness:
  "\<exists>r c'. handshake (\<lambda>_. rev) (\<lambda>_. [1, 2, 3]) (Inr [7]) empty_url ex_conf
       (ex_ws [(bytes_of (''HTTP/1.1 101 X'' @ crlf) @ bytes_of (fields_text ex_upgrade @ crlf) @ [0x81], None)]) = (r, c')
    \<and> r = Inr () \<and> ws_stream c' = ([0x81], EOF)"
proof -
  let ?c = "ex_ws [(bytes_of (''HTTP/1.1 101 X'' @ crlf) @ bytes_of (fields_text ex_upgrade @ crlf) @ [0x81], None)]"
  have conn: "nwrites_all (tconn (tcp ?c))" "nregular (tconn (tcp ?c))" "\<not> isClosed (tcp ?c)"
    "nstream (tconn (tcp ?c)) = (bytes_of (''HTTP/1.1 101 X'' @ crlf) @ bytes_of (fields_text ex_upgrade @ crlf) @ [0x81], EOF)"
    by (simp_all add: ex_ws_def ex_peer_def conn_regular_def regular_def conn_stream_def)
  have line: "clean_line ''HTTP/1.1 101 X''" by (simp add: clean_line_def)
  have answer: "parseHTTPStatusCode ''HTTP/1.1 101 X'' = Inr 101" "list_all clean_field ex_upgrade" "distinct_names ex_upgrade"
    "\<not> hasHeader (WHeaders ex_conf) ''Sec-WebSocket-Key''" "upgrade_ok (\<lambda>_. [1, 2, 3]) (base64_encode [7]) 101 ex_upgrade"
    by code_simp+
  have "visits_all (\<lambda>_. rev)" by (simp add: visits_all_def)
  from handshake_succeeds_iff [OF conn line answer(1-3) this answer(4), of "\<lambda>_. [1, 2, 3]" "[7]" empty_url] answer(5)
  show ?thesis by blast
qed

subsection \<open>JSON messages\<close>

text \<open>\<^verbatim>\<open>json.Marshal\<close> and \<^verbatim>\<open>json.Unmarshal\<close> are parameters: the marshalled bytes, and what unmarshalling makes of bytes.\<close>

definition SendJSON :: "(nat \<Rightarrow> go_error + byte list) \<Rightarrow> go_error + byte list \<Rightarrow> (WebSocketClient, unit) io" where
  "SendJSON rnd marshalled c =
     (case marshalled of Inl err \<Rightarrow> (Inl err, c) | Inr data \<Rightarrow> SendText rnd (string_of data) c)"

definition ReadJSON :: "(nat \<Rightarrow> go_error + byte list) \<Rightarrow> (byte list \<Rightarrow> go_error + 'v) \<Rightarrow> (WebSocketClient, 'v) io" where
  "ReadJSON rnd unmarshal c =
     (case ReadMessage rnd c of
        ((_, Some err), c') \<Rightarrow> (Inl err, c')
      | ((None, None), c') \<Rightarrow> (Inl EOF, c')
      | ((Some msg, None), c') \<Rightarrow>
          if MOpcode msg \<noteq> wsOpText \<and> MOpcode msg \<noteq> wsOpBinary
          then (Inl (Errorf (''websocket message is not JSON-compatible opcode: '' @ show_nat (unat (MOpcode msg)))), c')
          else (unmarshal (MData msg), c'))"

subsection \<open>Listen and StartPing\<close>

text \<open>
  The goroutines around one client. One call of \<^verbatim>\<open>ReadMessage\<close> by the reading goroutine is one step,
  as are one call of \<^verbatim>\<open>Close\<close> by the goroutine that watches the context and one tick of a pinging
  goroutine. The deferred calls at the end of the reading goroutine belong to its last step. The
  context of \<^verbatim>\<open>Listen\<close> is \<open>wl_ctx_done\<close>; each call of \<^verbatim>\<open>StartPing\<close> has a context of its own, which may end at
  any time, and its goroutine is its payload in \<open>wl_pings\<close>. The caller may write frames and close the
  client at any time. The callbacks are given; the log has their calls.
\<close>

datatype ws_event = OnMessage WebSocketMessage | OnWsError go_error | OnWsDone

record ws_listen =
  wl_client :: WebSocketClient
  wl_log :: "ws_event list"
  wl_reading :: bool
  wl_watching :: bool
  wl_pings :: "byte list list"
  wl_ctx_done :: bool

fun is_close_error :: "go_error \<Rightarrow> bool" where
  "is_close_error (WebSocketCloseError _ _) = True"
| "is_close_error _ = False"

definition ws_listen_read :: "(nat \<Rightarrow> go_error + byte list) \<Rightarrow> ws_listen \<Rightarrow> ws_listen" where
  "ws_listen_read rnd l =
     (case ReadMessage rnd (wl_client l) of
        ((_, Some err), c) \<Rightarrow>
          l\<lparr>wl_client := snd (ws_Close rnd c), wl_reading := False,
            wl_log := wl_log l @ (if is_close_error err \<or> err = EOF then [] else [OnWsError err]) @ [OnWsDone]\<rparr>
      | ((msg, None), c) \<Rightarrow>
          l\<lparr>wl_client := c, wl_log := wl_log l @ (case msg of Some m \<Rightarrow> [OnMessage m] | None \<Rightarrow> [])\<rparr>)"

definition ws_Listen :: "WebSocketClient \<Rightarrow> byte list list \<Rightarrow> ws_listen" where
  "ws_Listen c pings =
     \<lparr>wl_client = c, wl_log = [], wl_reading = True, wl_watching = True, wl_pings = pings, wl_ctx_done = False\<rparr>"

definition end_ping :: "nat \<Rightarrow> ws_listen \<Rightarrow> ws_listen" where
  "end_ping i l = l\<lparr>wl_pings := take i (wl_pings l) @ drop (Suc i) (wl_pings l)\<rparr>"

definition ping_tick :: "(nat \<Rightarrow> go_error + byte list) \<Rightarrow> nat \<Rightarrow> ws_listen \<Rightarrow> ws_listen" where
  "ping_tick rnd i l =
     (if wclosed (wl_client l) then end_ping i l
      else case Ping rnd (wl_pings l ! i) (wl_client l) of
        (Inr _, c) \<Rightarrow> l\<lparr>wl_client := c\<rparr>
      | (Inl _, c) \<Rightarrow> end_ping i (l\<lparr>wl_client := snd (ws_Close rnd c)\<rparr>))"

inductive ws_listen_step :: "(nat \<Rightarrow> go_error + byte list) \<Rightarrow> ws_listen \<Rightarrow> ws_listen \<Rightarrow> bool" for rnd where
  read: "wl_reading l \<Longrightarrow> ws_listen_step rnd l (ws_listen_read rnd l)"
| cancel: "\<not> wl_ctx_done l \<Longrightarrow> ws_listen_step rnd l (l\<lparr>wl_ctx_done := True\<rparr>)"
| watch: "wl_ctx_done l \<Longrightarrow> wl_watching l \<Longrightarrow>
    ws_listen_step rnd l (l\<lparr>wl_client := snd (ws_Close rnd (wl_client l)), wl_watching := False\<rparr>)"
| unwatch: "\<not> wl_reading l \<Longrightarrow> ws_listen_step rnd l (l\<lparr>wl_watching := False\<rparr>)"
| start_ping: "ws_listen_step rnd l (l\<lparr>wl_pings := StartPing interval payload (wl_pings l)\<rparr>)"
| tick: "i < length (wl_pings l) \<Longrightarrow> ws_listen_step rnd l (ping_tick rnd i l)"
| stop_ping: "i < length (wl_pings l) \<Longrightarrow>
    ws_listen_step rnd l (end_ping i (l\<lparr>wl_client := snd (ws_Close rnd (wl_client l))\<rparr>))"
| user_write: "ws_listen_step rnd l (l\<lparr>wl_client := snd (WriteFrame rnd opcode payload (wl_client l))\<rparr>)"
| user_close: "ws_listen_step rnd l (l\<lparr>wl_client := snd (ws_Close rnd (wl_client l))\<rparr>)"

inductive_cases ws_listen_stepE: "ws_listen_step rnd l l'"

text \<open>The log: messages only while reading; then at most one error, and one done.\<close>

definition messages_only :: "ws_event list \<Rightarrow> bool" where
  "messages_only es \<longleftrightarrow> list_all (\<lambda>ev. case ev of OnMessage _ \<Rightarrow> True | _ \<Rightarrow> False) es"

definition ws_log_ok :: "bool \<Rightarrow> ws_event list \<Rightarrow> bool" where
  "ws_log_ok reading es \<longleftrightarrow>
     (if reading then messages_only es
      else \<exists>ms tl. es = ms @ tl \<and> messages_only ms \<and> (tl = [OnWsDone] \<or> (\<exists>e. tl = [OnWsError e, OnWsDone] \<and> e \<noteq> EOF \<and> \<not> is_close_error e)))"

lemma ws_Close_closed: "wclosed (snd (ws_Close rnd c))"
proof -
  have "wclosed (snd (writeCloseFrame rnd 1000 ''normal closure'' (c\<lparr>wclosed := True\<rparr>)))"
    using writeFrameLocked_undisturbed [of "c\<lparr>wclosed := True\<rparr>" rnd wsOpClose "close_payload 1000 ''normal closure''"]
    by (simp add: writeCloseFrame_def undisturbed_def)
  then show ?thesis by (auto simp: ws_Close_def Let_def split: prod.split)
qed

lemma WriteFrame_closed: "wclosed (snd (WriteFrame rnd opcode payload c)) = wclosed c"
  using writeFrameLocked_undisturbed [of c rnd opcode payload] by (simp add: WriteFrame_def undisturbed_def)

lemma ws_listen_step_ok:
  assumes "ws_listen_step rnd l l'" and "ws_log_ok (wl_reading l) (wl_log l)"
    and "wl_reading l \<or> wclosed (wl_client l)"
  shows "ws_log_ok (wl_reading l') (wl_log l') \<and> (wl_reading l' \<or> wclosed (wl_client l'))"
  using assms
proof (cases rule: ws_listen_step.cases)
  case read
  with assms(2) ws_Close_closed show ?thesis
    by (auto simp: ws_listen_read_def ws_log_ok_def messages_only_def split: prod.split option.split)
next
  case tick
  with assms(2,3) ws_Close_closed show ?thesis
    by (auto simp: ping_tick_def end_ping_def split: prod.split sum.split)
qed (use assms(2,3) ws_Close_closed WriteFrame_closed in \<open>auto simp: end_ping_def\<close>)

lemma listen_reachable_ok:
  assumes "(ws_listen_step rnd)\<^sup>*\<^sup>* (ws_Listen c pings) l"
  shows "ws_log_ok (wl_reading l) (wl_log l) \<and> (wl_reading l \<or> wclosed (wl_client l))"
  using assms
proof (induction rule: rtranclp_induct)
  case base
  then show ?case by (simp add: ws_Listen_def ws_log_ok_def messages_only_def)
next
  case (step l1 l2)
  then show ?case using ws_listen_step_ok by blast
qed

text \<open>
  C18: in every interleaving of the goroutines of \<^verbatim>\<open>Listen\<close> and \<^verbatim>\<open>StartPing\<close> with writes and closes of the
  caller, \<^verbatim>\<open>onMessage\<close> is called only while the reading goroutine runs; when it ends the client is
  closed and the last calls are at most one \<^verbatim>\<open>onError\<close>, never for \<^verbatim>\<open>io.EOF\<close> or a close frame of the
  peer, and then exactly one \<^verbatim>\<open>onDone\<close>.
\<close>

theorem ws_listen_callbacks_ordered:
  assumes "(ws_listen_step rnd)\<^sup>*\<^sup>* (ws_Listen c pings) l"
  shows "ws_log_ok (wl_reading l) (wl_log l) \<and> (wl_reading l \<or> wclosed (wl_client l))"
  using assms by (rule listen_reachable_ok)

lemma ws_listen_callbacks_ordered_witness:
  "\<exists>l. (ws_listen_step (\<lambda>_. Inr [0, 0, 0, 0]))\<^sup>*\<^sup>* (ws_Listen (ex_ws [([0x81, 1, 72], None)]) [[1]]) l \<and> \<not> wl_reading l
     \<and> wl_log l = [OnMessage \<lparr>MOpcode = 1, MData = [72]\<rparr>, OnWsDone] \<and> ws_log_ok False (wl_log l) \<and> wclosed (wl_client l)"
proof -
  let ?rnd = "\<lambda>_. Inr [0, 0, 0, 0]"
  let ?l0 = "ws_Listen (ex_ws [([0x81, 1, 72], None)]) [[1]]"
  let ?l1 = "ws_listen_read ?rnd ?l0"
  let ?l2 = "ws_listen_read ?rnd (ping_tick ?rnd 0 ?l1)"
  have run: "wl_reading ?l0" "wl_reading (ping_tick ?rnd 0 ?l1)" "0 < length (wl_pings ?l1)"
    "\<not> wl_reading ?l2" "wl_log ?l2 = [OnMessage \<lparr>MOpcode = 1, MData = [72]\<rparr>, OnWsDone]"
    by code_simp+
  have steps: "(ws_listen_step ?rnd)\<^sup>*\<^sup>* ?l0 ?l2"
    using ws_listen_step.read [OF run(1), of ?rnd]
      ws_listen_step.tick [OF run(3), of ?rnd] ws_listen_step.read [OF run(2), of ?rnd]
    by (meson converse_rtranclp_into_rtranclp r_into_rtranclp)
  from ws_listen_callbacks_ordered [OF steps] run steps show ?thesis by auto
qed

end
