(* ===== verification/WebSocket_Reconnect.thy ===== *)
theory WebSocket_Reconnect
  imports WebSocket_Client
begin

text \<open>
  \<^verbatim>\<open>ReconnectWebSocketClient\<close> of \<^verbatim>\<open>network/websocket_reconnect.go\<close>. \<^verbatim>\<open>Run\<close> and the goroutines of the \<^verbatim>\<open>Listen\<close> it starts are
  a machine driven by a schedule, which says who moves next: \<^verbatim>\<open>Run\<close>, a goroutine or a caller of the session, or
  the context, which may end at any time. A move of \<^verbatim>\<open>Run\<close> goes to its next \<^verbatim>\<open>select\<close> or sleep; while no case of the
  \<^verbatim>\<open>select\<close> is ready, \<^verbatim>\<open>Run\<close> cannot move. A statement for all schedules covers all executions, also those in which \<^verbatim>\<open>Run\<close>
  never returns. The calls of the callbacks are the log.
\<close>

record 'w ReconnectWebSocketClient =
  rURL :: string
  rConfig :: "'w WebSocketConfig"
  MaxReconnects :: int
  ReconnectDelay :: int
  rclient :: "WebSocketClient option"

definition NewReconnectWebSocketClient :: "string \<Rightarrow> 'w WebSocketConfig \<Rightarrow> 'w ReconnectWebSocketClient" where
  "NewReconnectWebSocketClient rawURL config =
     \<lparr>rURL = rawURL, rConfig = config, MaxReconnects = -1, ReconnectDelay = 2 * 10 ^ 9, rclient = None\<rparr>"

definition Current :: "'w ReconnectWebSocketClient \<Rightarrow> WebSocketClient option" where
  "Current r = rclient r"

text \<open>The methods that act on the current client.\<close>

definition with_current ::
    "'e \<Rightarrow> (WebSocketClient \<Rightarrow> 'e \<times> WebSocketClient) \<Rightarrow> 'w ReconnectWebSocketClient \<Rightarrow> 'e \<times> 'w ReconnectWebSocketClient" where
  "with_current none f r =
     (case Current r of None \<Rightarrow> (none, r) | Some c \<Rightarrow> (case f c of (e, c') \<Rightarrow> (e, r\<lparr>rclient := Some c'\<rparr>)))"

definition reconnect_SendText where
  "reconnect_SendText rnd text = with_current (Inl ErrTCPClientClosed) (SendText rnd text)"

definition reconnect_SendJSON where
  "reconnect_SendJSON rnd marshalled = with_current (Inl ErrTCPClientClosed) (SendJSON rnd marshalled)"

definition reconnect_Close where
  "reconnect_Close rnd = with_current None (ws_Close rnd)"

subsection \<open>Sessions\<close>

text \<open>A schedule is a list of actions; an action whose goroutine is not there does nothing.\<close>

datatype listen_action =
    Reads
  | ContextEnds
  | Watches
  | Unwatches
  | StartsPing int "byte list"
  | Ticks nat
  | StopsPing nat
  | Writes byte "byte list"
  | Closes

fun listen_act :: "(nat \<Rightarrow> go_error + byte list) \<Rightarrow> listen_action \<Rightarrow> ws_listen \<Rightarrow> ws_listen" where
  "listen_act rnd Reads l = (if wl_reading l then ws_listen_read rnd l else l)"
| "listen_act rnd ContextEnds l = (if wl_ctx_done l then l else l\<lparr>wl_ctx_done := True\<rparr>)"
| "listen_act rnd Watches l =
     (if wl_ctx_done l \<and> wl_watching l
      then l\<lparr>wl_client := snd (ws_Close rnd (wl_client l)), wl_watching := False\<rparr> else l)"
| "listen_act rnd Unwatches l = (if wl_reading l then l else l\<lparr>wl_watching := False\<rparr>)"
| "listen_act rnd (StartsPing interval payload) l = l\<lparr>wl_pings := StartPing interval payload (wl_pings l)\<rparr>"
| "listen_act rnd (Ticks i) l = (if i < length (wl_pings l) then ping_tick rnd i l else l)"
| "listen_act rnd (StopsPing i) l =
     (if i < length (wl_pings l) then end_ping i (l\<lparr>wl_client := snd (ws_Close rnd (wl_client l))\<rparr>) else l)"
| "listen_act rnd (Writes opcode payload) l = l\<lparr>wl_client := snd (WriteFrame rnd opcode payload (wl_client l))\<rparr>"
| "listen_act rnd Closes l = l\<lparr>wl_client := snd (ws_Close rnd (wl_client l))\<rparr>"

lemma listen_act_step: "(ws_listen_step rnd)\<^sup>*\<^sup>* l (listen_act rnd act l)"
  by (cases act) (auto intro: ws_listen_step.intros)

text \<open>The error of the first call of \<^verbatim>\<open>notifyDone\<close>, which is the one \<^verbatim>\<open>notifyOnce\<close> lets through.\<close>

fun notified :: "ws_event list \<Rightarrow> go_error option option" where
  "notified [] = None"
| "notified (OnMessage _ # es) = notified es"
| "notified (OnWsError e # _) = Some (Some e)"
| "notified (OnWsDone # _) = Some None"

fun callback_message :: "ws_event \<Rightarrow> WebSocketMessage list" where
  "callback_message (OnMessage m) = [m]"
| "callback_message _ = []"

subsection \<open>Run\<close>

datatype reconnect_event =
    OnConnect
  | OnReconnectMessage WebSocketMessage
  | OnReconnectError go_error
  | OnDisconnect "go_error option"

datatype run_phase = AtHead | InSession ws_listen | Sleeping | RunReturned

text \<open>
  \<open>rs_steps\<close> counts the moves of \<^verbatim>\<open>Run\<close>, and \<open>rs_dropped\<close> are the clients it has let go of, as it left them. The log are
  the callbacks until \<^verbatim>\<open>Run\<close> returns.
\<close>

record 'w run_state =
  rs_client :: "'w ReconnectWebSocketClient"
  reconnects :: int
  rs_log :: "reconnect_event list"
  rs_world :: 'w
  rs_ctx :: bool
  rs_phase :: run_phase
  rs_dropped :: "WebSocketClient list"
  rs_steps :: nat

record 'w reconnect_env =
  renv_ws :: "'w ws_env"
  renv_rnd :: "nat \<Rightarrow> go_error + byte list"

text \<open>\<open>ctx_first\<close>: whether the \<^verbatim>\<open>select\<close> takes the case of the context, if that is ready.\<close>

definition sleepContext :: "bool \<Rightarrow> bool \<Rightarrow> int \<Rightarrow> bool" where
  "sleepContext ctx_done ctx_first d = (if d \<le> 0 then True else \<not> (ctx_done \<and> ctx_first))"

definition connect_step :: "'w reconnect_env \<Rightarrow> 'w run_state \<Rightarrow> 'w run_state" where
  "connect_step env s =
     (let r = rs_client s in
      case NewWebSocketClient (renv_ws env) (rURL r) (rConfig r) (rs_world s) of
        (Inl err, w) \<Rightarrow> s\<lparr>rs_world := w, rs_log := rs_log s @ [OnReconnectError err], reconnects := reconnects s + 1,
            rs_phase := Sleeping\<rparr>
      | (Inr (ws, pings), w) \<Rightarrow> s\<lparr>rs_world := w, rs_client := r\<lparr>rclient := Some ws\<rparr>, rs_log := rs_log s @ [OnConnect],
            rs_phase := InSession (ws_Listen ws pings)\<rparr>)"

definition select_step :: "'w reconnect_env \<Rightarrow> bool \<Rightarrow> ws_listen \<Rightarrow> 'w run_state \<Rightarrow> 'w run_state option" where
  "select_step env ctx_first l s =
     (let r = rs_client s in
      if wl_ctx_done l \<and> (ctx_first \<or> notified (wl_log l) = None)
      then Some (s\<lparr>rs_client := r\<lparr>rclient := Some (snd (ws_Close (renv_rnd env) (wl_client l)))\<rparr>, rs_phase := RunReturned\<rparr>)
      else case notified (wl_log l) of
        None \<Rightarrow> None
      | Some e \<Rightarrow> Some (s\<lparr>rs_log := rs_log s @ [OnDisconnect e], rs_client := r\<lparr>rclient := None\<rparr>,
            rs_dropped := rs_dropped s @ [snd (ws_Close (renv_rnd env) (wl_client l))],
            reconnects := reconnects s + 1, rs_phase := Sleeping\<rparr>))"

definition run_next :: "'w reconnect_env \<Rightarrow> bool \<Rightarrow> 'w run_state \<Rightarrow> 'w run_state option" where
  "run_next env ctx_first s = (case rs_phase s of
      AtHead \<Rightarrow>
        Some (if rs_ctx s then s\<lparr>rs_client := snd (reconnect_Close (renv_rnd env) (rs_client s)), rs_phase := RunReturned\<rparr>
          else if 0 \<le> MaxReconnects (rs_client s) \<and> MaxReconnects (rs_client s) < reconnects s then s\<lparr>rs_phase := RunReturned\<rparr>
          else connect_step env s)
    | InSession l \<Rightarrow> select_step env ctx_first l s
    | Sleeping \<Rightarrow>
        Some (s\<lparr>rs_phase := (if sleepContext (rs_ctx s) ctx_first (ReconnectDelay (rs_client s)) then AtHead else RunReturned)\<rparr>)
    | RunReturned \<Rightarrow> None)"

text \<open>The messages among the callbacks that a move of the session has added reach \<^verbatim>\<open>OnMessage\<close>.\<close>

definition session_step :: "'w reconnect_env \<Rightarrow> listen_action \<Rightarrow> ws_listen \<Rightarrow> 'w run_state \<Rightarrow> 'w run_state" where
  "session_step env act l s =
     (let l' = listen_act (renv_rnd env) act l;
          new = concat (map callback_message (drop (length (wl_log l)) (wl_log l'))) in
      s\<lparr>rs_phase := InSession l', rs_client := (rs_client s)\<lparr>rclient := Some (wl_client l')\<rparr>, rs_ctx := wl_ctx_done l',
        rs_log := rs_log s @ map OnReconnectMessage new\<rparr>)"

datatype run_action = RunMoves bool | SessionMoves listen_action | ContextOver

fun run_act :: "'w reconnect_env \<Rightarrow> run_action \<Rightarrow> 'w run_state \<Rightarrow> 'w run_state" where
  "run_act env (RunMoves ctx_first) s =
     (case run_next env ctx_first s of None \<Rightarrow> s | Some s' \<Rightarrow> s'\<lparr>rs_steps := Suc (rs_steps s)\<rparr>)"
| "run_act env (SessionMoves act) s = (case rs_phase s of InSession l \<Rightarrow> session_step env act l s | _ \<Rightarrow> s)"
| "run_act env ContextOver s = (case rs_phase s of InSession l \<Rightarrow> session_step env ContextEnds l s | _ \<Rightarrow> s\<lparr>rs_ctx := True\<rparr>)"

definition Run :: "'w reconnect_env \<Rightarrow> run_action list \<Rightarrow> 'w ReconnectWebSocketClient \<Rightarrow> 'w \<Rightarrow> 'w run_state" where
  "Run env sched r w = fold (run_act env) sched
     \<lparr>rs_client = r, reconnects = 0, rs_log = [], rs_world = w, rs_ctx = False, rs_phase = AtHead, rs_dropped = [], rs_steps = 0\<rparr>"

subsection \<open>The order of the callbacks\<close>

text \<open>
  The order of the callbacks: an error of a connection attempt, or \<^verbatim>\<open>OnConnect\<close>, messages and \<^verbatim>\<open>OnDisconnect\<close>. Only
  the last session may lack its \<^verbatim>\<open>OnDisconnect\<close>.
\<close>

fun reconnect_log_ok :: "bool \<Rightarrow> reconnect_event list \<Rightarrow> bool" where
  "reconnect_log_ok connected [] = True"
| "reconnect_log_ok connected (OnReconnectError _ # es) = (\<not> connected \<and> reconnect_log_ok False es)"
| "reconnect_log_ok connected (OnConnect # es) = (\<not> connected \<and> reconnect_log_ok True es)"
| "reconnect_log_ok connected (OnReconnectMessage _ # es) = (connected \<and> reconnect_log_ok True es)"
| "reconnect_log_ok connected (OnDisconnect d # es) =
     (connected \<and> (case d of None \<Rightarrow> True | Some e \<Rightarrow> e \<noteq> EOF \<and> \<not> is_close_error e) \<and> reconnect_log_ok False es)"

text \<open>Whether a log ends inside a session, and its connection attempts.\<close>

fun in_session :: "bool \<Rightarrow> reconnect_event list \<Rightarrow> bool" where
  "in_session connected [] = connected"
| "in_session connected (OnReconnectError _ # es) = in_session False es"
| "in_session connected (OnConnect # es) = in_session True es"
| "in_session connected (OnReconnectMessage _ # es) = in_session True es"
| "in_session connected (OnDisconnect _ # es) = in_session False es"

fun is_attempt :: "reconnect_event \<Rightarrow> bool" where
  "is_attempt OnConnect = True"
| "is_attempt (OnReconnectError _) = True"
| "is_attempt _ = False"

definition attempts :: "reconnect_event list \<Rightarrow> nat" where
  "attempts log = length (filter is_attempt log)"

lemma attempts_simps [simp]:
  "attempts [] = 0" "attempts (log @ [ev]) = attempts log + (if is_attempt ev then 1 else 0)"
  "attempts (log @ map OnReconnectMessage ms) = attempts log"
  by (simp_all add: attempts_def filter_map comp_def)

lemma log_append:
  "reconnect_log_ok c (es @ fs) \<longleftrightarrow> reconnect_log_ok c es \<and> reconnect_log_ok (in_session c es) fs"
  "in_session c (es @ fs) = in_session (in_session c es) fs"
  by (induction c es rule: reconnect_log_ok.induct) auto

lemma log_messages [simp]:
  "reconnect_log_ok True (map OnReconnectMessage ms)" "in_session True (map OnReconnectMessage ms)"
  by (induction ms) auto

lemma notified_messages: "messages_only ms \<Longrightarrow> notified (ms @ es) = notified es"
  by (induction ms) (auto simp: messages_only_def split: ws_event.splits)

lemma notified_log_ok:
  assumes "ws_log_ok reading es"
  shows "notified es = None \<longleftrightarrow> reading"
    and "notified es = Some d \<Longrightarrow> (case d of None \<Rightarrow> True | Some e \<Rightarrow> e \<noteq> EOF \<and> \<not> is_close_error e)"
  using assms notified_messages [of es "[]"] by (auto simp: ws_log_ok_def notified_messages split: if_splits)

subsection \<open>What every schedule keeps\<close>

definition listen_ok :: "ws_listen \<Rightarrow> bool" where
  "listen_ok l \<longleftrightarrow> ws_log_ok (wl_reading l) (wl_log l) \<and> (wl_reading l \<or> wclosed (wl_client l))"

lemma listen_ok_act: "listen_ok l \<Longrightarrow> listen_ok (listen_act rnd act l)"
  using listen_act_step [of rnd l act]
proof (induction rule: rtranclp_induct)
  case base
  then show ?case .
next
  case (step l1 l2)
  then show ?case using ws_listen_step_ok [of rnd l1 l2] by (simp add: listen_ok_def)
qed

lemma listen_ok_start: "listen_ok (ws_Listen ws pings)"
  by (simp add: listen_ok_def ws_Listen_def ws_log_ok_def messages_only_def)

definition no_open_client :: "'w ReconnectWebSocketClient \<Rightarrow> bool" where
  "no_open_client r \<longleftrightarrow> (case rclient r of None \<Rightarrow> True | Some c \<Rightarrow> wclosed c)"

lemma no_open_client_simps [simp]:
  "rclient r = None \<Longrightarrow> no_open_client r" "no_open_client (r\<lparr>rclient := Some (snd (ws_Close rnd c))\<rparr>)"
  "no_open_client (snd (reconnect_Close rnd r))"
  using ws_Close_closed
  by (auto simp: no_open_client_def reconnect_Close_def with_current_def Current_def split: option.split prod.split)
    (metis snd_conv)

text \<open>At most \<^verbatim>\<open>MaxReconnects\<close> + 1 attempts; \<open>run_left\<close> is the number of moves \<^verbatim>\<open>Run\<close> can still make.\<close>

definition run_left :: "'w run_state \<Rightarrow> nat" where
  "run_left s = (let k = nat (MaxReconnects (rs_client s) + 1 - reconnects s) in
     case rs_phase s of AtHead \<Rightarrow> 3 * k + 1 | InSession _ \<Rightarrow> 3 * k | Sleeping \<Rightarrow> 3 * k + 2 | RunReturned \<Rightarrow> 0)"

definition run_ok :: "int \<Rightarrow> 'w run_state \<Rightarrow> bool" where
  "run_ok m s \<longleftrightarrow> MaxReconnects (rs_client s) = m \<and> reconnect_log_ok False (rs_log s) \<and> list_all wclosed (rs_dropped s)
     \<and> (case rs_phase s of
          InSession l \<Rightarrow> listen_ok l \<and> wl_ctx_done l = rs_ctx s \<and> in_session False (rs_log s) \<and> int (attempts (rs_log s)) = reconnects s + 1
            \<and> (0 \<le> m \<longrightarrow> reconnects s \<le> m)
        | RunReturned \<Rightarrow> no_open_client (rs_client s) \<and> (0 \<le> m \<longrightarrow> int (attempts (rs_log s)) \<le> m + 1)
        | _ \<Rightarrow> \<not> in_session False (rs_log s) \<and> rclient (rs_client s) = None \<and> int (attempts (rs_log s)) = reconnects s
            \<and> (0 \<le> m \<longrightarrow> reconnects s \<le> m + 1))"

lemma reconnect_Close_MaxReconnects [simp]: "MaxReconnects (snd (reconnect_Close rnd r)) = MaxReconnects r"
  by (simp add: reconnect_Close_def with_current_def split: option.split prod.split)

lemma run_ok_connect:
  assumes "run_ok m s" and "rs_phase s = AtHead" and "\<not> rs_ctx s" and "0 \<le> m \<longrightarrow> reconnects s \<le> m"
  shows "run_ok m (connect_step env s)"
  using assms listen_ok_start
  by (auto simp: run_ok_def ws_Listen_def connect_step_def Let_def log_append split: prod.split sum.split)

lemma run_ok_select:
  assumes "run_ok m s" and "rs_phase s = InSession l" and "select_step env ctx_first l s = Some s'"
  shows "run_ok m s'"
  using assms notified_log_ok [of "wl_reading l" "wl_log l"] ws_Close_closed
  by (auto simp: run_ok_def select_step_def Let_def log_append listen_ok_def split: if_splits option.splits)

lemma run_ok_next:
  assumes "run_ok m s" and "run_next env ctx_first s = Some s'"
  shows "run_ok m s'"
proof (cases "rs_phase s")
  case AtHead
  with assms show ?thesis
    by (auto simp: run_next_def intro!: run_ok_connect split: if_splits) (auto simp: run_ok_def)
next
  case (InSession l)
  with assms show ?thesis by (auto simp: run_next_def intro: run_ok_select)
next
  case Sleeping
  with assms show ?thesis by (auto simp: run_next_def run_ok_def)
qed (use assms in \<open>simp add: run_next_def\<close>)

lemma run_ok_session:
  assumes "run_ok m s" and "rs_phase s = InSession l"
  shows "run_ok m (session_step env act l s)"
  using assms listen_ok_act by (simp add: run_ok_def session_step_def Let_def log_append)

text \<open>A move of \<^verbatim>\<open>Run\<close> uses up one of the moves it has left; the moves of the others use up none.\<close>

lemma run_left_next:
  assumes "run_ok m s" and "0 \<le> m" and "run_next env ctx_first s = Some s'"
  shows "run_left s' < run_left s"
  using assms
  by (auto simp: run_left_def run_next_def run_ok_def connect_step_def select_step_def Let_def
      split: run_phase.splits if_splits option.splits prod.splits sum.splits)

lemma run_left_session [simp]: "rs_phase s = InSession l \<Longrightarrow> run_left (session_step env act l s) = run_left s"
  by (simp add: run_left_def session_step_def Let_def)

lemma run_left_upd [simp]:
  "run_ok m (s\<lparr>rs_steps := n\<rparr>) = run_ok m s" "run_left (s\<lparr>rs_steps := n\<rparr>) = run_left s" "run_left (s\<lparr>rs_ctx := c\<rparr>) = run_left s"
  by (simp_all add: run_ok_def run_left_def split: run_phase.split)

lemma session_step_steps [simp]: "rs_steps (session_step env act l s) = rs_steps s"
  by (simp add: session_step_def Let_def)

lemma run_next_steps: "run_next env ctx_first s = Some s' \<Longrightarrow> rs_steps s' = rs_steps s"
  by (auto simp: run_next_def connect_step_def select_step_def Let_def
      split: run_phase.splits if_splits option.splits prod.splits sum.splits)

lemma run_act_ok:
  assumes "run_ok m s"
  shows "run_ok m (run_act env act s)"
proof (cases act)
  case (RunMoves ctx_first)
  with assms run_ok_next [OF assms] show ?thesis by (cases "run_next env ctx_first s") auto
next
  case (SessionMoves a)
  with assms run_ok_session [OF assms] show ?thesis by (auto split: run_phase.split)
next
  case ContextOver
  with assms run_ok_session [OF assms] show ?thesis by (cases "rs_phase s") (auto simp: run_ok_def)
qed

lemma run_act_left:
  assumes "run_ok m s" and "0 \<le> m"
  shows "rs_steps (run_act env act s) + run_left (run_act env act s) \<le> rs_steps s + run_left s"
proof (cases act)
  case (RunMoves ctx_first)
  with run_left_next [OF assms, of env ctx_first] show ?thesis by (cases "run_next env ctx_first s") auto
next
  case (SessionMoves a)
  then show ?thesis by (auto split: run_phase.split)
next
  case ContextOver
  then show ?thesis by (auto split: run_phase.split)
qed

lemma Run_ok:
  assumes "rclient r = None"
  shows "run_ok (MaxReconnects r) (Run env sched r w)"
    and "0 \<le> MaxReconnects r \<Longrightarrow> rs_steps (Run env sched r w) + run_left (Run env sched r w) \<le> 3 * nat (MaxReconnects r + 1) + 1"
proof (induction sched rule: rev_induct)
  case Nil
  case 1
  then show ?case using assms by (simp add: Run_def run_ok_def attempts_def)
  case 2
  then show ?case by (simp add: Run_def run_left_def)
next
  case (snoc act sched)
  have run: "Run env (sched @ [act]) r w = run_act env act (Run env sched r w)" by (simp add: Run_def)
  case 1
  from snoc.IH(1) show ?case unfolding run by (rule run_act_ok)
  case 2
  from run_act_left [OF snoc.IH(1) this, of env act] snoc.IH(2) [OF this] show ?case unfolding run by linarith
qed






subsection \<open>Properties\<close>


text \<open>
  C28: from a start without a client, whatever the connections, the goroutines of the sessions, the context and the caller do, at every moment the
  callbacks of \<^verbatim>\<open>Run\<close> so far are errors of attempts and whole sessions in turn: \<^verbatim>\<open>OnConnect\<close>, messages,
  \<^verbatim>\<open>OnDisconnect\<close>, which reports neither \<^verbatim>\<open>io.EOF\<close> nor a close frame as an error; only the last session may lack its
  \<^verbatim>\<open>OnDisconnect\<close>. Every client \<^verbatim>\<open>Run\<close> has let go of is closed, and when it has returned, \<^verbatim>\<open>Current\<close> is no open
  client. Nothing is assumed about \<^verbatim>\<open>MaxReconnects\<close>.
\<close>

theorem reconnect_callbacks_ordered:
  assumes "rclient r = None"
  shows "let s = Run env sched r w in
           reconnect_log_ok False (rs_log s) \<and> (\<forall>c \<in> set (rs_dropped s). wclosed c)
         \<and> (rs_phase s = RunReturned \<longrightarrow> (case Current (rs_client s) of None \<Rightarrow> True | Some c \<Rightarrow> wclosed c))"
  using Run_ok(1) [OF assms, of env sched w]
  by (simp add: Let_def run_ok_def no_open_client_def Current_def list_all_iff split: run_phase.splits)

text \<open>
  A client the caller closes is a disconnect to \<^verbatim>\<open>Run\<close>, which goes on to the next attempt.
\<close>

theorem manual_close_is_disconnect:
  assumes "rs_phase s = InSession (ws_Listen ws pings)" and "\<not> rs_ctx s"
  shows "let s' = fold (run_act env) [SessionMoves Closes, SessionMoves Reads, RunMoves ctx_first] s in
           rs_log s' = rs_log s @ [OnDisconnect (Some ErrTCPClientClosed)] \<and> rs_phase s' = Sleeping
         \<and> reconnects s' = reconnects s + 1"
  using assms ws_Close_closed [of "renv_rnd env" ws]
  by (simp add: session_step_def select_step_def run_next_def Let_def ws_Listen_def ws_listen_read_def ReadMessage_def
      ws_Close_def [of _ "snd (ws_Close (renv_rnd env) ws)"])

subsection \<open>A run\<close>

text \<open>
  Every other dial fails, and the peer sends one message after it has accepted the handshake. Two reconnects are
  allowed; the header maps are iterated backwards.
\<close>

definition ex_accept :: "byte list" where
  "ex_accept = bytes_of (''HTTP/1.1 101 X'' @ crlf @ fields_text ex_upgrade @ crlf)"

definition ex_reconnect_env :: "nat reconnect_env" where
  "ex_reconnect_env = \<lparr>
     renv_ws = \<lparr>
       ws_dial = (\<lambda>_ _ _ w. if w mod 2 = 1 then (Inl (NetError False ''connection refused''), Suc w)
                           else (Inr (ex_peer [(ex_accept @ [0x81, 1, 72], None)]), Suc w)),
       ws_tls = (\<lambda>_ k. (Inl EOF, k)), ws_sha1 = (\<lambda>_. [1, 2, 3]), ws_key = (\<lambda>w. (Inr [7], w)), ws_order = (\<lambda>_. rev)\<rparr>,
     renv_rnd = (\<lambda>_. Inr [0, 0, 0, 0])\<rparr>"

definition ex_reconnect :: "nat ReconnectWebSocketClient" where
  "ex_reconnect = (NewReconnectWebSocketClient ''ws://h/'' \<lparr>WTimeout = 5, WPicker = None, WLocalBind = None,
     WHeaders = [], WUserAgent = [], Compress = False, Protocols = [], PingInterval = 0, PingPayload = [],
     MaxPayloadSize = 0, ReadTimeout = 0, DisableAutoPong = False\<rparr>)\<lparr>MaxReconnects := 2\<rparr>"

definition ex_session :: "run_action list" where
  "ex_session = [RunMoves False, SessionMoves Reads, SessionMoves (Writes 1 [65]), SessionMoves Reads, RunMoves False, RunMoves False]"

definition ex_run :: "run_action list" where
  "ex_run = ex_session @ [RunMoves False, RunMoves False] @ ex_session"



definition ex_waiting :: "run_action list" where
  "ex_waiting = [RunMoves False, SessionMoves Reads]"



definition ex_unbounded :: "nat ReconnectWebSocketClient" where
  "ex_unbounded = ex_reconnect\<lparr>MaxReconnects := -1\<rparr>"

lemma ex_unbounded_run:
  "rs_phase (Run ex_reconnect_env (ex_run @ ex_waiting @ [ContextOver, RunMoves True]) ex_unbounded 1) = RunReturned"
  "length (rs_dropped (Run ex_reconnect_env (ex_run @ ex_waiting @ [ContextOver, RunMoves True]) ex_unbounded 1)) = 1"
  by code_simp+

theorem reconnect_callbacks_ordered_witness:
  "let s = Run ex_reconnect_env (ex_run @ ex_waiting @ [ContextOver, RunMoves True]) ex_unbounded 1 in
     rs_phase s = RunReturned \<and> reconnect_log_ok False (rs_log s)
     \<and> length (rs_dropped s) = 1 \<and> (\<forall>c \<in> set (rs_dropped s). wclosed c)
     \<and> (case Current (rs_client s) of None \<Rightarrow> True | Some c \<Rightarrow> wclosed c)"
proof -
  have "rclient ex_unbounded = None" by (simp add: ex_unbounded_def ex_reconnect_def NewReconnectWebSocketClient_def)
  from reconnect_callbacks_ordered [OF this, of ex_reconnect_env "ex_run @ ex_waiting @ [ContextOver, RunMoves True]" 1]
  show ?thesis using ex_unbounded_run by (auto simp: Let_def)
qed

end
