(* ===== verification/Storage.thy ===== *)
theory Storage
  imports Go_Strings "HOL-Library.AList" "HOL-Library.List_Lexorder" "HOL-Library.Char_ord"
begin

text \<open>
  \<^verbatim>\<open>Storage\<close> of \<^verbatim>\<open>storage/storage.go\<close>: an encrypted key-value file with a backup. The values are Go
  values as \<^verbatim>\<open>encoding/json\<close> makes them, and two more a caller can store; the files are a map from
  paths to contents; \<^verbatim>\<open>aes\<close> and \<^verbatim>\<open>encoding/json\<close> are parameters, gathered in \<open>storage_env\<close>; CBC mode and
  the padding are modelled. A value given to the storage is not changed by its caller afterwards. A run-time panic is an
  outcome of its own. Every method holds the
  lock of the storage for its whole body, so the methods are atomic.
\<close>

subsection \<open>Padding\<close>

definition pkcs7Pad :: "byte list \<Rightarrow> nat \<Rightarrow> byte list" where
  "pkcs7Pad b blockSize =
     (let p = blockSize - length b mod blockSize in b @ replicate p (word_of_nat p))"

definition pkcs7Unpad :: "byte list \<Rightarrow> nat \<Rightarrow> go_error + byte list" where
  "pkcs7Unpad b blockSize =
     (if length b = 0 \<or> length b mod blockSize \<noteq> 0 then Inl (Errorf ''invalid padding size'')
      else let p = unat (b ! (length b - 1)) in
        if p = 0 \<or> blockSize < p \<or> length b < p then Inl (Errorf ''invalid padding'')
        else if \<not> list_all (\<lambda>i. b ! (length b - 1 - i) = word_of_nat p) [0..<p]
        then Inl (Errorf ''invalid padding'')
        else Inr (take (length b - p) b))"

lemma pkcs7_pad_length:
  "0 < n \<Longrightarrow> length (pkcs7Pad b n) mod n = 0 \<and> length b < length (pkcs7Pad b n)"
proof -
  assume n: "0 < n"
  have "length b = n * (length b div n) + length b mod n" "length b mod n < n" using n by simp_all
  then have "length b + (n - length b mod n) = n * (length b div n + 1)" unfolding distrib_left by linarith
  then have "(length b + (n - length b mod n)) mod n = 0" by simp
  moreover have "0 < n - length b mod n" using n by simp
  ultimately show ?thesis unfolding pkcs7Pad_def Let_def by (simp only: length_append length_replicate) simp
qed

lemma unat_pad: "p \<le> 255 \<Longrightarrow> unat (word_of_nat p :: byte) = p"
  by (simp add: unsigned_of_nat take_bit_nat_eq_self)

lemma pkcs7_unpad_pad:
  assumes "0 < n" and "n \<le> 255"
  shows "pkcs7Unpad (pkcs7Pad b n) n = Inr b"
proof -
  define p where "p = n - length b mod n"
  have p: "0 < p" "p \<le> n" using assms by (simp_all add: p_def)
  then have u: "unat (word_of_nat p :: byte) = p" using assms(2) by (intro unat_pad) simp
  have pad: "pkcs7Pad b n = b @ replicate p (word_of_nat p)" by (simp add: pkcs7Pad_def p_def Let_def)
  have "(b @ replicate p (word_of_nat p :: byte)) ! (length b + p - 1 - i) = word_of_nat p" if "i < p" for i
  proof -
    have "length b + p - 1 - i = length b + (p - 1 - i)" using that by simp
    then show ?thesis using that by (simp only: nth_append_length_plus) (simp add: nth_replicate)
  qed
  moreover from this [of 0] p(1) have "(b @ replicate p (word_of_nat p :: byte)) ! (length b + p - 1) = word_of_nat p"
    by simp
  moreover have "(length b + p) mod n = 0" using pkcs7_pad_length [OF assms(1), of b] pad by simp
  ultimately show ?thesis
    using p u unfolding pkcs7Unpad_def pad Let_def by (simp add: list_all_iff)
qed

lemma pkcs7_pad_unpad:
  assumes "0 < n" and "pkcs7Unpad c n = Inr b"
  shows "c = pkcs7Pad b n"
proof -
  define p where "p = unat (c ! (length c - 1))"
  have c: "c \<noteq> []" "length c mod n = 0" "p \<noteq> 0" "p \<le> n" "p \<le> length c" "b = take (length c - p) c"
    "\<And>i. i < p \<Longrightarrow> c ! (length c - 1 - i) = word_of_nat p"
    using assms(2) unfolding pkcs7Unpad_def Let_def p_def [symmetric] by (auto simp: list_all_iff split: if_splits)
  have "drop (length c - p) c = replicate p (word_of_nat p)"
  proof (rule nth_equalityI)
    show "length (drop (length c - p) c) = length (replicate p (word_of_nat p))" using c(5) by simp
    fix i assume "i < length (drop (length c - p) c)"
    then have i: "i < p" using c(5) by simp
    have "length c - 1 - (p - 1 - i) = length c - p + i" using i c(5) by simp
    then show "drop (length c - p) c ! i = replicate p (word_of_nat p) ! i"
      using c(7) [of "p - 1 - i"] i by simp
  qed
  then have split: "c = b @ replicate p (word_of_nat p)" using c(6) append_take_drop_id [of "length c - p" c] by simp
  then have "(length b + p) mod n = 0" using c(2) by simp
  then have "(length b mod n + p) mod n = 0" by (simp add: mod_add_left_eq)
  then obtain k where k: "length b mod n + p = n * k" by (auto simp: mod_eq_0_iff_dvd elim: dvdE)
  then have "k \<noteq> 0" using c(3) by (cases k) auto
  moreover have "n * k < n * 2" using k c(4) mod_less_divisor [OF assms(1), of "length b"] by linarith
  then have "k < 2" by simp
  ultimately have "k = 1" by simp
  then have "p = n - length b mod n" using k by simp
  with split show ?thesis by (simp add: pkcs7Pad_def Let_def)
qed

text \<open>
  \<^verbatim>\<open>pkcs7Unpad\<close> accepts exactly the outputs of \<^verbatim>\<open>pkcs7Pad\<close> and inverts it, for every block
  size a byte can hold: unpadding gives \<open>b\<close> if and only if the input is \<open>b\<close> padded.
\<close>

theorem pkcs7_unpad_iff:
  assumes "0 < n" and "n \<le> 255"
  shows "pkcs7Unpad c n = Inr b \<longleftrightarrow> c = pkcs7Pad b n"
  using pkcs7_unpad_pad [OF assms] pkcs7_pad_unpad [OF assms(1)] by blast

lemma pkcs7_unpad_iff_witness: "pkcs7Unpad [7, 3, 3, 3] 4 = Inr [7] \<and> pkcs7Pad [7] 4 = [7, 3, 3, 3]"
  using pkcs7_unpad_iff [of 4 "[7, 3, 3, 3]" "[7]"] by (simp add: pkcs7Pad_def numeral_3_eq_3)

subsection \<open>CBC mode\<close>

definition xor_block :: "byte list \<Rightarrow> byte list \<Rightarrow> byte list" where
  "xor_block a b = map2 (XOR) a b"

function cbc_encrypt :: "(byte list \<Rightarrow> byte list) \<Rightarrow> byte list \<Rightarrow> byte list \<Rightarrow> byte list" where
  "cbc_encrypt enc prev data =
     (if length data < 16 then []
      else let c = enc (xor_block (take 16 data) prev) in c @ cbc_encrypt enc c (drop 16 data))"
  by pat_completeness auto
termination by (relation "measure (\<lambda>(enc, prev, data). length data)") auto

function cbc_decrypt :: "(byte list \<Rightarrow> byte list) \<Rightarrow> byte list \<Rightarrow> byte list \<Rightarrow> byte list" where
  "cbc_decrypt dec prev data =
     (if length data < 16 then []
      else xor_block (dec (take 16 data)) prev @ cbc_decrypt dec (take 16 data) (drop 16 data))"
  by pat_completeness auto
termination by (relation "measure (\<lambda>(dec, prev, data). length data)") auto

declare cbc_encrypt.simps [simp del] cbc_decrypt.simps [simp del]

text \<open>What the storage needs of the block cipher: decryption undoes encryption, on blocks.\<close>

definition cipher_pair :: "(byte list \<Rightarrow> byte list) \<Rightarrow> (byte list \<Rightarrow> byte list) \<Rightarrow> bool" where
  "cipher_pair enc dec \<longleftrightarrow> (\<forall>b. length b = 16 \<longrightarrow> length (enc b) = 16 \<and> dec (enc b) = b)"

lemma length_xor_block [simp]: "length (xor_block a b) = min (length a) (length b)"
  by (simp add: xor_block_def)

lemma xor_block_cancel: "length a = length b \<Longrightarrow> xor_block (xor_block a b) b = a"
  by (rule nth_equalityI) (simp_all add: xor_block_def xor.assoc)

lemma cbc_round_trip:
  assumes "cipher_pair enc dec" and "length iv = 16" and "16 dvd length data"
  shows "cbc_decrypt dec iv (cbc_encrypt enc iv data) = data \<and> length (cbc_encrypt enc iv data) = length data"
  using assms
proof (induction enc iv data rule: cbc_encrypt.induct)
  case (1 enc iv data)
  show ?case
  proof (cases "length data < 16")
    case True
    then have "data = []" using "1.prems"(3) by (auto dest: dvd_imp_le)
    then show ?thesis by (simp add: cbc_encrypt.simps cbc_decrypt.simps)
  next
    case False
    define x where "x = xor_block (take 16 data) iv"
    have x: "length x = 16" "xor_block x iv = take 16 data"
      using False "1.prems"(2) by (simp_all add: x_def xor_block_cancel)
    then have e: "length (enc x) = 16" "dec (enc x) = x" using "1.prems"(1) by (simp_all add: cipher_pair_def)
    have "16 dvd length (drop 16 data)" using False "1.prems"(3) by simp
    then have IH: "cbc_decrypt dec (enc x) (cbc_encrypt enc (enc x) (drop 16 data)) = drop 16 data
        \<and> length (cbc_encrypt enc (enc x) (drop 16 data)) = length (drop 16 data)"
      using "1.IH" [OF False refl, folded x_def] e(1) "1.prems"(1) by simp
    have enc_eq: "cbc_encrypt enc iv data = enc x @ cbc_encrypt enc (enc x) (drop 16 data)"
      using False by (subst cbc_encrypt.simps) (simp add: x_def Let_def)
    have "cbc_decrypt dec iv (enc x @ cbc_encrypt enc (enc x) (drop 16 data))
        = take 16 data @ drop 16 data"
      using e x IH by (subst cbc_decrypt.simps) simp
    with enc_eq IH e(1) False show ?thesis by simp
  qed
qed

subsection \<open>Values, files and the environment\<close>

text \<open>
  The dynamic values of the store: nil, bool, \<^verbatim>\<open>float64\<close> (\<open>AFloat m e\<close> is \<open>m\<close> times two to the \<open>e\<close>), string,
  \<^verbatim>\<open>[]any\<close> and \<^verbatim>\<open>map[string]any\<close> (which can both be nil), as \<^verbatim>\<open>json.Unmarshal\<close> makes them, and \<^verbatim>\<open>int\<close> and
  \<^verbatim>\<open>[]string\<close>, which only a caller of \<^verbatim>\<open>Set\<close> puts there. Maps are association lists.
\<close>

datatype any =
    ANil
  | ABool bool
  | AFloat int int
  | AStr string
  | AList "any list option"
  | AMap "(string \<times> any) list option"
  | AInt int
  | AStrings "string list"

type_synonym go_map = "(string \<times> any) list option"

record storage =
  Path :: string
  BackupPath :: string
  Key :: "byte list"
  store :: go_map

record fsys =
  files :: "string \<Rightarrow> byte list option"
  write_fails :: "string \<Rightarrow> (go_error \<times> nat option) option"

definition ErrNotExist :: go_error where
  "ErrNotExist = Errorf ''file does not exist''"

definition ReadFile :: "string \<Rightarrow> fsys \<Rightarrow> go_error + byte list" where
  "ReadFile p fs = (case files fs p of None \<Rightarrow> Inl ErrNotExist | Some b \<Rightarrow> Inr b)"

text \<open>
  A write can fail in two ways: the file cannot be opened and is as it was, or it was opened, which empties it, and
  only the first \<open>n\<close> bytes were written.
\<close>

definition WriteFile :: "string \<Rightarrow> byte list \<Rightarrow> fsys \<Rightarrow> go_error option \<times> fsys" where
  "WriteFile p b fs = (case write_fails fs p of
      Some (e, None) \<Rightarrow> (Some e, fs)
    | Some (e, Some n) \<Rightarrow> (Some e, fs\<lparr>files := (files fs)(p := Some (take n b))\<rparr>)
    | None \<Rightarrow> (None, fs\<lparr>files := (files fs)(p := Some b)\<rparr>))"

text \<open>
  \<open>aes_enc key\<close> and \<open>aes_dec key\<close> are the block cipher; \<open>marshal\<close> is \<^verbatim>\<open>json.Marshal\<close>; the three \<open>unmarshal\<close> functions are
  \<^verbatim>\<open>json.Unmarshal\<close> into a map, into a slice and into an \<^verbatim>\<open>any\<close>.
\<close>

record storage_env =
  aes_enc :: "byte list \<Rightarrow> byte list \<Rightarrow> byte list"
  aes_dec :: "byte list \<Rightarrow> byte list \<Rightarrow> byte list"
  marshal :: "any \<Rightarrow> go_error + byte list"
  marshal_indent :: "any \<Rightarrow> go_error + byte list"
  unmarshal_map :: "byte list \<Rightarrow> go_error + go_map"
  unmarshal_list :: "byte list \<Rightarrow> go_error + any list option"
  unmarshal_any :: "byte list \<Rightarrow> go_error + any"

text \<open>A method returns, with the changed storage and files, or panics.\<close>

type_synonym storage_result = "(go_error option \<times> storage \<times> fsys) outcome"

subsection \<open>Opening\<close>

definition defaultKey :: string where
  "defaultKey = ''381a0130d76c062f9f0219ee485ee3f2''"

text \<open>\<^verbatim>\<open>hex.DecodeString\<close>; the offending byte in the text of the error is left out.\<close>

definition hex_value :: "char \<Rightarrow> nat option" where
  "hex_value c =
     (let n = of_char c in
      if 48 \<le> n \<and> n \<le> 57 then Some (n - 48) else if 97 \<le> n \<and> n \<le> 102 then Some (n - 87)
      else if 65 \<le> n \<and> n \<le> 70 then Some (n - 55) else None)"

fun hex_decode :: "string \<Rightarrow> go_error + byte list" where
  "hex_decode [] = Inr []"
| "hex_decode [c] = (case hex_value c of None \<Rightarrow> Inl (Errorf ''encoding/hex: invalid byte'')
     | Some _ \<Rightarrow> Inl (Errorf ''encoding/hex: odd length hex string''))"
| "hex_decode (c # d # s) =
     (case (hex_value c, hex_value d) of
        (Some a, Some b) \<Rightarrow> map_sum id ((#) (word_of_nat (16 * a + b))) (hex_decode s)
      | _ \<Rightarrow> Inl (Errorf ''encoding/hex: invalid byte''))"

definition stripExt :: "string \<Rightarrow> string" where
  "stripExt p =
     (let r = takeWhile (\<lambda>c. c \<noteq> CHR ''.'' \<and> c \<noteq> CHR ''/'') (rev p) in
      case drop (length r) (rev p) of
        CHR ''.'' # rest \<Rightarrow> rev rest
      | _ \<Rightarrow> p)"

definition NewWithKey :: "string \<Rightarrow> string \<Rightarrow> go_error + storage" where
  "NewWithKey path keyHex0 =
     (let keyHex = (if keyHex0 = [] then defaultKey else keyHex0) in
      case hex_decode keyHex of
        Inl e \<Rightarrow> Inl e
      | Inr key \<Rightarrow>
          if length key \<noteq> 16 \<and> length key \<noteq> 24 \<and> length key \<noteq> 32
          then Inl (Errorf ''key must be 16/24/32 bytes (32/48/64 hex)'')
          else Inr \<lparr>Path = path, BackupPath = stripExt path @ ''.backup.bin'', Key = key, store = Some []\<rparr>)"

definition New :: "string \<Rightarrow> go_error + storage" where
  "New path = NewWithKey path defaultKey"

subsection \<open>Saving and loading\<close>

text \<open>\<open>iv\<close> is what \<^verbatim>\<open>rand.Reader\<close> delivers.\<close>

definition encrypt_store :: "storage_env \<Rightarrow> byte list \<Rightarrow> byte list \<Rightarrow> byte list \<Rightarrow> byte list" where
  "encrypt_store env key iv raw = iv @ cbc_encrypt (aes_enc env key) iv (pkcs7Pad raw 16)"

definition save :: "storage_env \<Rightarrow> byte list \<Rightarrow> storage \<Rightarrow> fsys \<Rightarrow> go_error option \<times> fsys" where
  "save env iv s fs =
     (case marshal env (AMap (store s)) of
        Inl err \<Rightarrow> (Some err, fs)
      | Inr raw \<Rightarrow>
          let fs1 = (case files fs (Path s) of None \<Rightarrow> fs | Some b \<Rightarrow> snd (WriteFile (BackupPath s) b fs))
          in WriteFile (Path s) (encrypt_store env (Key s) iv raw) fs1)"

text \<open>\<^verbatim>\<open>CryptBlocks\<close> panics when its input is not a whole number of blocks.\<close>

definition decryptToStore :: "storage_env \<Rightarrow> byte list \<Rightarrow> storage \<Rightarrow> (go_error + storage) outcome" where
  "decryptToStore env blob s =
     (if length blob < 16 then Returns (Inl (Errorf ''invalid blob''))
      else if \<not> 16 dvd length (drop 16 blob) then Panics ''crypto/cipher: input not full blocks''
      else case pkcs7Unpad (cbc_decrypt (aes_dec env (Key s)) (take 16 blob) (drop 16 blob)) 16 of
        Inl err \<Rightarrow> Returns (Inl err)
      | Inr plain \<Rightarrow>
          (case unmarshal_map env plain of
             Inl err \<Rightarrow> Returns (Inl err)
           | Inr obj \<Rightarrow> Returns (Inr (s\<lparr>store := obj\<rparr>))))"

definition save_and_return :: "storage_env \<Rightarrow> byte list \<Rightarrow> storage \<Rightarrow> fsys \<Rightarrow> storage_result" where
  "save_and_return env iv s fs = (case save env iv s fs of (e, fs') \<Rightarrow> Returns (e, s, fs'))"

definition reset_store :: "storage_env \<Rightarrow> byte list \<Rightarrow> storage \<Rightarrow> fsys \<Rightarrow> storage_result" where
  "reset_store env iv s fs = save_and_return env iv (s\<lparr>store := Some []\<rparr>) fs"

definition Initialize :: "storage_env \<Rightarrow> byte list \<Rightarrow> storage \<Rightarrow> fsys \<Rightarrow> storage_result" where
  "Initialize env iv s fs =
     (case ReadFile (Path s) fs of
        Inl _ \<Rightarrow> reset_store env iv s fs
      | Inr b \<Rightarrow>
          if \<not> 16 < length b then reset_store env iv s fs
          else (case decryptToStore env b s of
             Panics p \<Rightarrow> Panics p
           | Returns (Inr s') \<Rightarrow> Returns (None, s', fs)
           | Returns (Inl _) \<Rightarrow>
               (case ReadFile (BackupPath s) fs of
                  Inl _ \<Rightarrow> reset_store env iv s fs
                | Inr fb \<Rightarrow>
                    (case decryptToStore env fb s of
                       Panics p \<Rightarrow> Panics p
                     | Returns (Inr s') \<Rightarrow> Returns (None, s', fs)
                     | Returns (Inl _) \<Rightarrow> reset_store env iv s fs))))"

definition RestoreFromBackup :: "storage_env \<Rightarrow> byte list \<Rightarrow> storage \<Rightarrow> fsys \<Rightarrow> storage_result" where
  "RestoreFromBackup env iv s fs =
     (case ReadFile (BackupPath s) fs of
        Inl e \<Rightarrow> Returns (Some e, s, fs)
      | Inr b \<Rightarrow>
          (case decryptToStore env b s of
             Panics p \<Rightarrow> Panics p
           | Returns (Inl e) \<Rightarrow> Returns (Some e, s, fs)
           | Returns (Inr s') \<Rightarrow> save_and_return env iv s' fs))"

subsection \<open>Reading values\<close>

definition lookup :: "storage \<Rightarrow> string \<Rightarrow> any option" where
  "lookup s key = (case store s of None \<Rightarrow> None | Some m \<Rightarrow> map_of m key)"

definition Get :: "storage \<Rightarrow> string \<Rightarrow> any" where
  "Get s key = (case lookup s key of None \<Rightarrow> ANil | Some v \<Rightarrow> v)"

definition GetString :: "storage \<Rightarrow> string \<Rightarrow> string \<times> bool" where
  "GetString s key = (case Get s key of AStr v \<Rightarrow> (v, True) | _ \<Rightarrow> ([], False))"

text \<open>\<^verbatim>\<open>int(v)\<close> of a float: towards zero; outside the range of \<^verbatim>\<open>int\<close> it is the smallest integer on amd64.\<close>

definition float_to_int :: "int \<Rightarrow> int \<Rightarrow> int" where
  "float_to_int m e =
     (let n = (if 0 \<le> e then m * 2 ^ nat e else sgn m * (\<bar>m\<bar> div 2 ^ nat (- e)))
      in if int64_range n then n else - (2 ^ 63))"

definition GetInt :: "storage \<Rightarrow> string \<Rightarrow> int \<times> bool" where
  "GetInt s key = (case Get s key of
      AFloat m e \<Rightarrow> (float_to_int m e, True)
    | AStr v \<Rightarrow> (case atoi v of Some n \<Rightarrow> (n, True) | None \<Rightarrow> (0, False))
    | _ \<Rightarrow> (0, False))"

definition GetBool :: "storage \<Rightarrow> string \<Rightarrow> bool \<times> bool" where
  "GetBool s key = (case Get s key of ABool v \<Rightarrow> (v, True) | _ \<Rightarrow> (False, False))"

definition GetJSON :: "storage \<Rightarrow> string \<Rightarrow> (string \<times> any) list" where
  "GetJSON s key = (case Get s key of AMap (Some m) \<Rightarrow> m | _ \<Rightarrow> [])"

definition GetJSONInto :: "storage_env \<Rightarrow> (byte list \<Rightarrow> go_error + 'v) \<Rightarrow> storage \<Rightarrow> string \<Rightarrow> go_error + 'v" where
  "GetJSONInto env unmarshal s key =
     unmarshal (case marshal env (AMap (Some (GetJSON s key))) of Inr b \<Rightarrow> b | Inl _ \<Rightarrow> [])"

definition elements :: "any list option \<Rightarrow> any list" where
  "elements l = (case l of None \<Rightarrow> [] | Some xs \<Rightarrow> xs)"

definition GetStringList :: "storage \<Rightarrow> string \<Rightarrow> string list" where
  "GetStringList s key = (case Get s key of
      AList raw \<Rightarrow> List.map_filter (\<lambda>item. case item of AStr str \<Rightarrow> Some str | _ \<Rightarrow> None) (elements raw)
    | _ \<Rightarrow> [])"

definition GetListData :: "storage \<Rightarrow> string \<Rightarrow> any list" where
  "GetListData s key = (case Get s key of AList l \<Rightarrow> elements l | _ \<Rightarrow> [])"

text \<open>
  \<open>slice_ptr\<close> is whether \<^verbatim>\<open>out\<close> points to a slice, as \<^verbatim>\<open>reflect\<close> sees it; \<open>nothing\<close> is the empty slice of its type.
\<close>

definition GetListJSONInto ::
    "storage_env \<Rightarrow> bool \<Rightarrow> (byte list \<Rightarrow> go_error + 'v) \<Rightarrow> 'v \<Rightarrow> storage \<Rightarrow> string \<Rightarrow> go_error + 'v" where
  "GetListJSONInto env slice_ptr unmarshal nothing s key =
     (if \<not> slice_ptr then Inl (Errorf ''out must be pointer to slice'')
      else case lookup s key of
        None \<Rightarrow> Inr nothing
      | Some (AList l) \<Rightarrow> (case marshal env (AList l) of Inl e \<Rightarrow> Inl e | Inr b \<Rightarrow> unmarshal b)
      | Some _ \<Rightarrow> Inl (Errorf (''value for key '' @ go_quote key @ '' is not a list'')))"

definition Keys :: "storage \<Rightarrow> string list" where
  "Keys s = (case store s of None \<Rightarrow> [] | Some m \<Rightarrow> map fst m)"

subsection \<open>Changing values\<close>

definition nil_map_write :: string where
  "nil_map_write = ''assignment to entry in nil map''"

definition Set :: "storage_env \<Rightarrow> byte list \<Rightarrow> string \<Rightarrow> any \<Rightarrow> storage \<Rightarrow> fsys \<Rightarrow> storage_result" where
  "Set env iv key v s fs =
     (case store s of
        None \<Rightarrow> Panics nil_map_write
      | Some m \<Rightarrow> save_and_return env iv (s\<lparr>store := Some (AList.update key v m)\<rparr>) fs)"

text \<open>The three setters that normalise through JSON differ in the type they unmarshal into.\<close>

definition set_normalised ::
    "storage_env \<Rightarrow> (byte list \<Rightarrow> go_error + any) \<Rightarrow> byte list \<Rightarrow> string \<Rightarrow> any \<Rightarrow> storage \<Rightarrow> fsys \<Rightarrow> storage_result" where
  "set_normalised env unmarshal iv key v s fs =
     (case marshal env v of
        Inl e \<Rightarrow> Returns (Some e, s, fs)
      | Inr b \<Rightarrow> (case unmarshal b of Inl e \<Rightarrow> Returns (Some e, s, fs) | Inr x \<Rightarrow> Set env iv key x s fs))"

definition SetStruct :: "storage_env \<Rightarrow> byte list \<Rightarrow> string \<Rightarrow> any \<Rightarrow> storage \<Rightarrow> fsys \<Rightarrow> storage_result" where
  "SetStruct env iv key v s fs = (case v of
      AMap m \<Rightarrow> Set env iv key (AMap m) s fs
    | _ \<Rightarrow> set_normalised env (\<lambda>b. map_sum id AMap (unmarshal_map env b)) iv key v s fs)"

definition SetListStruct :: "storage_env \<Rightarrow> byte list \<Rightarrow> string \<Rightarrow> any \<Rightarrow> storage \<Rightarrow> fsys \<Rightarrow> storage_result" where
  "SetListStruct env = set_normalised env (\<lambda>b. map_sum id AList (unmarshal_list env b))"

definition SetAuto :: "storage_env \<Rightarrow> byte list \<Rightarrow> string \<Rightarrow> any \<Rightarrow> storage \<Rightarrow> fsys \<Rightarrow> storage_result" where
  "SetAuto env = set_normalised env (unmarshal_any env)"

definition Delete :: "storage_env \<Rightarrow> byte list \<Rightarrow> string \<Rightarrow> storage \<Rightarrow> fsys \<Rightarrow> storage_result" where
  "Delete env iv key s fs =
     (case (lookup s key, store s) of
        (Some _, Some m) \<Rightarrow> save_and_return env iv (s\<lparr>store := Some (AList.delete key m)\<rparr>) fs
      | _ \<Rightarrow> Returns (None, s, fs))"

definition Clear :: "storage_env \<Rightarrow> byte list \<Rightarrow> storage \<Rightarrow> fsys \<Rightarrow> storage_result" where
  "Clear env iv s fs = save_and_return env iv (s\<lparr>store := Some []\<rparr>) fs"

subsection \<open>Import and export\<close>

definition ExportJSON :: "storage_env \<Rightarrow> storage \<Rightarrow> go_error + byte list" where
  "ExportJSON env s = marshal_indent env (AMap (Some (case store s of None \<Rightarrow> [] | Some m \<Rightarrow> m)))"

definition ExportJSONToFile :: "storage_env \<Rightarrow> string \<Rightarrow> storage \<Rightarrow> fsys \<Rightarrow> go_error option \<times> fsys" where
  "ExportJSONToFile env path s fs =
     (case ExportJSON env s of Inl e \<Rightarrow> (Some e, fs) | Inr b \<Rightarrow> WriteFile path b fs)"

definition ImportJSON :: "storage_env \<Rightarrow> byte list \<Rightarrow> byte list \<Rightarrow> storage \<Rightarrow> fsys \<Rightarrow> storage_result" where
  "ImportJSON env iv data s fs =
     (case unmarshal_map env data of
        Inl e \<Rightarrow> Returns (Some e, s, fs)
      | Inr obj \<Rightarrow> save_and_return env iv (s\<lparr>store := obj\<rparr>) fs)"

definition MergeJSON :: "storage_env \<Rightarrow> byte list \<Rightarrow> byte list \<Rightarrow> storage \<Rightarrow> fsys \<Rightarrow> storage_result" where
  "MergeJSON env iv data s fs =
     (case unmarshal_map env data of
        Inl e \<Rightarrow> Returns (Some e, s, fs)
      | Inr None \<Rightarrow> save_and_return env iv s fs
      | Inr (Some obj) \<Rightarrow>
          (case store s of
             None \<Rightarrow> if obj = [] then save_and_return env iv s fs else Panics nil_map_write
           | Some m \<Rightarrow> save_and_return env iv
               (s\<lparr>store := Some (fold (\<lambda>(k, v). AList.update k v) obj m)\<rparr>) fs))"

definition import_file where
  "import_file f env iv path s fs =
     (case ReadFile path fs of Inl e \<Rightarrow> Returns (Some e, s, fs) | Inr b \<Rightarrow> f env iv b s fs)"

definition ImportJSONFile :: "storage_env \<Rightarrow> byte list \<Rightarrow> string \<Rightarrow> storage \<Rightarrow> fsys \<Rightarrow> storage_result" where
  "ImportJSONFile = import_file ImportJSON"

definition MergeJSONFile :: "storage_env \<Rightarrow> byte list \<Rightarrow> string \<Rightarrow> storage \<Rightarrow> fsys \<Rightarrow> storage_result" where
  "MergeJSONFile = import_file MergeJSON"

subsection \<open>JSON values\<close>

text \<open>
  The values that \<^verbatim>\<open>encoding/json\<close> gives back as they are: nil, bools, finite float64 numbers, valid UTF-8 strings, slices
  and maps of such values that are not nil. A nil slice or map, an \<^verbatim>\<open>int\<close> and a \<^verbatim>\<open>[]string\<close> come back as something
  else. A map inside a value has its entries in the order of the keys, so that equal maps are equal values;
  a float has an odd mantissa.
\<close>

fun valid_utf8 :: "string \<Rightarrow> bool" where
  "valid_utf8 [] = True"
| "valid_utf8 (c # cs) = (let (r, n) = decode_rune (c # cs) in (r \<noteq> 65533 \<or> n \<noteq> 1) \<and> valid_utf8 (drop (n - 1) cs))"

definition float64_value :: "int \<Rightarrow> int \<Rightarrow> bool" where
  "float64_value m e \<longleftrightarrow> m = 0 \<and> e = 0
     \<or> odd m \<and> \<bar>m\<bar> < 2 ^ 53 \<and> - 1074 \<le> e \<and> \<bar>m\<bar> * 2 ^ nat e < 2 ^ 1024"

primrec json_value :: "any \<Rightarrow> bool" where
  "json_value ANil = True"
| "json_value (ABool b) = True"
| "json_value (AFloat m e) = float64_value m e"
| "json_value (AStr s) = valid_utf8 s"
| "json_value (AList l) = (case map_option (map json_value) l of None \<Rightarrow> False | Some oks \<Rightarrow> list_all id oks)"
| "json_value (AMap m) = (case map_option (map (map_prod id json_value)) m of
      None \<Rightarrow> False
    | Some oks \<Rightarrow> sorted_wrt (<) (map fst oks) \<and> list_all (\<lambda>(k, ok). valid_utf8 k \<and> ok) oks)"
| "json_value (AInt n) = False"
| "json_value (AStrings l) = False"

primrec depth :: "any \<Rightarrow> nat" where
  "depth ANil = 0"
| "depth (ABool b) = 0"
| "depth (AFloat m e) = 0"
| "depth (AStr s) = 0"
| "depth (AList l) = (case map_option (map depth) l of None \<Rightarrow> 0 | Some ds \<Rightarrow> Suc (foldr max ds 0))"
| "depth (AMap m) = (case map_option (map (map_prod id depth)) m of None \<Rightarrow> 0 | Some ds \<Rightarrow> Suc (foldr max (map snd ds) 0))"
| "depth (AInt n) = 0"
| "depth (AStrings l) = 0"

text \<open>
  What the storage needs of the package: a document of such values that is not nested deeper than the 10000 levels
  \<^verbatim>\<open>json.Unmarshal\<close> accepts comes back with the same entries.
\<close>

definition json_object :: "(string \<times> any) list \<Rightarrow> bool" where
  "json_object m \<longleftrightarrow> distinct (map fst m) \<and> list_all (\<lambda>(k, v). valid_utf8 k \<and> json_value v \<and> depth v < 10000) m"

definition json_law :: "storage_env \<Rightarrow> bool" where
  "json_law env \<longleftrightarrow> (\<forall>m raw. json_object m \<longrightarrow> marshal env (AMap (Some m)) = Inr raw \<longrightarrow>
     (\<exists>m'. unmarshal_map env raw = Inr (Some m') \<and> map_of m' = map_of m))"

subsection \<open>The file mirrors the store\<close>

definition env_cipher :: "storage_env \<Rightarrow> byte list \<Rightarrow> bool" where
  "env_cipher env key \<longleftrightarrow> cipher_pair (aes_enc env key) (aes_dec env key)"

lemma decrypt_encrypt:
  assumes "env_cipher env (Key s)" and "length iv = 16"
  shows "decryptToStore env (encrypt_store env (Key s) iv raw) s =
    Returns (map_sum id (\<lambda>obj. s\<lparr>store := obj\<rparr>) (unmarshal_map env raw))"
    and "16 < length (encrypt_store env (Key s) iv raw)"
proof -
  have pad: "16 dvd length (pkcs7Pad raw 16)" "length raw < length (pkcs7Pad raw 16)"
    using pkcs7_pad_length [of 16 raw] by (auto simp: dvd_eq_mod_eq_0)
  note cbc = cbc_round_trip [OF assms(1) [unfolded env_cipher_def] assms(2) pad(1)]
  show "16 < length (encrypt_store env (Key s) iv raw)"
    using cbc pad(2) assms(2) by (auto simp: encrypt_store_def)
  show "decryptToStore env (encrypt_store env (Key s) iv raw) s =
    Returns (map_sum id (\<lambda>obj. s\<lparr>store := obj\<rparr>) (unmarshal_map env raw))"
    using cbc pad assms(2) pkcs7_unpad_pad [of 16 raw]
    by (simp add: decryptToStore_def encrypt_store_def split: sum.split)
qed

definition synced :: "storage_env \<Rightarrow> storage \<Rightarrow> fsys \<Rightarrow> bool" where
  "synced env s fs \<longleftrightarrow> (\<exists>iv raw. length iv = 16 \<and> marshal env (AMap (store s)) = Inr raw
     \<and> files fs (Path s) = Some (encrypt_store env (Key s) iv raw))"

text \<open>The methods that change the store, as data, and their effect.\<close>

datatype storage_call =
    CSet string any
  | CSetStruct string any
  | CSetListStruct string any
  | CSetAuto string any
  | CDelete string
  | CClear
  | CImportJSON "byte list"
  | CMergeJSON "byte list"
  | CRestoreFromBackup

fun do_storage_call :: "storage_env \<Rightarrow> byte list \<Rightarrow> storage_call \<Rightarrow> storage \<Rightarrow> fsys \<Rightarrow> storage_result" where
  "do_storage_call env iv (CSet k v) = Set env iv k v"
| "do_storage_call env iv (CSetStruct k v) = SetStruct env iv k v"
| "do_storage_call env iv (CSetListStruct k v) = SetListStruct env iv k v"
| "do_storage_call env iv (CSetAuto k v) = SetAuto env iv k v"
| "do_storage_call env iv (CDelete k) = Delete env iv k"
| "do_storage_call env iv CClear = Clear env iv"
| "do_storage_call env iv (CImportJSON b) = ImportJSON env iv b"
| "do_storage_call env iv (CMergeJSON b) = MergeJSON env iv b"
| "do_storage_call env iv CRestoreFromBackup = RestoreFromBackup env iv"

text \<open>A sequence of calls, all of which return nil.\<close>

fun storage_calls :: "storage_env \<Rightarrow> (byte list \<times> storage_call) list \<Rightarrow> storage \<Rightarrow> fsys \<Rightarrow> (storage \<times> fsys) option" where
  "storage_calls env [] s fs = Some (s, fs)"
| "storage_calls env ((iv, c) # cs) s fs =
     (case do_storage_call env iv c s fs of
        Returns (None, s', fs') \<Rightarrow> storage_calls env cs s' fs'
      | _ \<Rightarrow> None)"

definition same_files :: "storage \<Rightarrow> storage \<Rightarrow> bool" where
  "same_files s s' \<longleftrightarrow> Path s' = Path s \<and> BackupPath s' = BackupPath s \<and> Key s' = Key s"

lemma save_synced:
  "save env iv s fs = (None, fs') \<Longrightarrow> length iv = 16 \<Longrightarrow> synced env s fs'"
  by (auto simp: save_def synced_def WriteFile_def Let_def split: sum.splits option.splits)

lemma save_and_return_synced:
  "save_and_return env iv s fs = Returns (None, s', fs') \<Longrightarrow> length iv = 16 \<Longrightarrow> synced env s' fs' \<and> s' = s"
  using save_synced by (auto simp: save_and_return_def split: prod.splits)

lemma decryptToStore_files: "decryptToStore env b s = Returns (Inr s') \<Longrightarrow> same_files s s'"
  by (auto simp: decryptToStore_def same_files_def split: if_splits sum.splits)

lemma Set_synced:
  "Set env iv k v s fs = Returns (None, s', fs') \<Longrightarrow> length iv = 16 \<Longrightarrow> synced env s' fs' \<and> same_files s s'"
  by (auto simp: Set_def same_files_def dest!: save_and_return_synced split: option.splits)

lemma do_storage_call_synced:
  assumes "do_storage_call env iv c s fs = Returns (None, s', fs')" and "length iv = 16" and "synced env s fs"
  shows "synced env s' fs' \<and> same_files s s'"
proof (cases c)
  case CRestoreFromBackup
  with assms(1,2) show ?thesis
    by (auto simp: RestoreFromBackup_def dest!: save_and_return_synced decryptToStore_files
        split: sum.splits outcome.splits)
qed (use assms Set_synced in \<open>auto simp: SetStruct_def SetListStruct_def SetAuto_def set_normalised_def Delete_def
    Clear_def ImportJSON_def MergeJSON_def same_files_def dest!: save_and_return_synced
    split: any.splits sum.splits option.splits if_splits\<close>)

lemma storage_calls_synced:
  "storage_calls env cs s fs = Some (s', fs') \<Longrightarrow> list_all (\<lambda>(iv, _). length iv = 16) cs \<Longrightarrow> synced env s fs
   \<Longrightarrow> synced env s' fs' \<and> same_files s s'"
proof (induction env cs s fs rule: storage_calls.induct)
  case (1 env s fs)
  then show ?case by (simp add: same_files_def)
next
  case (2 env iv c cs s fs)
  then obtain s1 fs1 where c: "do_storage_call env iv c s fs = Returns (None, s1, fs1)"
    "storage_calls env cs s1 fs1 = Some (s', fs')"
    by (auto split: outcome.splits prod.splits option.splits)
  have "length iv = 16" "list_all (\<lambda>(iv, _). length iv = 16) cs" using "2.prems"(2) by auto
  with do_storage_call_synced [OF c(1)] "2.prems"(3) have "synced env s1 fs1" "same_files s s1" by auto
  with "2.IH" [OF c(1) refl refl refl c(2)] \<open>list_all _ cs\<close> show ?case by (auto simp: same_files_def)
qed

lemma Initialize_synced:
  assumes "env_cipher env (Key s)" and "synced env s fs" and "same_files s t"
    and "marshal env (AMap (store s)) = Inr raw" and "unmarshal_map env raw = Inr obj"
  shows "Initialize env iv t fs = Returns (None, t\<lparr>store := obj\<rparr>, fs)"
proof -
  obtain iv0 where iv0: "length iv0 = 16" "files fs (Path s) = Some (encrypt_store env (Key s) iv0 raw)"
    using assms(2,4) by (auto simp: synced_def)
  have key: "Key t = Key s" "Path t = Path s" using assms(3) by (simp_all add: same_files_def)
  have "decryptToStore env (encrypt_store env (Key t) iv0 raw) t = Returns (Inr (t\<lparr>store := obj\<rparr>))"
    using decrypt_encrypt(1) [of env t iv0 raw] assms(1,5) key iv0(1) by simp
  moreover have "16 < length (encrypt_store env (Key t) iv0 raw)"
    using decrypt_encrypt(2) [of env t iv0 raw] assms(1) key iv0(1) by simp
  ultimately show ?thesis using iv0(2) key by (simp add: Initialize_def ReadFile_def)
qed

text \<open>
  C7: take a storage whose file mirrors its store (as it does after \<^verbatim>\<open>Clear\<close>, or after \<^verbatim>\<open>Initialize\<close> on a missing
  file) and any sequence of calls that all return nil. When the store then is a document of JSON values, a new
  storage with the same path and key that calls \<^verbatim>\<open>Initialize\<close> has the same keys with the same values, and touches no
  file; whatever the initialisation vectors, for every block cipher, and for every JSON package that gives
  such documents back.
\<close>

theorem storage_survives_restart:
  assumes "env_cipher env (Key s)" and "json_law env" and "synced env s fs"
    and "list_all (\<lambda>(iv, _). length iv = 16) cs" and "storage_calls env cs s fs = Some (s', fs')"
    and "store s' = Some m" and "json_object m" and "same_files s t"
  shows "\<exists>t'. Initialize env iv t fs' = Returns (None, t', fs') \<and> same_files s t' \<and> (\<forall>k. lookup t' k = lookup s' k)"
proof -
  have s': "synced env s' fs'" "same_files s s'" using storage_calls_synced [OF assms(5,4,3)] by simp_all
  then obtain raw where raw: "marshal env (AMap (store s')) = Inr raw" by (auto simp: synced_def)
  then obtain m' where m': "unmarshal_map env raw = Inr (Some m')" "map_of m' = map_of m"
    using assms(2,6,7) by (auto simp: json_law_def)
  have "env_cipher env (Key s')" "same_files s' t" using s'(2) assms(1,8) by (simp_all add: same_files_def)
  from Initialize_synced [OF this(1) s'(1) this(2) raw m'(1)] m'(2) assms(6,8) show ?thesis
    by (simp add: lookup_def same_files_def)
qed

text \<open>
  When the main file is damaged but still a whole number of blocks, and the backup is intact,
  \<^verbatim>\<open>Initialize\<close> loads the backup and leaves both files alone.
\<close>

theorem damaged_file_recovered:
  assumes "env_cipher env (Key s)" and "length iv0 = 16"
    and "files fs (Path s) = Some b" and "16 < length b" and "decryptToStore env b s = Returns (Inl err)"
    and "files fs (BackupPath s) = Some (encrypt_store env (Key s) iv0 raw)" and "unmarshal_map env raw = Inr obj"
  shows "Initialize env iv s fs = Returns (None, s\<lparr>store := obj\<rparr>, fs)"
  using assms decrypt_encrypt(1) [of env s iv0 raw] by (simp add: Initialize_def ReadFile_def)

text \<open>
  When the main file is cut short, the backup does not help. A file of at most 16 bytes, such
  as an empty one after an interrupted write, makes \<^verbatim>\<open>Initialize\<close> start with an empty store without looking at the
  backup, and replaces the backup with the broken file; a longer file whose length is not a multiple of
  16 makes it panic.
\<close>

theorem truncated_file_loses_backup:
  assumes "files fs (Path s) = Some b" and "write_fails fs = (\<lambda>_. None)" and "BackupPath s \<noteq> Path s"
    and "marshal env (AMap (Some [])) = Inr raw"
  shows "if length b \<le> 16 then
           \<exists>fs'. Initialize env iv s fs = Returns (None, s\<lparr>store := Some []\<rparr>, fs') \<and> files fs' (BackupPath s) = Some b
         else 16 dvd length b \<or> (\<exists>p. Initialize env iv s fs = Panics p)"
  using assms
  by (auto simp: Initialize_def ReadFile_def reset_store_def save_and_return_def save_def WriteFile_def Let_def
      decryptToStore_def dvd_minus_self)

text \<open>
  A JSON document \<^verbatim>\<open>null\<close> is imported without an error and leaves the storage with a nil map:
  the next \<^verbatim>\<open>Set\<close> panics.
\<close>

theorem null_import_panics:
  assumes "unmarshal_map env data = Inr None" and "marshal env (AMap None) = Inr raw"
    and "write_fails fs (Path s) = None"
  shows "\<exists>s' fs'. ImportJSON env iv data s fs = Returns (None, s', fs') \<and> Set env iv' k v s' fs' = Panics nil_map_write"
  using assms by (auto simp: ImportJSON_def save_and_return_def save_def WriteFile_def Let_def Set_def split: option.split)

text \<open>
  The typed getters see what \<^verbatim>\<open>Set\<close> stored, not what JSON would make of it: an integer given to
  \<^verbatim>\<open>Set\<close> is not an integer for \<^verbatim>\<open>GetInt\<close>, while the number that the file has for it after a restart
  is; a slice of strings likewise for \<^verbatim>\<open>GetStringList\<close>.
\<close>

theorem set_int_unreadable:
  assumes "Set env iv k (AInt n) s fs = Returns (e, s1, fs1)" and "Set env iv k (AFloat n 0) s fs = Returns (e', s2, fs2)"
    and "Set env iv k (AStrings l) s fs = Returns (e'', s3, fs3)" and "int64_range n"
  shows "GetInt s1 k = (0, False) \<and> GetInt s2 k = (n, True) \<and> GetStringList s3 k = []"
  using assms
  by (auto simp: Set_def save_and_return_def GetInt_def GetStringList_def Get_def lookup_def update_conv'
      float_to_int_def split: option.splits prod.splits)

subsection \<open>Examples\<close>

text \<open>
  A sample codec in the place of JSON: a tag byte for each kind of value, numbers in unary, every item of a
  sequence with a one in front and a zero at the end; nil slices and maps are written as nil, integers as floats.
\<close>

definition enc_int :: "int \<Rightarrow> byte list" where
  "enc_int i = (if i < 0 then 1 else 0) # replicate (nat \<bar>i\<bar>) 1 @ [0]"

definition enc_string :: "string \<Rightarrow> byte list" where
  "enc_string s = concat (map (\<lambda>c. [1, byte_of c]) s) @ [0]"

primrec enc :: "any \<Rightarrow> byte list" where
  "enc ANil = [0]"
| "enc (ABool b) = [1, if b then 1 else 0]"
| "enc (AFloat m e) = 2 # enc_int m @ enc_int e"
| "enc (AStr s) = 3 # enc_string s"
| "enc (AList l) = (case map_option (map enc) l of None \<Rightarrow> [0] | Some es \<Rightarrow> 4 # concat (map ((#) 1) es) @ [0])"
| "enc (AMap m) = (case map_option (map (map_prod id enc)) m of
      None \<Rightarrow> [0] | Some es \<Rightarrow> 5 # concat (map (\<lambda>(k, e). 1 # enc_string k @ e) es) @ [0])"
| "enc (AInt n) = 2 # enc_int n @ enc_int 0"
| "enc (AStrings l) = 4 # concat (map (\<lambda>s. 1 # 3 # enc_string s) l) @ [0]"

fun dec_nat :: "byte list \<Rightarrow> (nat \<times> byte list) option" where
  "dec_nat [] = None"
| "dec_nat (b # bs) = (if b = 0 then Some (0, bs) else map_option (apfst Suc) (dec_nat bs))"

fun dec_int :: "byte list \<Rightarrow> (int \<times> byte list) option" where
  "dec_int [] = None"
| "dec_int (b # bs) = map_option (apfst (\<lambda>n. if b = 1 then - int n else int n)) (dec_nat bs)"

fun dec_string :: "byte list \<Rightarrow> (string \<times> byte list) option" where
  "dec_string [] = None"
| "dec_string (b # bs) = (if b = 0 then Some ([], bs) else case bs of
      [] \<Rightarrow> None | c # cs \<Rightarrow> map_option (apfst ((#) (char_of_byte c))) (dec_string cs))"

fun dec :: "byte list \<Rightarrow> byte list \<Rightarrow> (any \<times> byte list) option"
  and dec_list :: "byte list \<Rightarrow> byte list \<Rightarrow> (any list \<times> byte list) option"
  and dec_map :: "byte list \<Rightarrow> byte list \<Rightarrow> ((string \<times> any) list \<times> byte list) option" where
  "dec (_ # n) (b # bs) =
     (if b = 0 then Some (ANil, bs)
      else if b = 1 then (case bs of [] \<Rightarrow> None | c # cs \<Rightarrow> Some (ABool (c = 1), cs))
      else if b = 2 then Option.bind (dec_int bs) (\<lambda>(m, bs). map_option (apfst (AFloat m)) (dec_int bs))
      else if b = 3 then map_option (apfst AStr) (dec_string bs)
      else if b = 4 then map_option (apfst (\<lambda>l. AList (Some l))) (dec_list n bs)
      else map_option (apfst (\<lambda>m. AMap (Some m))) (dec_map n bs))"
| "dec _ _ = None"
| "dec_list (_ # n) (b # bs) =
     (if b = 0 then Some ([], bs)
      else Option.bind (dec n bs) (\<lambda>(v, bs). map_option (apfst ((#) v)) (dec_list n bs)))"
| "dec_list _ _ = None"
| "dec_map (_ # n) (b # bs) =
     (if b = 0 then Some ([], bs)
      else Option.bind (dec_string bs) (\<lambda>(k, bs).
        Option.bind (dec n bs) (\<lambda>(v, bs). map_option (apfst ((#) (k, v))) (dec_map n bs))))"
| "dec_map _ _ = None"

lemma dec_int_enc [simp]: "dec_int (enc_int i @ rest) = Some (i, rest)"
proof -
  have "dec_nat (replicate n 1 @ 0 # rest) = Some (n, rest)" for n by (induction n) simp_all
  then show ?thesis by (simp add: enc_int_def)
qed

lemma dec_string_enc [simp]: "dec_string (enc_string s @ rest) = Some (s, rest)"
  by (induction s) (simp_all add: enc_string_def)

definition decodes :: "any \<Rightarrow> bool" where
  "decodes v \<longleftrightarrow> (\<forall>n rest. length (enc v) \<le> length n \<longrightarrow> dec n (enc v @ rest) = Some (v, rest))"

lemma dec_list_enc:
  "list_all decodes l \<Longrightarrow> length (concat (map (\<lambda>v. 1 # enc v) l)) < length n \<Longrightarrow>
   dec_list n (concat (map (\<lambda>v. 1 # enc v) l) @ 0 # rest) = Some (l, rest)"
proof (induction l arbitrary: n)
  case Nil
  then show ?case by (cases n) simp_all
next
  case (Cons v l)
  then obtain x k where n: "n = x # k" by (cases n) simp_all
  with Cons.prems have "dec k (enc v @ more) = Some (v, more)" for more by (simp add: decodes_def)
  with Cons n show ?case by simp
qed

lemma dec_map_enc:
  "list_all (\<lambda>(k, v). decodes v) m \<Longrightarrow> length (concat (map (\<lambda>(k, v). 1 # enc_string k @ enc v) m)) < length n \<Longrightarrow>
   dec_map n (concat (map (\<lambda>(k, v). 1 # enc_string k @ enc v) m) @ 0 # rest) = Some (m, rest)"
proof (induction m arbitrary: n)
  case Nil
  then show ?case by (cases n) simp_all
next
  case (Cons kv m)
  obtain k v where kv: "kv = (k, v)" by fastforce
  from Cons.prems obtain x j where n: "n = x # j" by (cases n) simp_all
  with Cons.prems have "dec j (enc v @ more) = Some (v, more)" for more by (simp add: decodes_def kv)
  with Cons n kv show ?case by simp
qed

lemma json_value_decodes: "json_value v \<Longrightarrow> decodes v"
proof (induction v)
  case (AList l)
  then obtain xs where l: "l = Some xs" "list_all decodes xs" by (cases l) (auto simp: list_all_iff)
  have "dec n (enc (AList l) @ rest) = Some (AList l, rest)" if "length (enc (AList l)) \<le> length n" for n rest
    using that dec_list_enc [OF l(2), of "tl n" rest] by (cases n) (simp_all add: l(1) comp_def)
  then show ?case by (simp add: decodes_def)
next
  case (AMap m)
  then obtain xs where m: "m = Some xs" "list_all (\<lambda>(k, v). decodes v) xs" by (cases m) (force simp: list_all_iff)+
  have "dec n (enc (AMap m) @ rest) = Some (AMap m, rest)" if "length (enc (AMap m)) \<le> length n" for n rest
    using that dec_map_enc [OF m(2), of "tl n" rest] by (cases n) (simp_all add: m(1) comp_def case_prod_unfold)
  then show ?case by (simp add: decodes_def)
qed (simp_all add: decodes_def Suc_le_length_iff, auto)

definition ex_doc :: "(string \<times> any) list" where
  "ex_doc = [(''k'', AStr ''v'')]"

definition ex_storage_env :: storage_env where
  "ex_storage_env = \<lparr>aes_enc = (\<lambda>key. rev), aes_dec = (\<lambda>key. rev),
     marshal = (\<lambda>v. Inr (enc v)), marshal_indent = (\<lambda>v. Inr (enc v)),
     unmarshal_map = (\<lambda>b. case dec b b of
         Some (AMap m, []) \<Rightarrow> Inr m | Some (ANil, []) \<Rightarrow> Inr None | _ \<Rightarrow> Inl (Errorf ''invalid document'')),
     unmarshal_list = (\<lambda>b. case dec b b of
         Some (AList l, []) \<Rightarrow> Inr l | Some (ANil, []) \<Rightarrow> Inr None | _ \<Rightarrow> Inl (Errorf ''invalid document'')),
     unmarshal_any = (\<lambda>b. case dec b b of Some (v, []) \<Rightarrow> Inr v | _ \<Rightarrow> Inl (Errorf ''invalid document''))\<rparr>"

lemma ex_unmarshal: "list_all (\<lambda>(k, v). decodes v) m \<Longrightarrow> unmarshal_map ex_storage_env (enc (AMap (Some m))) = Inr (Some m)"
  using dec_map_enc [of m "tl (enc (AMap (Some m)))" "[]"] by (simp add: ex_storage_env_def comp_def case_prod_unfold)

lemma ex_json_law: "json_law ex_storage_env"
proof -
  have "unmarshal_map ex_storage_env raw = Inr (Some m)"
    if "json_object m" "marshal ex_storage_env (AMap (Some m)) = Inr raw" for m raw
  proof -
    have "list_all (\<lambda>(k, v). decodes v) m"
      using that(1) json_value_decodes by (auto simp: json_object_def list_all_iff)
    moreover have "raw = enc (AMap (Some m))" using that(2) by (simp add: ex_storage_env_def)
    ultimately show ?thesis by (simp only: ex_unmarshal)
  qed
  then show ?thesis by (auto simp: json_law_def)
qed

lemma ex_doc_json: "json_object ex_doc" "list_all (\<lambda>(k, v). decodes v) ex_doc"
  using json_value_decodes [of "AStr ''v''"] by (simp_all add: json_object_def ex_doc_def decode_rune_def)

definition ex_storage :: storage where
  "ex_storage = \<lparr>Path = ''a.bin'', BackupPath = ''a.backup.bin'', Key = replicate 16 7, store = Some []\<rparr>"

definition ex_files :: "byte list \<Rightarrow> byte list \<Rightarrow> fsys" where
  "ex_files main backup = \<lparr>files = (\<lambda>p. if p = ''a.bin'' then Some main else if p = ''a.backup.bin'' then Some backup else None),
     write_fails = (\<lambda>_. None)\<rparr>"

definition ex_iv :: "byte list" where
  "ex_iv = replicate 16 9"

lemma ex_storage_cipher: "env_cipher ex_storage_env (Key s)"
  by (simp add: env_cipher_def ex_storage_env_def cipher_pair_def)

lemma length_ex_iv [simp]: "length ex_iv = 16"
  by (simp add: ex_iv_def)

lemma ex_storage_simps [simp]:
  "Path ex_storage = ''a.bin''" "BackupPath ex_storage = ''a.backup.bin''" "store ex_storage = Some []"
  "files (ex_files main backup) ''a.bin'' = Some main" "files (ex_files main backup) ''a.backup.bin'' = Some backup"
  "write_fails (ex_files main backup) = (\<lambda>_. None)"
  by (simp_all add: ex_storage_def ex_files_def)

lemma ex_env_simps [simp]:
  "marshal ex_storage_env v = Inr (enc v)" "unmarshal_map ex_storage_env (enc (AMap (Some []))) = Inr (Some [])"
  "unmarshal_map ex_storage_env (enc (AMap (Some ex_doc))) = Inr (Some ex_doc)" "unmarshal_map ex_storage_env [0] = Inr None"
  using ex_unmarshal [of "[]"] ex_unmarshal [OF ex_doc_json(2)] by (simp_all add: ex_storage_env_def)

definition ex_file :: "(string \<times> any) list \<Rightarrow> byte list" where
  "ex_file m = encrypt_store ex_storage_env (Key ex_storage) ex_iv (enc (AMap (Some m)))"

lemma storage_survives_restart_witness:
  "\<exists>s' fs' t'. storage_calls ex_storage_env [(ex_iv, CSet ''k'' (AStr ''v''))] ex_storage (ex_files (ex_file []) []) = Some (s', fs')
     \<and> Initialize ex_storage_env ex_iv ex_storage fs' = Returns (None, t', fs')
     \<and> (\<forall>k. lookup t' k = lookup s' k) \<and> Get s' ''k'' = AStr ''v''"
proof -
  let ?fs = "ex_files (ex_file []) []" and ?s = "ex_storage\<lparr>store := Some ex_doc\<rparr>"
  obtain fs' where calls: "storage_calls ex_storage_env [(ex_iv, CSet ''k'' (AStr ''v''))] ex_storage ?fs = Some (?s, fs')"
    by (simp add: Set_def save_and_return_def save_def WriteFile_def Let_def del: enc.simps flip: ex_doc_def)
  have "synced ex_storage_env ex_storage ?fs"
    unfolding synced_def
    by (intro exI [of _ ex_iv] exI [of _ "enc (AMap (Some []))"]) (simp add: ex_file_def del: enc.simps)
  from storage_survives_restart [OF ex_storage_cipher ex_json_law this _ calls _ ex_doc_json(1), of ex_storage ex_iv]
  obtain t' where "Initialize ex_storage_env ex_iv ex_storage fs' = Returns (None, t', fs')" "\<forall>k. lookup t' k = lookup ?s k"
    by (auto simp: same_files_def)
  moreover have "Get ?s ''k'' = AStr ''v''" by (simp add: Get_def lookup_def ex_doc_def)
  ultimately show ?thesis using calls by blast
qed

lemma damaged_file_recovered_witness:
  "Initialize ex_storage_env ex_iv ex_storage (ex_files (replicate 32 0) (ex_file ex_doc))
   = Returns (None, ex_storage\<lparr>store := Some ex_doc\<rparr>, ex_files (replicate 32 0) (ex_file ex_doc))"
proof (rule damaged_file_recovered [OF ex_storage_cipher length_ex_iv, where raw = "enc (AMap (Some ex_doc))"])
  show "decryptToStore ex_storage_env (replicate 32 0) ex_storage = Returns (Inl (Errorf ''invalid padding''))"
    by code_simp
qed (simp_all add: ex_file_def del: enc.simps)

lemma truncated_file_loses_backup_witness:
  "\<exists>fs'. Initialize ex_storage_env ex_iv ex_storage (ex_files [] (ex_file ex_doc))
     = Returns (None, ex_storage\<lparr>store := Some []\<rparr>, fs') \<and> files fs' ''a.backup.bin'' = Some []"
  using truncated_file_loses_backup [of "ex_files [] (ex_file ex_doc)"
      ex_storage "[]" ex_storage_env "enc (AMap (Some []))" ex_iv] by (simp del: enc.simps)

lemma null_import_panics_witness:
  "\<exists>s' fs'. ImportJSON ex_storage_env ex_iv [0] ex_storage (ex_files [] []) = Returns (None, s', fs')
     \<and> Set ex_storage_env ex_iv ''k'' (AStr ''v'') s' fs' = Panics nil_map_write"
  by (rule null_import_panics) simp_all

lemma set_int_unreadable_witness:
  "\<exists>s1 s2 s3 fs1 fs2 fs3. Set ex_storage_env ex_iv ''k'' (AInt 5) ex_storage (ex_files [] []) = Returns (None, s1, fs1)
     \<and> Set ex_storage_env ex_iv ''k'' (AFloat 5 0) ex_storage (ex_files [] []) = Returns (None, s2, fs2)
     \<and> Set ex_storage_env ex_iv ''k'' (AStrings [''x'']) ex_storage (ex_files [] []) = Returns (None, s3, fs3)
     \<and> GetInt s1 ''k'' = (0, False) \<and> GetInt s2 ''k'' = (5, True) \<and> GetStringList s3 ''k'' = []"
proof -
  have "\<exists>s1 fs1. Set ex_storage_env ex_iv ''k'' v ex_storage (ex_files [] []) = Returns (None, s1, fs1)" for v
    by (simp add: Set_def save_and_return_def save_def WriteFile_def Let_def ex_storage_env_def)
  then obtain s1 fs1 s2 fs2 s3 fs3 where
    "Set ex_storage_env ex_iv ''k'' (AInt 5) ex_storage (ex_files [] []) = Returns (None, s1, fs1)"
    "Set ex_storage_env ex_iv ''k'' (AFloat 5 0) ex_storage (ex_files [] []) = Returns (None, s2, fs2)"
    "Set ex_storage_env ex_iv ''k'' (AStrings [''x'']) ex_storage (ex_files [] []) = Returns (None, s3, fs3)"
    by metis
  with set_int_unreadable [OF this] show ?thesis by (auto simp: int64_range_def)
qed

end
