(* ===== verification/Go_Path.thy ===== *)
theory Go_Path
  imports Go_Strings
begin

text \<open>
  The lexical operations on paths that the sources use of packages \<^verbatim>\<open>path\<close> and \<^verbatim>\<open>path/filepath\<close>.
\<close>

text \<open>\<^verbatim>\<open>filepath.Clean\<close>, \<^verbatim>\<open>filepath.Dir\<close> and \<^verbatim>\<open>filepath.Join\<close> (\<^verbatim>\<open>path.Join\<close>) with the separator \<^verbatim>\<open>/\<close>.\<close>

fun clean_parts :: "bool \<Rightarrow> string list \<Rightarrow> string list \<Rightarrow> string list" where
  "clean_parts rooted out [] = rev out"
| "clean_parts rooted out (p # ps) =
     (if p = [] \<or> p = ''.'' then clean_parts rooted out ps
      else if p = ''..'' then
        (case out of
           q # out' \<Rightarrow> if q = ''..'' then clean_parts rooted (p # out) ps else clean_parts rooted out' ps
         | [] \<Rightarrow> clean_parts rooted (if rooted then [] else [p]) ps)
      else clean_parts rooted (p # out) ps)"

definition path_clean :: "string \<Rightarrow> string" where
  "path_clean path =
     (let rooted = (path \<noteq> [] \<and> hd path = CHR ''/''); body = join ''/'' (clean_parts rooted [] (split_on ''/'' path)) in
      if rooted then CHR ''/'' # body else if body = [] then ''.'' else body)"

definition path_dir :: "string \<Rightarrow> string" where
  "path_dir path = path_clean (rev (dropWhile (\<lambda>c. c \<noteq> CHR ''/'') (rev path)))"

definition path_join :: "string list \<Rightarrow> string" where
  "path_join parts = (let ps = filter (\<lambda>p. p \<noteq> []) parts in if ps = [] then [] else path_clean (join ''/'' ps))"

end
