(* ===== verification/Sql_Dialect.thy ===== *)
theory Sql_Dialect
  imports Go_Url
begin

text \<open>
  The SQL text of \<^verbatim>\<open>database/dialect.go\<close>, \<^verbatim>\<open>database/sqlite.go\<close> and \<^verbatim>\<open>database/postgres.go\<close>: validation and
  quoting of identifiers, placeholders and the statements of the two dialects. A method of the
  interface \<^verbatim>\<open>Dialect\<close> is a function that dispatches on the implementing type. The letters and digits
  outside ASCII (the tables of package \<^verbatim>\<open>unicode\<close>) are the parameter \<open>uni\<close>. The statements are
  verified against a small SQL lexer.
\<close>

type_synonym Driver = string

definition DriverSQLite :: Driver where "DriverSQLite = ''sqlite''"
definition DriverPostgres :: Driver where "DriverPostgres = ''postgres''"

datatype Dialect = SQLiteDialect | PostgresDialect

definition ErrEmptyDriver :: go_error where "ErrEmptyDriver = Errorf ''database driver is empty''"
definition ErrEmptyDSN :: go_error where "ErrEmptyDSN = Errorf ''database DSN is empty''"
definition ErrUnsupportedDriver :: go_error where "ErrUnsupportedDriver = Errorf ''unsupported database driver''"
definition ErrInvalidIdentifier :: go_error where "ErrInvalidIdentifier = Errorf ''invalid SQL identifier''"

definition dialectForDriver :: "Driver \<Rightarrow> go_error + Dialect" where
  "dialectForDriver driver =
     (if driver = DriverSQLite then Inr SQLiteDialect
      else if driver = DriverPostgres then Inr PostgresDialect
      else if driver = [] then Inl ErrEmptyDriver
      else Inl (Suffixf ErrUnsupportedDriver ('': '' @ driver)))"

subsection \<open>Identifiers\<close>

definition ident_rune :: "(nat \<Rightarrow> bool) \<Rightarrow> nat \<Rightarrow> bool" where
  "ident_rune uni r \<longleftrightarrow> r = 95 \<or> (if r < 128 then (65 \<le> r \<and> r \<le> 90) \<or> (97 \<le> r \<and> r \<le> 122) \<or> (48 \<le> r \<and> r \<le> 57) else uni r)"

definition validateIdentifier :: "(nat \<Rightarrow> bool) \<Rightarrow> string \<Rightarrow> go_error option" where
  "validateIdentifier uni name =
     (if name = [] then Some (Suffixf ErrInvalidIdentifier '': identifier is empty'')
      else if list_all (ident_rune uni) (runes name) then None
      else Some (Suffixf ErrInvalidIdentifier ('': '' @ go_quote name)))"

fun validateIdentifiers :: "(nat \<Rightarrow> bool) \<Rightarrow> string list \<Rightarrow> go_error option" where
  "validateIdentifiers uni [] = None"
| "validateIdentifiers uni (name # names) =
     (case validateIdentifier uni name of Some e \<Rightarrow> Some e | None \<Rightarrow> validateIdentifiers uni names)"

definition quoteIdent :: "(nat \<Rightarrow> bool) \<Rightarrow> string \<Rightarrow> string" where
  "quoteIdent uni name = (if validateIdentifier uni name \<noteq> None then [] else CHR 34 # name @ [CHR 34])"

subsection \<open>The dialects\<close>

definition DriverName :: "Dialect \<Rightarrow> string" where
  "DriverName d = (case d of SQLiteDialect \<Rightarrow> ''sqlite'' | PostgresDialect \<Rightarrow> ''postgres'')"

definition Placeholder :: "Dialect \<Rightarrow> nat \<Rightarrow> string" where
  "Placeholder d i = (case d of SQLiteDialect \<Rightarrow> ''?'' | PostgresDialect \<Rightarrow> CHR ''$'' # show_nat i)"

definition placeholdersFor :: "Dialect \<Rightarrow> nat \<Rightarrow> nat \<Rightarrow> string" where
  "placeholdersFor d n startIndex = join '', '' (map (\<lambda>i. Placeholder d (startIndex + i)) [0..<n])"

definition Placeholders :: "Dialect \<Rightarrow> nat \<Rightarrow> nat \<Rightarrow> string" where
  "Placeholders d count startIndex = placeholdersFor d count startIndex"

definition QuoteIdent :: "(nat \<Rightarrow> bool) \<Rightarrow> Dialect \<Rightarrow> string \<Rightarrow> string" where
  "QuoteIdent uni d name = quoteIdent uni name"

definition quoteIdents :: "(nat \<Rightarrow> bool) \<Rightarrow> Dialect \<Rightarrow> string list \<Rightarrow> string list" where
  "quoteIdents uni d names = map (QuoteIdent uni d) names"

definition joinedQuotedIdents :: "(nat \<Rightarrow> bool) \<Rightarrow> Dialect \<Rightarrow> string list \<Rightarrow> string" where
  "joinedQuotedIdents uni d names = join '', '' (quoteIdents uni d names)"

definition insertSQL :: "(nat \<Rightarrow> bool) \<Rightarrow> Dialect \<Rightarrow> string \<Rightarrow> string \<Rightarrow> string list \<Rightarrow> string" where
  "insertSQL uni d verb table cols =
     verb @ '' INTO '' @ QuoteIdent uni d table @ '' ('' @ joinedQuotedIdents uni d cols @ '') VALUES (''
     @ Placeholders d (length cols) 1 @ '')''"

definition conflictTarget :: "(nat \<Rightarrow> bool) \<Rightarrow> Dialect \<Rightarrow> string list \<Rightarrow> string" where
  "conflictTarget uni d conflictCols =
     (if conflictCols = [] then [] else ''('' @ joinedQuotedIdents uni d conflictCols @ '')'')"

definition updateAssignments :: "(nat \<Rightarrow> bool) \<Rightarrow> Dialect \<Rightarrow> string list \<Rightarrow> string" where
  "updateAssignments uni d updateCols =
     join '', '' (map (\<lambda>col. QuoteIdent uni d col @ '' = EXCLUDED.'' @ QuoteIdent uni d col) updateCols)"

definition Insert :: "(nat \<Rightarrow> bool) \<Rightarrow> Dialect \<Rightarrow> string \<Rightarrow> string list \<Rightarrow> string" where
  "Insert uni d table cols = insertSQL uni d ''INSERT'' table cols"

definition Upsert :: "(nat \<Rightarrow> bool) \<Rightarrow> Dialect \<Rightarrow> string \<Rightarrow> string list \<Rightarrow> string list \<Rightarrow> string list \<Rightarrow> string" where
  "Upsert uni d table cols conflictCols updateCols =
     Insert uni d table cols @ '' ON CONFLICT '' @ conflictTarget uni d conflictCols
     @ '' DO UPDATE SET '' @ updateAssignments uni d updateCols"

definition InsertIgnore :: "(nat \<Rightarrow> bool) \<Rightarrow> Dialect \<Rightarrow> string \<Rightarrow> string list \<Rightarrow> string list \<Rightarrow> string" where
  "InsertIgnore uni d table cols conflictCols = (case d of
      SQLiteDialect \<Rightarrow> insertSQL uni d ''INSERT OR IGNORE'' table cols
    | PostgresDialect \<Rightarrow>
        let target = conflictTarget uni d conflictCols in
        if target = [] then Insert uni d table cols @ '' ON CONFLICT DO NOTHING''
        else Insert uni d table cols @ '' ON CONFLICT '' @ target @ '' DO NOTHING'')"

definition InsertReplace :: "(nat \<Rightarrow> bool) \<Rightarrow> Dialect \<Rightarrow> string \<Rightarrow> string list \<Rightarrow> string list \<Rightarrow> string" where
  "InsertReplace uni d table cols conflictCols = (case d of
      SQLiteDialect \<Rightarrow> insertSQL uni d ''INSERT OR REPLACE'' table cols
    | PostgresDialect \<Rightarrow> Upsert uni d table cols conflictCols cols)"

definition SupportsMaintenance :: "Dialect \<Rightarrow> bool" where
  "SupportsMaintenance d = (case d of SQLiteDialect \<Rightarrow> True | PostgresDialect \<Rightarrow> False)"

text \<open>The statements \<^verbatim>\<open>Init\<close> executes.\<close>

definition init_statements :: "Dialect \<Rightarrow> string list" where
  "init_statements d = (case d of
      SQLiteDialect \<Rightarrow> [''PRAGMA journal_mode = WAL;'', ''PRAGMA synchronous = NORMAL;'', ''PRAGMA foreign_keys = ON;'']
    | PostgresDialect \<Rightarrow> [])"

definition whereKeyFor :: "(nat \<Rightarrow> bool) \<Rightarrow> Dialect \<Rightarrow> string list \<Rightarrow> nat \<Rightarrow> string" where
  "whereKeyFor uni d cols startIndex =
     join '' AND '' (map (\<lambda>(i, c). QuoteIdent uni d c @ '' = '' @ Placeholder d (startIndex + i)) (enumerate 0 cols))"

definition whereKey :: "(nat \<Rightarrow> bool) \<Rightarrow> string list \<Rightarrow> string" where
  "whereKey uni cols = whereKeyFor uni SQLiteDialect cols 1"

definition placeholders :: "nat \<Rightarrow> string" where
  "placeholders n = placeholdersFor SQLiteDialect n 1"

subsection \<open>A lexer for SQL\<close>

text \<open>
  Words (letters, digits, underscores), quoted identifiers (a doubled quote stands for a quote),
  parameters (\<^verbatim>\<open>?\<close>, or a dollar sign and digits) and other characters; blanks separate. An unclosed quote is an
  error.
\<close>

datatype token = Word string | Quoted string | Param string | Sym char

definition word_char :: "char \<Rightarrow> bool" where
  "word_char c \<longleftrightarrow> (let n = of_char c :: nat in n = 95 \<or> (65 \<le> n \<and> n \<le> 90) \<or> (97 \<le> n \<and> n \<le> 122) \<or> (48 \<le> n \<and> n \<le> 57) \<or> 128 \<le> n)"

fun lex_quoted :: "string \<Rightarrow> (string \<times> string) option" where
  "lex_quoted [] = None"
| "lex_quoted (c # s) =
     (if c = CHR 34 then
        (case s of
           d # s' \<Rightarrow> if d = CHR 34 then map_option (apfst ((#) (CHR 34))) (lex_quoted s') else Some ([], s)
         | [] \<Rightarrow> Some ([], []))
      else map_option (apfst ((#) c)) (lex_quoted s))"

lemma lex_quoted_shorter: "lex_quoted s = Some (q, rest) \<Longrightarrow> length rest < length s"
proof (induction s arbitrary: q rule: lex_quoted.induct)
  case 1
  then show ?case by simp
next
  case (2 c s)
  then show ?case by (fastforce split: if_splits list.splits)
qed

function sql_tokens :: "string \<Rightarrow> token list option" where
  "sql_tokens [] = Some []"
| "sql_tokens (c # s) =
     (if c = CHR '' '' \<or> c = CHR 10 then sql_tokens s
      else if c = CHR 34 then
        (case lex_quoted s of None \<Rightarrow> None | Some (q, rest) \<Rightarrow> map_option ((#) (Quoted q)) (sql_tokens rest))
      else if c = CHR ''?'' then map_option ((#) (Param [c])) (sql_tokens s)
      else if c = CHR ''$'' then
        map_option ((#) (Param (c # takeWhile word_char s))) (sql_tokens (dropWhile word_char s))
      else if word_char c then
        map_option ((#) (Word (c # takeWhile word_char s))) (sql_tokens (dropWhile word_char s))
      else map_option ((#) (Sym c)) (sql_tokens s))"
  by pat_completeness auto
termination
  by (relation "measure length") (auto dest: lex_quoted_shorter simp: less_Suc_eq_le length_dropWhile_le)

declare sql_tokens.simps(2) [simp del]

subsection \<open>Lexing pieces of a statement\<close>

text \<open>
  \<open>lexes s ts\<close>: \<open>s\<close> gives the tokens \<open>ts\<close> whenever what follows does not run into it; \<open>lexes_all s ts\<close>:
  whatever follows.
\<close>

definition sep_start :: "string \<Rightarrow> bool" where
  "sep_start s \<longleftrightarrow> (case s of [] \<Rightarrow> True | c # _ \<Rightarrow> \<not> word_char c \<and> c \<noteq> CHR 34)"

definition after :: "token list \<Rightarrow> token list option \<Rightarrow> token list option" where
  "after ts x = map_option (\<lambda>us. ts @ us) x"

lemma after_simps [simp]:
  "after [] x = x" "after ts (after us x) = after (ts @ us) x" "map_option ((#) t) x = after [t] x"
  "after ts (Some us) = Some (ts @ us)"
  by (cases x; simp add: after_def)+

definition lexes :: "string \<Rightarrow> token list \<Rightarrow> bool" where
  "lexes s ts \<longleftrightarrow> (\<forall>rest. sep_start rest \<longrightarrow> sql_tokens (s @ rest) = after ts (sql_tokens rest))"

definition lexes_all :: "string \<Rightarrow> token list \<Rightarrow> bool" where
  "lexes_all s ts \<longleftrightarrow> (\<forall>rest. sql_tokens (s @ rest) = after ts (sql_tokens rest))"

lemma lexes_total: "lexes s ts \<Longrightarrow> sql_tokens s = Some ts"
  unfolding lexes_def by (drule spec [of _ "[]"]) (simp add: sep_start_def)

lemma lexes_Nil: "lexes [] []" "lexes_all [] []"
  by (simp_all add: lexes_def lexes_all_def)

lemma sep_start_append: "sep_start l \<Longrightarrow> l \<noteq> [] \<Longrightarrow> sep_start (l @ rest)"
  by (cases l) (auto simp: sep_start_def)

lemma lexes_append: "lexes s ts \<Longrightarrow> lexes l ls \<Longrightarrow> sep_start l \<Longrightarrow> l \<noteq> [] \<Longrightarrow> lexes (s @ l) (ts @ ls)"
  using sep_start_append by (simp add: lexes_def)

lemma lexes_append_all: "lexes s ts \<Longrightarrow> lexes_all l ls \<Longrightarrow> sep_start l \<Longrightarrow> l \<noteq> [] \<Longrightarrow> lexes_all (s @ l) (ts @ ls)"
  using sep_start_append by (simp add: lexes_def lexes_all_def)

lemma lexes_all_append: "lexes_all l ls \<Longrightarrow> lexes s ts \<Longrightarrow> lexes (l @ s) (ls @ ts)"
  by (simp add: lexes_def lexes_all_def)

lemma lexes_all_append_all: "lexes_all l ls \<Longrightarrow> lexes_all s ts \<Longrightarrow> lexes_all (l @ s) (ls @ ts)"
  by (simp add: lexes_all_def)

lemma lexes_all_lexes: "lexes_all s ts \<Longrightarrow> lexes s ts"
  by (simp add: lexes_def lexes_all_def)

lemma lex_quoted_plain: "CHR 34 \<notin> set q \<Longrightarrow> sep_start rest \<Longrightarrow> lex_quoted (q @ CHR 34 # rest) = Some (q, rest)"
  by (induction q) (auto simp: sep_start_def split: list.split)

lemma lexes_quoted: "CHR 34 \<notin> set q \<Longrightarrow> lexes (CHR 34 # q @ [CHR 34]) [Quoted q]"
  unfolding lexes_def by (auto simp: sql_tokens.simps(2) lex_quoted_plain)

lemma takeWhile_sep: "list_all word_char w \<Longrightarrow> sep_start rest \<Longrightarrow>
    takeWhile word_char (w @ rest) = w \<and> dropWhile word_char (w @ rest) = rest"
  by (induction w) (auto simp: sep_start_def split: list.splits)

lemma lexes_dollar: "list_all word_char w \<Longrightarrow> lexes (CHR ''$'' # w) [Param (CHR ''$'' # w)]"
  unfolding lexes_def by (auto simp: sql_tokens.simps(2) takeWhile_sep)

lemma lexes_question: "lexes ''?'' [Param ''?'']"
  unfolding lexes_def by (auto simp: sql_tokens.simps(2))

fun comma_sep :: "token list \<Rightarrow> token list list \<Rightarrow> token list" where
  "comma_sep sep [] = []"
| "comma_sep sep [t] = t"
| "comma_sep sep (t # ts) = t @ sep @ comma_sep sep ts"

lemma lexes_join:
  assumes "list_all2 lexes ss ts" and "lexes_all sep us" and "sep_start sep" and "sep \<noteq> []"
  shows "lexes (join sep ss) (comma_sep us ts)"
  using assms(1,2)
proof (induction us ts arbitrary: ss rule: comma_sep.induct)
  case (1 us)
  then show ?case by (simp add: lexes_Nil)
next
  case (2 us t)
  then show ?case by (auto simp: list_all2_Cons2)
next
  case (3 us t u ts)
  then obtain s s' ss' where ss: "ss = s # s' # ss'" "lexes s t" "list_all2 lexes (s' # ss') (u # ts)"
    by (auto simp: list_all2_Cons2)
  have "lexes (sep @ join sep (s' # ss')) (us @ comma_sep us (u # ts))"
    by (rule lexes_all_append [OF 3(3) 3(1) [OF ss(3) 3(3)]])
  from lexes_append [OF ss(2) this sep_start_append [OF assms(3,4)]]
  have "lexes (s @ sep @ join sep (s' # ss')) (t @ us @ comma_sep us (u # ts))"
    using assms(4) by simp
  with ss(1) show ?case by (simp add: join_Cons)
qed

lemma lexes_between:
  assumes "lexes s ts" and "lexes_all l ls" and "sep_start l" and "l \<noteq> []" and "lexes r rs"
  shows "lexes (s @ l @ r) (ts @ ls @ rs)"
  using lexes_append [OF assms(1) lexes_all_append [OF assms(2,5)] sep_start_append [OF assms(3,4)]] assms(4) by simp

text \<open>The fixed texts between the names.\<close>

lemma literal_lexes [simp]:
  "lexes_all '', '' [Sym CHR '','']"
  "lexes_all '' INTO '' [Word ''INTO'']"
  "lexes_all '' ('' [Sym CHR ''(''] "
  "lexes_all '') VALUES ('' [Sym CHR '')'', Word ''VALUES'', Sym CHR ''('']"
  "lexes_all '')'' [Sym CHR '')'']"
  "lexes_all '' = EXCLUDED.'' [Sym CHR ''='', Word ''EXCLUDED'', Sym CHR ''.'']"
  "lexes_all '' = '' [Sym CHR ''='']"
  "lexes_all '' ON CONFLICT ('' [Word ''ON'', Word ''CONFLICT'', Sym CHR ''('']"
  "lexes_all '') DO UPDATE SET '' [Sym CHR '')'', Word ''DO'', Word ''UPDATE'', Word ''SET'']"
  "lexes_all '') DO NOTHING '' [Sym CHR '')'', Word ''DO'', Word ''NOTHING'']"
  "lexes_all '' AND '' [Word ''AND'']"
  "lexes_all '' WHERE '' [Word ''WHERE'']"
  by (simp_all add: lexes_all_def sql_tokens.simps(2) word_char_def)

lemma literal_sep_start [simp]:
  "\<not> word_char c \<Longrightarrow> c \<noteq> CHR 34 \<Longrightarrow> sep_start (c # s)"
  by (simp add: sep_start_def)

lemma punctuation_no_word [simp]: "\<not> word_char CHR '' ''" "\<not> word_char CHR '',''" "\<not> word_char CHR '')''"
  by (simp_all add: word_char_def)

subsection \<open>The interface of the dialects\<close>

text \<open>
  What the statements need of a dialect: a placeholder is one parameter, and quoting a valid name
  gives one quoted identifier.
\<close>

locale sql_dialect =
  fixes placeholder :: "nat \<Rightarrow> string" and quote :: "string \<Rightarrow> string" and valid :: "string \<Rightarrow> bool"
  assumes placeholder_lexes: "lexes (placeholder i) [Param (placeholder i)]"
    and quote_lexes: "valid name \<Longrightarrow> lexes (quote name) [Quoted name]"
begin

lemma names_lex:
  "list_all valid names \<Longrightarrow> lexes (join '', '' (map quote names)) (comma_sep [Sym CHR '',''] (map (\<lambda>n. [Quoted n]) names))"
  by (rule lexes_join) (auto simp: list_all2_map1 list_all2_map2 list_all2_same list_all_iff quote_lexes)

lemma params_lex:
  "lexes (join '', '' (map placeholder is)) (comma_sep [Sym CHR '',''] (map (\<lambda>i. [Param (placeholder i)]) is))"
  by (rule lexes_join) (auto simp: list_all2_map1 list_all2_map2 list_all2_same placeholder_lexes)

lemma assignment_lexes:
  "valid n \<Longrightarrow>
     lexes (quote n @ '' = EXCLUDED.'' @ quote n) [Quoted n, Sym CHR ''='', Word ''EXCLUDED'', Sym CHR ''.'', Quoted n]"
  using lexes_between [OF quote_lexes literal_lexes(6) _ _ quote_lexes, of n n] by simp

lemma assignments_lex:
  "list_all valid names \<Longrightarrow> lexes (join '', '' (map (\<lambda>n. quote n @ '' = EXCLUDED.'' @ quote n) names))
     (comma_sep [Sym CHR '',''] (map (\<lambda>n. [Quoted n, Sym CHR ''='', Word ''EXCLUDED'', Sym CHR ''.'', Quoted n]) names))"
  by (rule lexes_join)
    (auto simp: list_all2_map1 list_all2_map2 list_all2_same list_all_iff assignment_lexes simp del: append.simps)

lemma condition_lexes:
  "valid n \<Longrightarrow> lexes (quote n @ '' = '' @ placeholder i) [Quoted n, Sym CHR ''='', Param (placeholder i)]"
  using lexes_between [OF quote_lexes literal_lexes(7) _ _ placeholder_lexes, of n i] by simp

lemma conditions_lex:
  assumes "list_all (\<lambda>(i, n). valid n) ks"
  shows "lexes (join '' AND '' (map (\<lambda>(i, n). quote n @ '' = '' @ placeholder (start + i)) ks))
    (comma_sep [Word ''AND''] (map (\<lambda>(i, n). [Quoted n, Sym CHR ''='', Param (placeholder (start + i))]) ks))"
  using assms by (intro lexes_join)
    (auto simp: list_all2_map1 list_all2_map2 list_all2_same list_all_iff condition_lexes simp del: append.simps)

lemma insert_lexes:
  assumes "lexes verb vs" and "valid table" and "list_all valid cols"
  shows "lexes (verb @ '' INTO '' @ quote table @ '' ('' @ join '', '' (map quote cols) @ '') VALUES (''
      @ join '', '' (map placeholder is) @ '')'')
    (vs @ [Word ''INTO''] @ [Quoted table] @ [Sym CHR ''(''] @ comma_sep [Sym CHR '',''] (map (\<lambda>n. [Quoted n]) cols)
      @ [Sym CHR '')'', Word ''VALUES'', Sym CHR ''('']
      @ comma_sep [Sym CHR '',''] (map (\<lambda>i. [Param (placeholder i)]) is) @ [Sym CHR '')''])"
  by (intro lexes_between assms quote_lexes names_lex params_lex lexes_append [OF _ lexes_all_lexes]) simp_all

end

subsection \<open>Both dialects keep the interface\<close>

lemma cont_byte_high: "cont_byte lo hi s i \<Longrightarrow> 128 \<le> lo \<Longrightarrow> 128 \<le> (of_char (s ! i) :: nat)"
  by (simp add: cont_byte_def)

lemma decode_rune_skips:
  assumes "decode_rune (c # cs) = (r, n)"
  shows "list_all (\<lambda>b. 128 \<le> (of_char b :: nat)) (take (n - 1) cs)"
proof -
  have "128 \<le> (of_char ((c # cs) ! i) :: nat)" if i: "i = 1 \<or> i = 2 \<or> i = 3" "i < n" for i
    using assms i unfolding decode_rune_def Let_def list.case
    by (auto split: if_splits dest: cont_byte_high)
  moreover have "n \<le> 4" using assms by (auto simp: decode_rune_def Let_def split: if_splits)
  moreover have "Suc i = 1 \<or> Suc i = 2 \<or> Suc i = 3" if "i < n - 1" "n \<le> 4" for i
    using that by presburger
  ultimately have "128 \<le> (of_char (cs ! i) :: nat)" if "i < n - 1" for i
    using that by (metis Suc_eq_plus1 less_diff_conv nth_Cons_Suc)
  then show ?thesis by (simp add: list_all_length)
qed

lemma byte_in_runes: "b \<in> set s \<Longrightarrow> (of_char b :: nat) < 128 \<Longrightarrow> of_char b \<in> set (runes s)"
proof (induction s rule: runes.induct)
  case 1
  then show ?case by simp
next
  case (2 c cs)
  obtain r n where d: "decode_rune (c # cs) = (r, n)" by fastforce
  consider "b = c" | "b \<in> set (take (n - 1) cs)" | "b \<in> set (drop (n - 1) cs)"
    using 2(2) set_append [of "take (n - 1) cs" "drop (n - 1) cs"] by auto
  then show ?case
  proof cases
    case 1
    with 2(3) d show ?thesis by (simp add: decode_rune_ascii)
  next
    case 2
    with decode_rune_skips [OF d] \<open>of_char b < 128\<close> show ?thesis by (auto simp: list_all_iff)
  next
    case 3
    with 2(1) [OF d [symmetric] refl] \<open>of_char b < 128\<close> d show ?thesis by simp
  qed
qed

lemma valid_no_quote: "validateIdentifier uni name = None \<Longrightarrow> CHR 34 \<notin> set name"
  using byte_in_runes [of "CHR 34" name]
  by (auto simp: validateIdentifier_def ident_rune_def list_all_iff dest: bspec [of _ _ 34] split: if_splits)

lemma digit_word_char: "digit c \<Longrightarrow> word_char c"
  by (auto simp: digit_def word_char_def Let_def)

lemma show_nat_word_chars: "list_all word_char (show_nat n)"
  using digits_show_nat [of n] digit_word_char by (auto simp: list_all_iff)

interpretation dialect: sql_dialect "Placeholder d" "QuoteIdent uni d" "\<lambda>n. validateIdentifier uni n = None" for d uni
proof
  show "lexes (Placeholder d i) [Param (Placeholder d i)]" for i
    by (cases d) (simp_all add: Placeholder_def lexes_question lexes_dollar show_nat_word_chars)
  show "lexes (QuoteIdent uni d n) [Quoted n]" if "validateIdentifier uni n = None" for n
    using that by (simp add: QuoteIdent_def quoteIdent_def lexes_quoted valid_no_quote)
qed

subsection \<open>The statements\<close>

definition name_tokens :: "string list \<Rightarrow> token list" where
  "name_tokens names = comma_sep [Sym CHR '',''] (map (\<lambda>n. [Quoted n]) names)"

definition insert_tokens :: "Dialect \<Rightarrow> string \<Rightarrow> string list \<Rightarrow> token list" where
  "insert_tokens d table cols =
     [Word ''INTO'', Quoted table, Sym CHR ''(''] @ name_tokens cols @ [Sym CHR '')'', Word ''VALUES'', Sym CHR ''('']
     @ comma_sep [Sym CHR '',''] (map (\<lambda>i. [Param (Placeholder d i)]) [1..<length cols + 1]) @ [Sym CHR '')'']"

definition assignment_tokens :: "string list \<Rightarrow> token list" where
  "assignment_tokens cols = comma_sep [Sym CHR '','']
     (map (\<lambda>n. [Quoted n, Sym CHR ''='', Word ''EXCLUDED'', Sym CHR ''.'', Quoted n]) cols)"

lemma Placeholders_eq: "Placeholders d n s = join '', '' (map (Placeholder d) [s..<n + s])"
proof -
  have "map (\<lambda>i. Placeholder d (s + i)) [0..<n] = map (Placeholder d) [s..<n + s]"
    by (rule nth_equalityI) simp_all
  then show ?thesis by (simp add: Placeholders_def placeholdersFor_def)
qed

lemma insertSQL_lexes:
  assumes "lexes verb vs" and "validateIdentifier uni table = None"
    and "list_all (\<lambda>n. validateIdentifier uni n = None) cols"
  shows "lexes (insertSQL uni d verb table cols) (vs @ insert_tokens d table cols)"
  using dialect.insert_lexes [OF assms, of d "[1..<length cols + 1]"]
  by (simp add: insertSQL_def insert_tokens_def name_tokens_def joinedQuotedIdents_def quoteIdents_def Placeholders_eq
      del: upt_Suc)

lemma Upsert_eq:
  "conflictCols \<noteq> [] \<Longrightarrow> Upsert uni d table cols conflictCols updateCols =
     insertSQL uni d ''INSERT'' table cols @ '' ON CONFLICT ('' @ join '', '' (map (QuoteIdent uni d) conflictCols)
     @ '') DO UPDATE SET '' @ updateAssignments uni d updateCols"
  by (simp add: Upsert_def Insert_def conflictTarget_def joinedQuotedIdents_def quoteIdents_def)

lemma Upsert_tokens:
  assumes "validateIdentifier uni table = None"
    and "list_all (\<lambda>n. validateIdentifier uni n = None) (cols @ conflictCols @ updateCols)" and "conflictCols \<noteq> []"
  shows "sql_tokens (Upsert uni d table cols conflictCols updateCols) =
    Some ([Word ''INSERT''] @ insert_tokens d table cols
      @ [Word ''ON'', Word ''CONFLICT'', Sym CHR ''(''] @ name_tokens conflictCols
      @ [Sym CHR '')'', Word ''DO'', Word ''UPDATE'', Word ''SET''] @ assignment_tokens updateCols)"
proof -
  have verb: "lexes ''INSERT'' [Word ''INSERT'']"
    using takeWhile_sep [of "''NSERT''"] by (simp add: lexes_def sql_tokens.simps(2) word_char_def)
  have v: "list_all (\<lambda>n. validateIdentifier uni n = None) cols" "list_all (\<lambda>n. validateIdentifier uni n = None) conflictCols"
    "list_all (\<lambda>n. validateIdentifier uni n = None) updateCols" using assms(2) by simp_all
  have "lexes (insertSQL uni d ''INSERT'' table cols @ '' ON CONFLICT ('' @ join '', '' (map (QuoteIdent uni d) conflictCols)
      @ '') DO UPDATE SET '' @ updateAssignments uni d updateCols)
    (([Word ''INSERT''] @ insert_tokens d table cols)
      @ [Word ''ON'', Word ''CONFLICT'', Sym CHR ''(''] @ name_tokens conflictCols
      @ [Sym CHR '')'', Word ''DO'', Word ''UPDATE'', Word ''SET''] @ assignment_tokens updateCols)"
    unfolding name_tokens_def updateAssignments_def assignment_tokens_def
    by (intro lexes_between insertSQL_lexes verb assms(1) v dialect.names_lex dialect.assignments_lex literal_lexes) simp_all
  from lexes_total [OF this] show ?thesis unfolding Upsert_eq [OF assms(3)] by simp
qed

text \<open>
  C16: whatever the names, once they pass the validation of the engine the upsert statement of either
  dialect lexes to the fixed keywords, each name as one quoted identifier and one parameter per
  column, numbered from 1: no name can change the statement.
\<close>

theorem upsert_statement_fixed:
  assumes "validateIdentifier uni table = None"
    and "list_all (\<lambda>n. validateIdentifier uni n = None) (cols @ conflictCols @ updateCols)" and "conflictCols \<noteq> []"
  shows "sql_tokens (Upsert uni d table cols conflictCols updateCols) =
    Some ([Word ''INSERT''] @ insert_tokens d table cols
      @ [Word ''ON'', Word ''CONFLICT'', Sym CHR ''(''] @ name_tokens conflictCols
      @ [Sym CHR '')'', Word ''DO'', Word ''UPDATE'', Word ''SET''] @ assignment_tokens updateCols)"
  using assms by (rule Upsert_tokens)

theorem upsert_statement_fixed_witness:
  "sql_tokens (Upsert (\<lambda>_. False) PostgresDialect ''users'' [''id'', ''name''] [''id''] [''name'']) =
    Some [Word ''INSERT'', Word ''INTO'', Quoted ''users'', Sym CHR ''('', Quoted ''id'', Sym CHR '','', Quoted ''name'',
      Sym CHR '')'', Word ''VALUES'', Sym CHR ''('', Param ''$1'', Sym CHR '','', Param ''$2'', Sym CHR '')'',
      Word ''ON'', Word ''CONFLICT'', Sym CHR ''('', Quoted ''id'', Sym CHR '')'', Word ''DO'', Word ''UPDATE'', Word ''SET'',
      Quoted ''name'', Sym CHR ''='', Word ''EXCLUDED'', Sym CHR ''.'', Quoted ''name'']"
proof -
  have "validateIdentifier (\<lambda>_. False) ''users'' = None"
    "list_all (\<lambda>n. validateIdentifier (\<lambda>_. False) n = None) ([''id'', ''name''] @ [''id''] @ [''name''])"
    by code_simp+
  from upsert_statement_fixed [OF this, of PostgresDialect] show ?thesis
    by (simp add: insert_tokens_def name_tokens_def assignment_tokens_def Placeholder_def show_nat.simps digit_char_def
        char_of_eq_iff)
qed

end
