(* ===== verification/Db_Engine.thy ===== *)
theory Db_Engine
  imports Complex_Main Go_Path Sql_Dialect
begin

text \<open>
  The database engine of \<^verbatim>\<open>database/engine.go\<close>, \<^verbatim>\<open>database/migration.go\<close> and \<^verbatim>\<open>database/scheduler.go\<close>:
  opening, schema migrations, SQL files, the maintenance statements and their scheduler. Package
  \<^verbatim>\<open>database/sql\<close> with its registered drivers and the file system are the record \<open>sql_ops\<close> of operations
  on a world \<open>'w\<close>; the clock is the argument \<open>now\<close> in nanoseconds. What \<^verbatim>\<open>vacuum\<close> prints is left out.
\<close>

section \<open>Package database/sql\<close>

text \<open>An argument of a statement: a value of the caller, or an \<^verbatim>\<open>int\<close> of the engine.\<close>

datatype 'v arg = Value 'v | IntArg int

text \<open>
  \<^verbatim>\<open>Query\<close> gives the rows and the error of \<^verbatim>\<open>rows.Err()\<close> after them; \<^verbatim>\<open>QueryRow\<close> with \<^verbatim>\<open>Scan\<close> an
  integer. A statement is prepared in the open transaction.
\<close>

record ('v, 'r, 'w) sql_ops =
  sql_Drivers :: "string list"
  sql_Open :: "string \<Rightarrow> string \<Rightarrow> ('w, unit) io"
  SetMaxOpenConns :: "int \<Rightarrow> 'w \<Rightarrow> 'w"
  SetMaxIdleConns :: "int \<Rightarrow> 'w \<Rightarrow> 'w"
  SetConnMaxLifetime :: "int \<Rightarrow> 'w \<Rightarrow> 'w"
  db_Close :: "('w, unit) io"
  Exec :: "string \<Rightarrow> 'v arg list \<Rightarrow> ('w, unit) io"
  Query :: "string \<Rightarrow> 'v arg list \<Rightarrow> ('w, 'r list \<times> go_error option) io"
  rows_Close :: "'w \<Rightarrow> 'w"
  ScanRow :: "string \<Rightarrow> ('w, int) io"
  Begin :: "('w, unit) io"
  tx_Exec :: "string \<Rightarrow> ('w, unit) io"
  Prepare :: "string \<Rightarrow> ('w, unit) io"
  stmt_Exec :: "'v arg list \<Rightarrow> ('w, unit) io"
  stmt_Close :: "'w \<Rightarrow> 'w"
  Commit :: "('w, unit) io"
  Rollback :: "('w, unit) io"
  MkdirAll :: "string \<Rightarrow> ('w, unit) io"

text \<open>\<^verbatim>\<open>_ = tx.Rollback()\<close>, then the error is returned.\<close>

definition rollback_with :: "('v, 'r, 'w) sql_ops \<Rightarrow> go_error \<Rightarrow> ('w, 'a) io" where
  "rollback_with ops e w = (Inl e, snd (Rollback ops w))"

section \<open>The engine\<close>

record DBMaintenanceScheduler =
  checkpoint_ticker :: "bool option"
  truncate_ticker :: "bool option"
  vacuum_ticker :: "bool option"
  stop_closed :: bool

record DatabaseEngine =
  engine_driver :: Driver
  engine_dialect :: Dialect
  sqls :: "string list"
  lastWrite :: "int option"
  scheduler :: "DBMaintenanceScheduler option"

record Config =
  cfg_Driver :: Driver
  DSN :: string
  MaxOpenConns :: int
  MaxIdleConns :: int
  ConnMaxLifetime :: int
  AutoMigrate :: bool
  Migrations :: "string list"
  EnableMaintenance :: bool

subsection \<open>Migrations\<close>

fun migrate_loop :: "('v, 'r, 'w) sql_ops \<Rightarrow> nat \<Rightarrow> string list \<Rightarrow> ('w, unit) io" where
  "migrate_loop ops i [] w = Commit ops w"
| "migrate_loop ops i (migration # migrations) w = (case tx_Exec ops migration w of
      (Inl e, w') \<Rightarrow> rollback_with ops (Wrapf (''migration '' @ show_nat i @ '' failed: '') e) w'
    | (Inr _, w') \<Rightarrow> migrate_loop ops (i + 1) migrations w')"

definition Migrate :: "('v, 'r, 'w) sql_ops \<Rightarrow> string list \<Rightarrow> ('w, unit) io" where
  "Migrate ops migrations =
     (if migrations = [] then returnE ()
      else bindE (Begin ops) (\<lambda>_. migrate_loop ops 0 migrations))"

subsection \<open>Maintenance\<close>

definition notifyWrite :: "int \<Rightarrow> DatabaseEngine \<Rightarrow> DatabaseEngine" where
  "notifyWrite now e = e\<lparr>lastWrite := Some now\<rparr>"

definition isWriteHot :: "int \<Rightarrow> int \<Rightarrow> DatabaseEngine \<Rightarrow> bool" where
  "isWriteHot now cooldown e = (case lastWrite e of None \<Rightarrow> False | Some t \<Rightarrow> now - t < cooldown)"

definition engine_exec :: "('v, 'r, 'w) sql_ops \<Rightarrow> string \<Rightarrow> ('w, unit) io" where
  "engine_exec ops q = Exec ops q []"

definition checkpoint :: "('v, 'r, 'w) sql_ops \<Rightarrow> DatabaseEngine \<Rightarrow> bool \<Rightarrow> ('w, unit) io" where
  "checkpoint ops e trunc =
     (if \<not> SupportsMaintenance (engine_dialect e) then returnE ()
      else if trunc then engine_exec ops ''PRAGMA wal_checkpoint(TRUNCATE);''
      else engine_exec ops ''PRAGMA wal_checkpoint(PASSIVE);'')"

definition vacuum :: "('v, 'r, 'w) sql_ops \<Rightarrow> ('w, unit) io" where
  "vacuum ops = bindE (engine_exec ops ''PRAGMA wal_checkpoint(TRUNCATE);'') (\<lambda>_. engine_exec ops ''VACUUM;'')"

text \<open>
  The quotient of the two counts is compared as a rational number. For counts below \<open>2 ^ 53\<close> the
  \<^verbatim>\<open>float64\<close> quotient is the value nearest to it, so both comparisons agree at the threshold the
  scheduler uses, one quarter.
\<close>

definition maybeVacuum :: "('v, 'r, 'w) sql_ops \<Rightarrow> DatabaseEngine \<Rightarrow> rat \<Rightarrow> ('w, unit) io" where
  "maybeVacuum ops e threshold =
     (if \<not> SupportsMaintenance (engine_dialect e) then returnE ()
      else bindE (ScanRow ops ''PRAGMA page_count;'') (\<lambda>pageCount.
           bindE (ScanRow ops ''PRAGMA freelist_count;'') (\<lambda>free.
           if pageCount = 0 then returnE ()
           else if threshold \<le> of_int free / of_int pageCount then vacuum ops
           else returnE ())))"

subsection \<open>The scheduler\<close>

definition NewDBMaintenanceScheduler :: DBMaintenanceScheduler where
  "NewDBMaintenanceScheduler =
     \<lparr>checkpoint_ticker = None, truncate_ticker = None, vacuum_ticker = None, stop_closed = False\<rparr>"

definition scheduler_Start :: "DBMaintenanceScheduler \<Rightarrow> DBMaintenanceScheduler" where
  "scheduler_Start s = s\<lparr>checkpoint_ticker := Some True, truncate_ticker := Some True, vacuum_ticker := Some True\<rparr>"

text \<open>\<^verbatim>\<open>close\<close> of a closed channel panics.\<close>

definition scheduler_Stop :: "DBMaintenanceScheduler \<Rightarrow> DBMaintenanceScheduler outcome" where
  "scheduler_Stop s =
     (if stop_closed s then Panics ''close of closed channel''
      else Returns (s\<lparr>stop_closed := True, checkpoint_ticker := map_option (\<lambda>_. False) (checkpoint_ticker s),
        truncate_ticker := map_option (\<lambda>_. False) (truncate_ticker s),
        vacuum_ticker := map_option (\<lambda>_. False) (vacuum_ticker s)\<rparr>))"

definition seconds :: "int \<Rightarrow> int" where
  "seconds n = n * 1000000000"

text \<open>
  The goroutine of the scheduler and the others, driven by a list of events. A tick that the \<^verbatim>\<open>select\<close> takes is checked
  with \<^verbatim>\<open>isWriteHot\<close>, which holds the mutex only for the check: the maintenance itself is a later event, and time may
  pass and writes may be notified in between. The statements of one maintenance run are one event; its result is
  dropped. \<open>Uses\<close> is what another goroutine does to the database, and \<open>WriteNotified\<close> its call of \<^verbatim>\<open>notifyWrite\<close>. \<open>ss_writes\<close>
  are the times of the notified writes, and \<open>ss_begun\<close> has each run of the maintenance with the time of its check, the
  number of writes notified before that, and the time of the run.
\<close>

datatype maintenance = Checkpointing | Truncating | Vacuuming

fun maintain :: "('v, 'r, 'w) sql_ops \<Rightarrow> DatabaseEngine \<Rightarrow> maintenance \<Rightarrow> ('w, unit) io" where
  "maintain ops e Checkpointing = checkpoint ops e False"
| "maintain ops e Truncating = checkpoint ops e True"
| "maintain ops e Vacuuming = maybeVacuum ops e (1 / 4)"

datatype sched_phase = AtSelect | Checked maintenance int nat | SchedReturned

record 'w sched_state =
  ss_engine :: DatabaseEngine
  ss_now :: int
  ss_phase :: sched_phase
  ss_world :: 'w
  ss_writes :: "int list"
  ss_begun :: "(maintenance \<times> int \<times> nat \<times> int) list"

datatype 'w sched_event = TimePasses nat | Uses "'w \<Rightarrow> 'w" | WriteNotified | TickTaken maintenance | Maintains | StopTaken

definition tick_check :: "maintenance \<Rightarrow> 'w sched_state \<Rightarrow> 'w sched_state" where
  "tick_check m s =
     (if \<not> isWriteHot (ss_now s) (seconds 30) (ss_engine s)
      then s\<lparr>ss_phase := Checked m (ss_now s) (length (ss_writes s))\<rparr> else s)"

fun scheduler_act :: "('v, 'r, 'w) sql_ops \<Rightarrow> 'w sched_event \<Rightarrow> 'w sched_state \<Rightarrow> 'w sched_state" where
  "scheduler_act ops (TimePasses n) s = s\<lparr>ss_now := ss_now s + int n\<rparr>"
| "scheduler_act ops (Uses f) s = s\<lparr>ss_world := f (ss_world s)\<rparr>"
| "scheduler_act ops WriteNotified s =
     s\<lparr>ss_engine := notifyWrite (ss_now s) (ss_engine s), ss_writes := ss_writes s @ [ss_now s]\<rparr>"
| "scheduler_act ops (TickTaken m) s = (case ss_phase s of AtSelect \<Rightarrow> tick_check m s | _ \<Rightarrow> s)"
| "scheduler_act ops Maintains s = (case ss_phase s of
      Checked m t k \<Rightarrow> s\<lparr>ss_world := snd (maintain ops (ss_engine s) m (ss_world s)), ss_phase := AtSelect,
        ss_begun := ss_begun s @ [(m, t, k, ss_now s)]\<rparr>
    | _ \<Rightarrow> s)"
| "scheduler_act ops StopTaken s = (case ss_phase s of AtSelect \<Rightarrow> s\<lparr>ss_phase := SchedReturned\<rparr> | _ \<Rightarrow> s)"

definition scheduler_run :: "('v, 'r, 'w) sql_ops \<Rightarrow> 'w sched_event list \<Rightarrow> int \<Rightarrow> DatabaseEngine \<Rightarrow> 'w \<Rightarrow> 'w sched_state" where
  "scheduler_run ops evs now e w = fold (scheduler_act ops) evs
     \<lparr>ss_engine = e, ss_now = now, ss_phase = AtSelect, ss_world = w, ss_writes = [], ss_begun = []\<rparr>"

subsection \<open>Opening and closing\<close>

definition ensureSQLiteParentDir :: "('v, 'r, 'w) sql_ops \<Rightarrow> string \<Rightarrow> ('w, unit) io" where
  "ensureSQLiteParentDir ops dsn =
     (if dsn = '':memory:'' \<or> prefix ''file:'' dsn then returnE ()
      else let parentDir = path_dir dsn in
        if parentDir = ''.'' \<or> parentDir = [] then returnE () else MkdirAll ops parentDir)"

definition isSQLDriverRegistered :: "('v, 'r, 'w) sql_ops \<Rightarrow> string \<Rightarrow> bool" where
  "isSQLDriverRegistered ops name = list_ex (\<lambda>registered. registered = name) (sql_Drivers ops)"

text \<open>\<^verbatim>\<open>dialect.Init\<close>: the statements in order up to the first that fails.\<close>

fun exec_all :: "('v, 'r, 'w) sql_ops \<Rightarrow> string list \<Rightarrow> ('w, unit) io" where
  "exec_all ops [] = returnE ()"
| "exec_all ops (stmt # stmts) = bindE (Exec ops stmt []) (\<lambda>_. exec_all ops stmts)"

definition Init :: "('v, 'r, 'w) sql_ops \<Rightarrow> Dialect \<Rightarrow> ('w, unit) io" where
  "Init ops d = exec_all ops (init_statements d)"

definition set_limits :: "('v, 'r, 'w) sql_ops \<Rightarrow> Config \<Rightarrow> 'w \<Rightarrow> 'w" where
  "set_limits ops config w =
     (let w = (if 0 < MaxOpenConns config then SetMaxOpenConns ops (MaxOpenConns config) w else w);
          w = (if 0 < MaxIdleConns config then SetMaxIdleConns ops (MaxIdleConns config) w else w)
      in if 0 < ConnMaxLifetime config then SetConnMaxLifetime ops (ConnMaxLifetime config) w else w)"

text \<open>\<^verbatim>\<open>_ = db.Close()\<close> when a step fails.\<close>

definition or_close :: "('v, 'r, 'w) sql_ops \<Rightarrow> ('w, unit) io \<Rightarrow> ('w, unit) io" where
  "or_close ops m w = (case m w of (Inl e, w') \<Rightarrow> (Inl e, snd (db_Close ops w')) | (Inr _, w') \<Rightarrow> (Inr (), w'))"

definition Open :: "('v, 'r, 'w) sql_ops \<Rightarrow> Config \<Rightarrow> ('w, DatabaseEngine) io" where
  "Open ops config =
     (if cfg_Driver config = [] then failE ErrEmptyDriver
      else if trim_space (DSN config) = [] then failE ErrEmptyDSN
      else case dialectForDriver (cfg_Driver config) of Inl e \<Rightarrow> failE e | Inr d \<Rightarrow>
        bindE (if cfg_Driver config = DriverSQLite then ensureSQLiteParentDir ops (DSN config) else returnE ()) (\<lambda>_.
        if \<not> isSQLDriverRegistered ops (DriverName d)
        then failE (Errorf (''database driver '' @ go_quote (DriverName d) @ '' is not registered''))
        else bindE (sql_Open ops (DriverName d) (DSN config)) (\<lambda>_.
        bindE (\<lambda>w. (Inr (), set_limits ops config w)) (\<lambda>_.
        bindE (or_close ops (Init ops d)) (\<lambda>_.
        bindE (if AutoMigrate config then or_close ops (Migrate ops (Migrations config)) else returnE ()) (\<lambda>_.
        returnE \<lparr>engine_driver = cfg_Driver config, engine_dialect = d, sqls = Migrations config, lastWrite = None,
          scheduler = (if EnableMaintenance config \<and> SupportsMaintenance d
            then Some (scheduler_Start NewDBMaintenanceScheduler) else None)\<rparr>))))))"

definition engine_Close :: "('v, 'r, 'w) sql_ops \<Rightarrow> DatabaseEngine \<Rightarrow> 'w \<Rightarrow> ((go_error + unit) \<times> DatabaseEngine \<times> 'w) outcome" where
  "engine_Close ops e w = (case scheduler e of
      None \<Rightarrow> (case db_Close ops w of (r, w') \<Rightarrow> Returns (r, e, w'))
    | Some s \<Rightarrow> (case scheduler_Stop s of
        Panics msg \<Rightarrow> Panics msg
      | Returns s' \<Rightarrow> (case db_Close ops w of (r, w') \<Rightarrow> Returns (r, e\<lparr>scheduler := Some s'\<rparr>, w'))))"

subsection \<open>SQL files\<close>

text \<open>
  A file opens with an error, or with what reading and closing it give.
\<close>

type_synonym sql_files = "string \<Rightarrow> go_error + (go_error + string) \<times> go_error option"

fun load_lines :: "string list \<Rightarrow> string list \<times> string \<Rightarrow> string list \<times> string" where
  "load_lines [] (out, buf) = (out, buf)"
| "load_lines (line # ls) (out, buf) =
     (let line = trim_space line in
      if line = [] \<or> prefix ''--'' line then load_lines ls (out, buf)
      else let buf = buf @ line @ '' '' in
        if suffix '';'' line then load_lines ls (out @ [trim_space (trim_suffix '';'' buf)], [])
        else load_lines ls (out, buf))"

fun load_files :: "sql_files \<Rightarrow> string list \<Rightarrow> string list \<times> string \<Rightarrow> go_error + string list \<times> string" where
  "load_files fs [] acc = Inr acc"
| "load_files fs (p # ps) acc = (case fs p of
      Inl e \<Rightarrow> Inl e
    | Inr (Inl readErr, _) \<Rightarrow> Inl readErr
    | Inr (Inr data, Some closeErr) \<Rightarrow> Inl closeErr
    | Inr (Inr data, None) \<Rightarrow> load_files fs ps (load_lines (split_on [CHR 10] data) acc))"

definition loadSQLFiles :: "sql_files \<Rightarrow> string list \<Rightarrow> go_error + string list" where
  "loadSQLFiles fs paths = (case load_files fs paths ([], []) of
      Inl e \<Rightarrow> Inl e
    | Inr (out, buf) \<Rightarrow> Inr (if buf \<noteq> [] then out @ [trim_space buf] else out))"

definition startWithPath :: "('v, 'r, 'w) sql_ops \<Rightarrow> sql_files \<Rightarrow> string \<Rightarrow> string list \<Rightarrow> string list \<Rightarrow> ('w, DatabaseEngine) io" where
  "startWithPath ops fs path sqlFiles table =
     (let path = trim_space path in
      if path = [] then failE (Errorf ''database path is empty'')
      else case (if sqlFiles \<noteq> [] then loadSQLFiles fs sqlFiles
                 else if table \<noteq> [] then Inr table
                 else Inl (Errorf ''no database migrations provided'')) of
          Inl e \<Rightarrow> failE e
        | Inr migrations \<Rightarrow> Open ops \<lparr>cfg_Driver = DriverSQLite, DSN = path, MaxOpenConns = 0, MaxIdleConns = 0,
            ConnMaxLifetime = 0, AutoMigrate = True, Migrations = migrations, EnableMaintenance = True\<rparr>)"

definition Start :: "('v, 'r, 'w) sql_ops \<Rightarrow> sql_files \<Rightarrow> string \<Rightarrow> string list \<Rightarrow> string list \<Rightarrow> ('w, DatabaseEngine) io" where
  "Start ops fs fileName sqlFiles table = startWithPath ops fs (path_join [''database'', fileName]) sqlFiles table"

definition StartAtPath :: "('v, 'r, 'w) sql_ops \<Rightarrow> sql_files \<Rightarrow> string \<Rightarrow> string list \<Rightarrow> string list \<Rightarrow> ('w, DatabaseEngine) io" where
  "StartAtPath ops fs path sqlFiles table = startWithPath ops fs path sqlFiles table"

section \<open>Transactions\<close>

text \<open>
  What \<^verbatim>\<open>database/sql\<close> documents of a transaction: the statements in it change a pending copy of the data
  and not the committed data; a successful commit installs the copy; after a failed commit or a
  rollback the committed data are as before; commit and rollback end the transaction.
\<close>

record ('v, 'w, 'd) tx_view =
  committed :: "'w \<Rightarrow> 'd"
  pending :: "'w \<Rightarrow> 'd"
  in_tx :: "'w \<Rightarrow> bool"
  prepared :: "'w \<Rightarrow> string"
  effect :: "string \<Rightarrow> 'v arg list \<Rightarrow> 'd \<Rightarrow> 'd"

definition begins_tx :: "('v, 'r, 'w) sql_ops \<Rightarrow> ('v, 'w, 'd) tx_view \<Rightarrow> bool" where
  "begins_tx ops v \<longleftrightarrow> (\<forall>w r w'. Begin ops w = (r, w') \<longrightarrow> committed v w' = committed v w
     \<and> (r \<noteq> Inr () \<longrightarrow> in_tx v w' = in_tx v w) \<and> (r = Inr () \<longrightarrow> in_tx v w' \<and> pending v w' = committed v w))"

definition runs_in_tx :: "('v, 'r, 'w) sql_ops \<Rightarrow> ('v, 'w, 'd) tx_view \<Rightarrow> bool" where
  "runs_in_tx ops v \<longleftrightarrow> (\<forall>w q r w'. in_tx v w \<longrightarrow> tx_Exec ops q w = (r, w') \<longrightarrow>
     committed v w' = committed v w \<and> in_tx v w' \<and> (r = Inr () \<longrightarrow> pending v w' = effect v q [] (pending v w)))"

definition prepares_in_tx :: "('v, 'r, 'w) sql_ops \<Rightarrow> ('v, 'w, 'd) tx_view \<Rightarrow> bool" where
  "prepares_in_tx ops v \<longleftrightarrow> (\<forall>w q r w'. in_tx v w \<longrightarrow> Prepare ops q w = (r, w') \<longrightarrow>
     committed v w' = committed v w \<and> in_tx v w' \<and> (r = Inr () \<longrightarrow> pending v w' = pending v w \<and> prepared v w' = q))"

definition runs_prepared :: "('v, 'r, 'w) sql_ops \<Rightarrow> ('v, 'w, 'd) tx_view \<Rightarrow> bool" where
  "runs_prepared ops v \<longleftrightarrow> (\<forall>w vs r w'. in_tx v w \<longrightarrow> stmt_Exec ops vs w = (r, w') \<longrightarrow>
     committed v w' = committed v w \<and> in_tx v w' \<and> prepared v w' = prepared v w
     \<and> (r = Inr () \<longrightarrow> pending v w' = effect v (prepared v w) vs (pending v w)))"

definition commits_tx :: "('v, 'r, 'w) sql_ops \<Rightarrow> ('v, 'w, 'd) tx_view \<Rightarrow> bool" where
  "commits_tx ops v \<longleftrightarrow> (\<forall>w r w'. in_tx v w \<longrightarrow> Commit ops w = (r, w') \<longrightarrow> \<not> in_tx v w'
     \<and> (r = Inr () \<longrightarrow> committed v w' = pending v w) \<and> (r \<noteq> Inr () \<longrightarrow> committed v w' = committed v w))"

definition rolls_back_tx :: "('v, 'r, 'w) sql_ops \<Rightarrow> ('v, 'w, 'd) tx_view \<Rightarrow> bool" where
  "rolls_back_tx ops v \<longleftrightarrow>
     (\<forall>w r w'. in_tx v w \<longrightarrow> Rollback ops w = (r, w') \<longrightarrow> \<not> in_tx v w' \<and> committed v w' = committed v w)
   \<and> (\<forall>w. committed v (stmt_Close ops w) = committed v w \<and> in_tx v (stmt_Close ops w) = in_tx v w)"

definition transactional :: "('v, 'r, 'w) sql_ops \<Rightarrow> ('v, 'w, 'd) tx_view \<Rightarrow> bool" where
  "transactional ops v \<longleftrightarrow> begins_tx ops v \<and> runs_in_tx ops v \<and> prepares_in_tx ops v \<and> runs_prepared ops v
     \<and> commits_tx ops v \<and> rolls_back_tx ops v"

lemma transactional_begin:
  assumes "transactional ops v" and "Begin ops w = (r, w')"
  shows "committed v w' = committed v w" "r = Inl e \<Longrightarrow> in_tx v w' = in_tx v w"
    "r = Inr u \<Longrightarrow> in_tx v w' \<and> pending v w' = committed v w"
  using assms unfolding transactional_def begins_tx_def by (auto 0 0)

lemma transactional_exec:
  assumes "transactional ops v" and "in_tx v w"
  shows "tx_Exec ops q w = (r, w') \<Longrightarrow> committed v w' = committed v w \<and> in_tx v w'
      \<and> (r = Inr () \<longrightarrow> pending v w' = effect v q [] (pending v w))"
    and "Prepare ops q w = (r, w') \<Longrightarrow> committed v w' = committed v w \<and> in_tx v w'
      \<and> (r = Inr () \<longrightarrow> pending v w' = pending v w \<and> prepared v w' = q)"
    and "stmt_Exec ops vs w = (r, w') \<Longrightarrow> committed v w' = committed v w \<and> in_tx v w' \<and> prepared v w' = prepared v w
      \<and> (r = Inr () \<longrightarrow> pending v w' = effect v (prepared v w) vs (pending v w))"
proof -
  have h: "runs_in_tx ops v" "prepares_in_tx ops v" "runs_prepared ops v"
    using assms(1) by (simp_all add: transactional_def)
  note l = h(1) [unfolded runs_in_tx_def, rule_format, OF assms(2)]
    h(2) [unfolded prepares_in_tx_def, rule_format, OF assms(2)] h(3) [unfolded runs_prepared_def, rule_format, OF assms(2)]
  show "tx_Exec ops q w = (r, w') \<Longrightarrow> committed v w' = committed v w \<and> in_tx v w'
      \<and> (r = Inr () \<longrightarrow> pending v w' = effect v q [] (pending v w))" by (rule l(1))
  show "Prepare ops q w = (r, w') \<Longrightarrow> committed v w' = committed v w \<and> in_tx v w'
      \<and> (r = Inr () \<longrightarrow> pending v w' = pending v w \<and> prepared v w' = q)" by (rule l(2))
  show "stmt_Exec ops vs w = (r, w') \<Longrightarrow> committed v w' = committed v w \<and> in_tx v w' \<and> prepared v w' = prepared v w
      \<and> (r = Inr () \<longrightarrow> pending v w' = effect v (prepared v w) vs (pending v w))" by (rule l(3))
qed

lemma transactional_end:
  assumes "transactional ops v" and "in_tx v w"
  shows "Commit ops w = (r, w') \<Longrightarrow> \<not> in_tx v w' \<and> (r = Inr () \<longrightarrow> committed v w' = pending v w)
      \<and> (r \<noteq> Inr () \<longrightarrow> committed v w' = committed v w)"
    and "Rollback ops w = (r, w') \<Longrightarrow> \<not> in_tx v w' \<and> committed v w' = committed v w"
proof -
  have h: "commits_tx ops v" "rolls_back_tx ops v" using assms(1) by (simp_all add: transactional_def)
  show "Commit ops w = (r, w') \<Longrightarrow> \<not> in_tx v w' \<and> (r = Inr () \<longrightarrow> committed v w' = pending v w)
      \<and> (r \<noteq> Inr () \<longrightarrow> committed v w' = committed v w)"
    by (rule h(1) [unfolded commits_tx_def, rule_format, OF assms(2)])
  show "Rollback ops w = (r, w') \<Longrightarrow> \<not> in_tx v w' \<and> committed v w' = committed v w"
    by (rule conjunct1 [OF h(2) [unfolded rolls_back_tx_def], rule_format, OF assms(2)])
qed

lemma transactional_stmt_Close:
  "transactional ops v \<Longrightarrow> committed v (stmt_Close ops w) = committed v w \<and> in_tx v (stmt_Close ops w) = in_tx v w"
  by (simp add: transactional_def rolls_back_tx_def)

lemma transactional_rollback_with:
  assumes "transactional ops v" and "in_tx v w" and "rollback_with ops e w = (r, w')"
  shows "r = Inl e \<and> \<not> in_tx v w' \<and> committed v w' = committed v w"
  using assms(3) transactional_end(2) [OF assms(1,2) surjective_pairing] by (auto simp: rollback_with_def)

text \<open>What an atomic batch promises: everything or nothing, and no transaction left open.\<close>

definition all_or_nothing :: "('v, 'w, 'd) tx_view \<Rightarrow> ('d \<Rightarrow> 'd) \<Rightarrow> 'w \<Rightarrow> (go_error + unit) \<times> 'w \<Rightarrow> bool" where
  "all_or_nothing v f w res \<longleftrightarrow> (case res of (r, w') \<Rightarrow>
     \<not> in_tx v w' \<and> committed v w' = (if r = Inr () then f (committed v w) else committed v w))"

text \<open>
  The loops that run in a transaction: each item is a statement or ends the loop with a rollback, and
  the end of the list commits. \<open>inv\<close> holds while the loop runs, \<open>eff\<close> is what an item does to the pending
  data, \<open>valid\<close> what is known of an item that was run.
\<close>

locale tx_loop =
  fixes ops :: "('v, 'r, 'w) sql_ops" and v :: "('v, 'w, 'd) tx_view" and inv :: "'w \<Rightarrow> bool"
    and eff :: "'x \<Rightarrow> 'd \<Rightarrow> 'd" and valid :: "'x \<Rightarrow> bool" and loop :: "nat \<Rightarrow> 'x list \<Rightarrow> ('w, unit) io"
  assumes inv_in_tx: "inv w \<Longrightarrow> in_tx v w"
    and loop_Nil: "loop i [] w = Commit ops w"
    and loop_Cons: "transactional ops v \<Longrightarrow> inv w \<Longrightarrow>
      (\<exists>e w1. in_tx v w1 \<and> committed v w1 = committed v w \<and> loop i (x # xs) w = rollback_with ops e w1)
      \<or> (\<exists>w1. inv w1 \<and> valid x \<and> committed v w1 = committed v w \<and> pending v w1 = eff x (pending v w)
           \<and> loop i (x # xs) w = loop (i + 1) xs w1)"
begin

lemma loop_atomic:
  assumes t: "transactional ops v"
  shows "inv w \<Longrightarrow> loop i xs w = (r, w') \<Longrightarrow> \<not> in_tx v w'
    \<and> committed v w' = (if r = Inr () then fold eff xs (pending v w) else committed v w) \<and> (r = Inr () \<longrightarrow> list_all valid xs)"
proof (induction xs arbitrary: i w)
  case Nil
  then show ?case using transactional_end(1) [OF t inv_in_tx [OF Nil(1)]] by (simp add: loop_Nil)
next
  case (Cons x xs)
  from loop_Cons [OF t Cons.prems(1), of i x xs] show ?case
  proof (elim disjE exE conjE)
    fix e w1
    assume w1: "in_tx v w1" "committed v w1 = committed v w" and "loop i (x # xs) w = rollback_with ops e w1"
    with Cons.prems(2) have "rollback_with ops e w1 = (r, w')" by simp
    from transactional_rollback_with [OF t w1(1) this] w1(2) show ?thesis by simp
  next
    fix w1
    assume w1: "inv w1" "valid x" "committed v w1 = committed v w" "pending v w1 = eff x (pending v w)"
      and "loop i (x # xs) w = loop (i + 1) xs w1"
    with Cons.prems(2) have "loop (i + 1) xs w1 = (r, w')" by simp
    from Cons.IH [OF w1(1) this] w1 show ?thesis by simp
  qed
qed

end

interpretation migration_loop: tx_loop ops v "in_tx v" "\<lambda>m. effect v m []" "\<lambda>_. True" "migrate_loop ops" for ops v
proof
  fix w i x xs
  assume t: "transactional ops v" and w: "in_tx v w"
  obtain s w1 where x: "tx_Exec ops x w = (s, w1)" by fastforce
  from transactional_exec(1) [OF t w x] x
  show "(\<exists>e w1. in_tx v w1 \<and> committed v w1 = committed v w \<and> migrate_loop ops i (x # xs) w = rollback_with ops e w1)
      \<or> (\<exists>w1. in_tx v w1 \<and> True \<and> committed v w1 = committed v w \<and> pending v w1 = effect v x [] (pending v w)
           \<and> migrate_loop ops i (x # xs) w = migrate_loop ops (i + 1) xs w1)"
    by (cases s) (auto intro: exI [of _ w1])
qed simp_all

text \<open>
  C20: a schema migration is atomic. On any database that keeps the documented contract of transactions,
  \<^verbatim>\<open>Migrate\<close> leaves no transaction open; it returns success with every migration applied in order, or an
  error with the committed data unchanged.
\<close>

theorem migrate_all_or_nothing:
  assumes "transactional ops v" and "\<not> in_tx v w"
  shows "all_or_nothing v (fold (\<lambda>m. effect v m []) migrations) w (Migrate ops migrations w)"
proof (cases "migrations = []")
  case True
  with assms(2) show ?thesis by (simp add: Migrate_def all_or_nothing_def returnE_def)
next
  case False
  obtain r w1 where b: "Begin ops w = (r, w1)" by fastforce
  show ?thesis
  proof (cases r)
    case (Inl e)
    with False b transactional_begin(1,2) [OF assms(1) b] assms(2) show ?thesis
      by (simp add: Migrate_def all_or_nothing_def bindE_def)
  next
    case (Inr u)
    obtain r' w' where l: "migrate_loop ops 0 migrations w1 = (r', w')" by fastforce
    from Inr transactional_begin(1,3) [OF assms(1) b] migration_loop.loop_atomic [OF assms(1) _ l] False b l show ?thesis
      by (auto simp: Migrate_def all_or_nothing_def bindE_def)
  qed
qed

text \<open>
  A database in memory that keeps the contract: its data are the log of the statements executed, and
  the statement \<^verbatim>\<open>BAD\<close> and rows with a negative number fail.
\<close>

type_synonym mem_log = "(string \<times> int arg list) list"

record mem_world =
  mem_committed :: mem_log
  mem_pending :: "mem_log option"
  mem_prepared :: string
  mem_open :: bool
  mem_rows :: "int list"

definition mem_log_exec :: "string \<Rightarrow> int arg list \<Rightarrow> mem_world \<Rightarrow> (go_error + unit) \<times> mem_world" where
  "mem_log_exec q vs w =
     (if q = ''BAD'' \<or> list_ex (\<lambda>v. case v of Value i \<Rightarrow> i < 0 | IntArg _ \<Rightarrow> False) vs then (Inl (Errorf ''bad''), w)
      else (case mem_pending w of
          None \<Rightarrow> (Inr (), w\<lparr>mem_committed := mem_committed w @ [(q, vs)]\<rparr>)
        | Some l \<Rightarrow> (Inr (), w\<lparr>mem_pending := Some (l @ [(q, vs)])\<rparr>)))"

definition mem_ops :: "(int, int, mem_world) sql_ops" where
  "mem_ops = \<lparr>sql_Drivers = [''sqlite''], sql_Open = (\<lambda>_ _ w. (Inr (), w\<lparr>mem_open := True\<rparr>)),
     SetMaxOpenConns = (\<lambda>_ w. w), SetMaxIdleConns = (\<lambda>_ w. w), SetConnMaxLifetime = (\<lambda>_ w. w),
     db_Close = (\<lambda>w. (Inr (), w\<lparr>mem_open := False\<rparr>)),
     Exec = mem_log_exec,
     Query = (\<lambda>q vs w. (Inr (mem_rows w, None), w)),
     rows_Close = (\<lambda>w. w),
     ScanRow = (\<lambda>q w. (Inr (int (length (mem_rows w))), w)),
     Begin = (\<lambda>w. (Inr (), w\<lparr>mem_pending := Some (mem_committed w)\<rparr>)),
     tx_Exec = (\<lambda>q. mem_log_exec q []),
     Prepare = (\<lambda>q w. (Inr (), w\<lparr>mem_prepared := q\<rparr>)),
     stmt_Exec = (\<lambda>vs w. mem_log_exec (mem_prepared w) vs w),
     stmt_Close = (\<lambda>w. w),
     Commit = (\<lambda>w. (Inr (), w\<lparr>mem_committed := (case mem_pending w of None \<Rightarrow> mem_committed w | Some l \<Rightarrow> l), mem_pending := None\<rparr>)),
     Rollback = (\<lambda>w. (Inr (), w\<lparr>mem_pending := None\<rparr>)),
     MkdirAll = (\<lambda>_ w. (Inr (), w))\<rparr>"

definition mem_view :: "(int, mem_world, mem_log) tx_view" where
  "mem_view = \<lparr>committed = mem_committed, pending = (\<lambda>w. case mem_pending w of None \<Rightarrow> [] | Some l \<Rightarrow> l),
     in_tx = (\<lambda>w. mem_pending w \<noteq> None), prepared = mem_prepared, effect = (\<lambda>q vs l. l @ [(q, vs)])\<rparr>"

definition mem_empty :: mem_world where
  "mem_empty = \<lparr>mem_committed = [], mem_pending = None, mem_prepared = [], mem_open = False, mem_rows = []\<rparr>"

lemma mem_log_exec_in_tx:
  "mem_log_exec q vs w = (r, w') \<Longrightarrow> mem_pending w = Some l \<Longrightarrow>
     mem_committed w' = mem_committed w \<and> mem_prepared w' = mem_prepared w
     \<and> mem_pending w' = Some (if r = Inr () then l @ [(q, vs)] else l)"
  by (auto simp: mem_log_exec_def split: if_splits)

lemma mem_transactional: "transactional mem_ops mem_view"
  unfolding transactional_def
proof (intro conjI)
  show "begins_tx mem_ops mem_view" by (auto simp: begins_tx_def mem_ops_def mem_view_def)
  show "runs_in_tx mem_ops mem_view"
    by (auto simp: runs_in_tx_def mem_ops_def mem_view_def dest: mem_log_exec_in_tx)
  show "prepares_in_tx mem_ops mem_view" by (auto simp: prepares_in_tx_def mem_ops_def mem_view_def)
  show "runs_prepared mem_ops mem_view"
    by (auto simp: runs_prepared_def mem_ops_def mem_view_def dest: mem_log_exec_in_tx)
  show "commits_tx mem_ops mem_view" by (auto simp: commits_tx_def mem_ops_def mem_view_def)
  show "rolls_back_tx mem_ops mem_view" by (auto simp: rolls_back_tx_def mem_ops_def mem_view_def)
qed

theorem migrate_all_or_nothing_witness:
  "transactional mem_ops mem_view \<and> \<not> in_tx mem_view mem_empty
   \<and> all_or_nothing mem_view (fold (\<lambda>m. effect mem_view m []) [''CREATE TABLE a'', ''BAD'']) mem_empty
       (Migrate mem_ops [''CREATE TABLE a'', ''BAD''] mem_empty)
   \<and> Migrate mem_ops [''CREATE TABLE a'', ''BAD''] mem_empty
     = (Inl (Wrapf ''migration 1 failed: '' (Errorf ''bad'')), mem_empty)
   \<and> fst (Migrate mem_ops [''CREATE TABLE a''] mem_empty) = Inr ()"
proof -
  have "\<not> in_tx mem_view mem_empty" by (simp add: mem_view_def mem_empty_def)
  moreover have "Migrate mem_ops [''CREATE TABLE a'', ''BAD''] mem_empty
      = (Inl (Wrapf ''migration 1 failed: '' (Errorf ''bad'')), mem_empty)"
    "fst (Migrate mem_ops [''CREATE TABLE a''] mem_empty) = Inr ()"
    by (simp_all add: Migrate_def mem_ops_def bindE_def mem_empty_def mem_log_exec_def rollback_with_def show_nat.simps)
  ultimately show ?thesis
    using mem_transactional migrate_all_or_nothing [OF mem_transactional, of mem_empty "[''CREATE TABLE a'', ''BAD'']"]
    by blast
qed

section \<open>Opening and closing the engine\<close>

text \<open>
  \<open>h\<close> tells whether the database handle is open: \<^verbatim>\<open>sql.Open\<close> opens it when it succeeds, \<^verbatim>\<open>Close\<close> closes it,
  and nothing else changes it.
\<close>

definition keeps :: "('w \<Rightarrow> bool) \<Rightarrow> ('w, 'a) io \<Rightarrow> bool" where
  "keeps h m \<longleftrightarrow> (\<forall>w. h (snd (m w)) = h w)"

definition tracks_handle :: "('v, 'r, 'w) sql_ops \<Rightarrow> ('w \<Rightarrow> bool) \<Rightarrow> bool" where
  "tracks_handle ops h \<longleftrightarrow>
     (\<forall>n d w. h (snd (sql_Open ops n d w)) \<longleftrightarrow> h w \<or> fst (sql_Open ops n d w) = Inr ())
   \<and> (\<forall>w. \<not> h (snd (db_Close ops w)))
   \<and> (\<forall>n w. h (SetMaxOpenConns ops n w) = h w \<and> h (SetMaxIdleConns ops n w) = h w \<and> h (SetConnMaxLifetime ops n w) = h w)
   \<and> (\<forall>q vs. keeps h (Exec ops q vs)) \<and> (\<forall>q. keeps h (tx_Exec ops q))
   \<and> keeps h (Begin ops) \<and> keeps h (Commit ops) \<and> keeps h (Rollback ops) \<and> (\<forall>p. keeps h (MkdirAll ops p))"

lemma keeps_apply: "keeps h m \<Longrightarrow> m w = (r, w') \<Longrightarrow> h w' = h w"
  unfolding keeps_def by (metis snd_conv)

lemma keeps_returnE [simp]: "keeps h (returnE a)" "keeps h (failE e)"
  by (simp_all add: keeps_def)

lemma handle_keeps_bindE: "keeps h m \<Longrightarrow> (\<And>a. keeps h (f a)) \<Longrightarrow> keeps h (bindE m f)"
  unfolding keeps_def by (auto simp: bindE_def split: prod.split sum.split) (metis snd_conv)+

lemma keeps_exec_all: "(\<And>q. keeps h (Exec ops q [])) \<Longrightarrow> keeps h (exec_all ops qs)"
  by (induction qs) (simp_all add: handle_keeps_bindE)

lemma keeps_rollback_with: "keeps h (Rollback ops) \<Longrightarrow> keeps h (rollback_with ops e)"
  by (simp add: keeps_def rollback_with_def)

lemma migrate_loop_Cons_bindE:
  "migrate_loop ops i (m # ms) = (\<lambda>w. case tx_Exec ops m w of
      (Inl e, w') \<Rightarrow> rollback_with ops (Wrapf (''migration '' @ show_nat i @ '' failed: '') e) w'
    | (Inr _, w') \<Rightarrow> migrate_loop ops (i + 1) ms w')"
  by (rule ext) simp

lemma keeps_cases:
  assumes "keeps h m" and "\<And>e. keeps h (g e)" and "\<And>a. keeps h (f a)"
  shows "keeps h (\<lambda>w. case m w of (Inl e, w') \<Rightarrow> g e w' | (Inr a, w') \<Rightarrow> f a w')"
  unfolding keeps_def
proof
  fix w
  obtain r w' where m: "m w = (r, w')" by fastforce
  with assms(1) have "h w' = h w" by (rule keeps_apply)
  with m assms(2,3) show "h (snd (case m w of (Inl e, w') \<Rightarrow> g e w' | (Inr a, w') \<Rightarrow> f a w')) = h w"
    by (cases r) (simp_all add: keeps_def)
qed

lemma keeps_migrate_loop:
  assumes "tracks_handle ops h" shows "keeps h (migrate_loop ops i ms)"
proof (induction ms arbitrary: i)
  case Nil
  have "migrate_loop ops i [] = Commit ops" by (rule ext) simp
  then show ?case using assms by (simp add: tracks_handle_def)
next
  case (Cons m ms)
  show ?case unfolding migrate_loop_Cons_bindE
    using assms by (intro keeps_cases Cons.IH keeps_rollback_with) (simp_all add: tracks_handle_def)
qed

lemma keeps_Migrate: "tracks_handle ops h \<Longrightarrow> keeps h (Migrate ops ms)"
  by (auto simp: Migrate_def tracks_handle_def intro!: handle_keeps_bindE keeps_migrate_loop)

lemma keeps_Init: "tracks_handle ops h \<Longrightarrow> keeps h (Init ops d)"
  by (auto simp: Init_def tracks_handle_def intro!: keeps_exec_all)

lemma keeps_ensureSQLiteParentDir: "tracks_handle ops h \<Longrightarrow> keeps h (ensureSQLiteParentDir ops dsn)"
  by (auto simp: ensureSQLiteParentDir_def Let_def tracks_handle_def)

text \<open>Started with the handle in state \<open>b\<close>, the step leaves it open exactly when it succeeds.\<close>

definition owns_handle :: "('w \<Rightarrow> bool) \<Rightarrow> bool \<Rightarrow> ('w, 'a) io \<Rightarrow> bool" where
  "owns_handle h b m \<longleftrightarrow> (\<forall>w. h w = b \<longrightarrow> (h (snd (m w)) \<longleftrightarrow> \<not> isl (fst (m w))))"

lemma owns_handle_simple: "owns_handle h False (failE e)" "owns_handle h True (returnE a)"
  by (simp_all add: owns_handle_def)

lemma owns_handle_keeps:
  assumes "keeps h m" and "\<And>a. owns_handle h False (f a)"
  shows "owns_handle h False (bindE m f)"
  unfolding owns_handle_def
proof (intro allI impI)
  fix w assume "h w = False"
  obtain r w' where m: "m w = (r, w')" by fastforce
  from keeps_apply [OF assms(1) m] \<open>h w = False\<close> have "h w' = False" by simp
  with m assms(2) show "h (snd (bindE m f w)) \<longleftrightarrow> \<not> isl (fst (bindE m f w))"
    by (cases r) (simp_all add: bindE_def owns_handle_def)
qed

lemma owns_handle_bind:
  assumes "owns_handle h b m" and "\<And>a. owns_handle h True (f a)"
  shows "owns_handle h b (bindE m f)"
  unfolding owns_handle_def
proof (intro allI impI)
  fix w assume "h w = b"
  obtain r w' where m: "m w = (r, w')" by fastforce
  with assms(1) \<open>h w = b\<close> have "h w' \<longleftrightarrow> \<not> isl r" by (auto simp: owns_handle_def dest: spec [of _ w])
  with m assms(2) show "h (snd (bindE m f w)) \<longleftrightarrow> \<not> isl (fst (bindE m f w))"
    by (cases r) (simp_all add: bindE_def owns_handle_def)
qed

lemma owns_handle_or_close:
  assumes "tracks_handle ops h" and "keeps h m"
  shows "owns_handle h True (or_close ops m)"
  using assms by (auto simp: owns_handle_def or_close_def tracks_handle_def split: prod.split sum.split dest: keeps_apply)

lemma owns_handle_sql_Open: "tracks_handle ops h \<Longrightarrow> owns_handle h False (sql_Open ops n dsn)"
  unfolding owns_handle_def tracks_handle_def by (metis isl_def old.sum.exhaust old.unit.exhaust sum.disc(2))

lemma owns_handle_set_limits:
  "tracks_handle ops h \<Longrightarrow> owns_handle h True (\<lambda>w. (Inr (), set_limits ops config w))"
  by (auto simp: owns_handle_def tracks_handle_def set_limits_def Let_def)

text \<open>
  C22: opening never leaks a database handle: \<^verbatim>\<open>Open\<close> leaves the handle open exactly when it returns an
  engine; every failure after \<^verbatim>\<open>sql.Open\<close>, in the initial statements or in a migration, closes it.
\<close>

theorem open_leaks_no_handle:
  assumes t: "tracks_handle ops h" and "\<not> h w"
  shows "h (snd (Open ops config w)) \<longleftrightarrow> \<not> isl (fst (Open ops config w))"
proof -
  have "owns_handle h False (Open ops config)"
    unfolding Open_def
    by (cases "dialectForDriver (cfg_Driver config)")
      (auto intro!: owns_handle_simple owns_handle_keeps [OF keeps_ensureSQLiteParentDir [OF t]]
        owns_handle_bind [OF owns_handle_sql_Open [OF t]] owns_handle_bind [OF owns_handle_set_limits [OF t]]
        owns_handle_bind [OF owns_handle_or_close [OF t keeps_Init [OF t]]]
        owns_handle_bind [OF owns_handle_or_close [OF t keeps_Migrate [OF t]]])
  with assms(2) show ?thesis by (simp add: owns_handle_def)
qed

theorem open_leaks_no_handle_witness:
  "tracks_handle mem_ops mem_open \<and> \<not> mem_open mem_empty
   \<and> (\<exists>config. isl (fst (Open mem_ops config mem_empty)) \<and> \<not> mem_open (snd (Open mem_ops config mem_empty))
       \<and> AutoMigrate config \<and> Migrations config = [''BAD''])"
proof -
  let ?c = "\<lparr>cfg_Driver = ''sqlite'', DSN = ''a.db'', MaxOpenConns = 1, MaxIdleConns = 0, ConnMaxLifetime = 0,
    AutoMigrate = True, Migrations = [''BAD''], EnableMaintenance = True\<rparr>"
  have m: "keeps mem_open (mem_log_exec q vs)" for q vs
    by (auto simp: keeps_def mem_log_exec_def split: option.split)
  have t: "tracks_handle mem_ops mem_open"
    unfolding tracks_handle_def by (auto simp: mem_ops_def m) (auto simp: keeps_def)
  have e: "\<not> mem_open mem_empty" by (simp add: mem_empty_def)
  have "isl (fst (Open mem_ops ?c mem_empty))" by code_simp
  with open_leaks_no_handle [OF t e, of ?c] have "\<not> mem_open (snd (Open mem_ops ?c mem_empty))" by simp
  with t e \<open>isl (fst (Open mem_ops ?c mem_empty))\<close> show ?thesis
    by (intro conjI exI [of _ ?c]) simp_all
qed

text \<open>
  An engine with a maintenance scheduler can be closed only once: after a \<^verbatim>\<open>Close\<close> that returns, the
  next one panics, whatever the database answers.
\<close>

theorem second_close_panics:
  assumes "engine_Close ops e w = Returns (r, e', w')" and "scheduler e \<noteq> None"
  shows "engine_Close ops e' w'' = Panics ''close of closed channel''"
  using assms by (auto simp: engine_Close_def scheduler_Stop_def split: option.splits if_splits prod.splits)

theorem second_close_panics_witness:
  "case Open mem_ops \<lparr>cfg_Driver = ''sqlite'', DSN = ''a.db'', MaxOpenConns = 0, MaxIdleConns = 0, ConnMaxLifetime = 0,
      AutoMigrate = True, Migrations = [''CREATE TABLE a''], EnableMaintenance = True\<rparr> mem_empty of
     (Inl _, _) \<Rightarrow> False
   | (Inr e, w) \<Rightarrow> (case engine_Close mem_ops e w of
       Panics _ \<Rightarrow> False
     | Returns (r, e', w') \<Rightarrow> r = Inr () \<and> engine_Close mem_ops e' w' = Panics ''close of closed channel'')"
proof -
  let ?e = "\<lparr>engine_driver = ''sqlite'', engine_dialect = SQLiteDialect, sqls = [''CREATE TABLE a''], lastWrite = None,
    scheduler = Some \<lparr>checkpoint_ticker = Some True, truncate_ticker = Some True, vacuum_ticker = Some True, stop_closed = False\<rparr>\<rparr>"
  let ?e' = "?e\<lparr>scheduler := Some \<lparr>checkpoint_ticker = Some False, truncate_ticker = Some False, vacuum_ticker = Some False,
    stop_closed = True\<rparr>\<rparr>"
  let ?w = "mem_empty\<lparr>mem_open := True, mem_committed := [(''PRAGMA journal_mode = WAL;'', []),
    (''PRAGMA synchronous = NORMAL;'', []), (''PRAGMA foreign_keys = ON;'', []), (''CREATE TABLE a'', [])]\<rparr>"
  have o: "Open mem_ops \<lparr>cfg_Driver = ''sqlite'', DSN = ''a.db'', MaxOpenConns = 0, MaxIdleConns = 0, ConnMaxLifetime = 0,
      AutoMigrate = True, Migrations = [''CREATE TABLE a''], EnableMaintenance = True\<rparr> mem_empty = (Inr ?e, ?w)"
    by code_simp
  have c: "engine_Close mem_ops ?e ?w = Returns (Inr (), ?e', ?w\<lparr>mem_open := False\<rparr>)"
    by (simp add: engine_Close_def scheduler_Stop_def mem_ops_def)
  from second_close_panics [OF c] o c show ?thesis by simp
qed

section \<open>Maintenance stays away from writes\<close>

text \<open>
  A check at time \<open>t\<close> with \<open>k\<close> writes notified before: those are at least 30 seconds old, and the others are later.
\<close>

definition check_ok :: "int list \<Rightarrow> int \<Rightarrow> nat \<Rightarrow> bool" where
  "check_ok writes t k \<longleftrightarrow> k \<le> length writes
     \<and> (\<forall>u \<in> set (take k writes). u + seconds 30 \<le> t) \<and> (\<forall>u \<in> set (drop k writes). t \<le> u)"

lemma check_ok_write: "check_ok writes t k \<Longrightarrow> t \<le> now \<Longrightarrow> check_ok (writes @ [now]) t k"
  by (auto simp: check_ok_def)

definition begun_ok :: "'w sched_state \<Rightarrow> maintenance \<times> int \<times> nat \<times> int \<Rightarrow> bool" where
  "begun_ok s b \<longleftrightarrow> (case b of (m, t, k, begin) \<Rightarrow> check_ok (ss_writes s) t k \<and> t \<le> begin \<and> begin \<le> ss_now s)"

definition sched_ok :: "'w sched_state \<Rightarrow> bool" where
  "sched_ok s \<longleftrightarrow> sorted (ss_writes s @ [ss_now s])
     \<and> lastWrite (ss_engine s) = (if ss_writes s = [] then None else Some (last (ss_writes s)))
     \<and> (case ss_phase s of Checked m t k \<Rightarrow> check_ok (ss_writes s) t k \<and> t \<le> ss_now s | _ \<Rightarrow> True)
     \<and> list_all (begun_ok s) (ss_begun s)"

lemma begun_ok_mono:
  assumes "begun_ok s b" and "ss_writes s' = ss_writes s \<and> ss_now s \<le> ss_now s' \<or> ss_writes s' = ss_writes s @ [ss_now s] \<and> ss_now s' = ss_now s"
  shows "begun_ok s' b"
  using assms check_ok_write by (fastforce simp: begun_ok_def split: prod.splits)

lemma sorted_last: "sorted (xs :: int list) \<Longrightarrow> u \<in> set xs \<Longrightarrow> u \<le> last xs"
  by (cases xs rule: rev_cases) (auto simp: sorted_append)

lemma tick_check_ok:
  assumes "sched_ok s"
  shows "sched_ok (tick_check m s)"
proof -
  have "check_ok (ss_writes s) (ss_now s) (length (ss_writes s))" if "\<not> isWriteHot (ss_now s) (seconds 30) (ss_engine s)"
  proof -
    have "u + seconds 30 \<le> ss_now s" if u: "u \<in> set (ss_writes s)" for u
    proof -
      have "u \<le> last (ss_writes s)" using assms u by (auto simp: sched_ok_def sorted_append intro: sorted_last)
      with \<open>\<not> isWriteHot _ _ _\<close> assms u show ?thesis by (auto simp: sched_ok_def isWriteHot_def split: if_splits)
    qed
    then show ?thesis by (simp add: check_ok_def)
  qed
  with assms show ?thesis by (auto simp: tick_check_def sched_ok_def begun_ok_def list_all_iff)
qed

lemma scheduler_act_ok:
  assumes "sched_ok s"
  shows "sched_ok (scheduler_act ops ev s)"
proof -
  have begun: "list_all (begun_ok (scheduler_act ops ev s)) (ss_begun s)"
    by (cases ev) (use assms in \<open>auto simp: sched_ok_def list_all_iff tick_check_def split: sched_phase.split elim!: begun_ok_mono\<close>)
  show ?thesis
  proof (cases ev)
    case (TickTaken m)
    with assms tick_check_ok show ?thesis by (auto split: sched_phase.split)
  next
    case Maintains
    with assms begun show ?thesis by (auto simp: sched_ok_def begun_ok_def split: sched_phase.splits)
  qed (use assms begun check_ok_write in \<open>force simp: sched_ok_def sorted_append notifyWrite_def split: sched_phase.split\<close>)+
qed

lemma scheduler_run_ok:
  assumes "lastWrite e = None"
  shows "sched_ok (scheduler_run ops evs now e w)"
proof -
  have "sched_ok (fold (scheduler_act ops) evs s)" if "sched_ok s" for s
    using that by (induction evs arbitrary: s) (simp_all add: scheduler_act_ok)
  moreover have "sched_ok \<lparr>ss_engine = e, ss_now = now, ss_phase = AtSelect, ss_world = w, ss_writes = [], ss_begun = []\<rparr>"
    using assms by (simp add: sched_ok_def)
  ultimately show ?thesis unfolding scheduler_run_def .
qed

text \<open>
  C33: from an engine without a notified write, as \<^verbatim>\<open>Open\<close> returns it, in every interleaving of the scheduler with
  time, writes and other uses of the database, each maintenance that
  is run was decided at a check such that every write notified before that check was at least 30 seconds old; the
  writes notified after it are later than the check. (A write between the check and the run is so not waited for.)
\<close>

theorem maintenance_waits_for_writes:
  assumes "lastWrite e = None"
  shows "let s = scheduler_run ops evs now e w in
    \<forall>(m, t, k, begin) \<in> set (ss_begun s). t \<le> begin \<and> begin \<le> ss_now s \<and> k \<le> length (ss_writes s)
      \<and> (\<forall>u \<in> set (take k (ss_writes s)). u + seconds 30 \<le> t) \<and> (\<forall>u \<in> set (drop k (ss_writes s)). t \<le> u)"
  using scheduler_run_ok [OF assms, of ops evs now w]
  by (auto simp: Let_def sched_ok_def begun_ok_def check_ok_def list_all_iff)

text \<open>An engine just opened: a checkpoint refused after a write, and one made when 30 seconds have passed.\<close>

definition ex_engine :: DatabaseEngine where
  "ex_engine = \<lparr>engine_driver = ''sqlite'', engine_dialect = SQLiteDialect, sqls = [], lastWrite = None, scheduler = None\<rparr>"

definition ex_events :: "mem_world sched_event list" where
  "ex_events = [WriteNotified, TimePasses 5, TickTaken Checkpointing, Maintains, TimePasses 29999999995,
     TickTaken Truncating, TimePasses 7, WriteNotified, Maintains, StopTaken]"

theorem maintenance_waits_for_writes_witness:
  "let s = scheduler_run mem_ops ex_events 0 ex_engine mem_empty in
     ss_begun s = [(Truncating, 30000000000, 1, 30000000007)] \<and> ss_writes s = [0, 30000000007]
     \<and> ss_world s = mem_empty\<lparr>mem_committed := [(''PRAGMA wal_checkpoint(TRUNCATE);'', [])]\<rparr>
     \<and> (\<forall>u \<in> set (take 1 (ss_writes s)). u + seconds 30 \<le> 30000000000)"
proof -
  let ?s = "scheduler_run mem_ops ex_events 0 ex_engine mem_empty"
  have "ss_begun ?s = [(Truncating, 30000000000, 1, 30000000007)]" "ss_writes ?s = [0, 30000000007]"
      "ss_world ?s = mem_empty\<lparr>mem_committed := [(''PRAGMA wal_checkpoint(TRUNCATE);'', [])]\<rparr>" by code_simp+
  moreover have "lastWrite ex_engine = None" by (simp add: ex_engine_def)
  ultimately show ?thesis
    using maintenance_waits_for_writes [of ex_engine mem_ops ex_events 0 mem_empty] by (simp add: Let_def)
qed

text \<open>
  A write that is notified between the check and the maintenance does not stop it, although it is less than 30
  seconds old.
\<close>

theorem write_between_check_and_maintenance:
  assumes "\<not> isWriteHot now (seconds 30) e"
  shows "ss_begun (scheduler_run ops [TickTaken m, WriteNotified, Maintains] now e w) = [(m, now, 0, now)]
    \<and> ss_writes (scheduler_run ops [TickTaken m, WriteNotified, Maintains] now e w) = [now]"
  using assms by (simp add: scheduler_run_def tick_check_def)

section \<open>SQL files\<close>

text \<open>The lines of a file that are not blank and no comment, trimmed.\<close>

definition kept_lines :: "string list \<Rightarrow> string list" where
  "kept_lines ls = filter (\<lambda>l. l \<noteq> [] \<and> \<not> prefix ''--'' l) (map trim_space ls)"

definition sql_lines :: "string \<Rightarrow> string list" where
  "sql_lines data = kept_lines (split_on [CHR 10] data)"

definition clean_line :: "string \<Rightarrow> bool" where
  "clean_line l \<longleftrightarrow> l \<noteq> [] \<and> space_len l = 0 \<and> space_len_end l = 0"

lemma space_words:
  assumes "v \<in> set spaces" and "CHR '' '' \<in> set v" shows "v = '' ''"
  using assms by (auto simp: spaces_def)

lemma space_len_append:
  assumes "l \<noteq> []" and "space_len l = 0" shows "space_len (l @ '' '' @ s) = 0"
  unfolding space_len_eq_0
proof (rule ballI, rule notI)
  fix v assume v: "v \<in> set spaces" "prefix v (l @ '' '' @ s)"
  from assms v(1) have "\<not> prefix v l" by (simp add: space_len_eq_0)
  with v(2) obtain u where "v = l @ '' '' @ u" by (auto simp: prefix_append prefix_Cons)
  then show False using space_words [OF v(1)] assms(1) by (auto simp: append_eq_Cons_conv)
qed

lemma space_len_end_append:
  assumes "l \<noteq> []" and "space_len_end l = 0" shows "space_len_end (s @ '' '' @ l) = 0"
  unfolding space_len_end_eq_0
proof (rule ballI, rule notI)
  fix v assume v: "v \<in> set spaces" "suffix v (s @ '' '' @ l)"
  from assms v(1) have "\<not> suffix v l" by (simp add: space_len_end_eq_0)
  with v(2) obtain u where "v = u @ '' '' @ l"
    by (auto simp: suffix_append suffix_Cons)
  then show False using space_words [OF v(1)] assms(1) by (auto simp: append_eq_Cons_conv)
qed

lemma clean_join: "ls \<noteq> [] \<Longrightarrow> list_all clean_line ls \<Longrightarrow> clean_line (join '' '' ls)"
proof (induction ls rule: list_nonempty_induct)
  case (single l)
  then show ?case by simp
next
  case (cons l ls)
  then show ?case
    using space_len_append [of l "join '' '' ls"] space_len_end_append [of "join '' '' ls" l]
    by (simp add: clean_line_def join_Cons)
qed

lemma trim_right_blank: "space_len_end s = 0 \<Longrightarrow> trim_right_space (s @ '' '') = s"
proof -
  assume s: "space_len_end s = 0"
  have "find (\<lambda>v. suffix v (s @ '' '')) spaces = Some '' ''"
    by (simp add: spaces_def suffix_def)
  then have "space_len_end (s @ '' '') = 1" by (simp add: space_len_end_def)
  with s show ?thesis by (simp add: trim_right_space.simps [of "s @ '' ''"] trim_right_space.simps [of s])
qed

lemma trim_space_buffer: "clean_line l \<Longrightarrow> trim_space (l @ '' '') = l"
  using space_len_append [of l "[]"]
  by (simp add: clean_line_def trim_space_def trim_left_space.simps [of "l @ '' ''"] trim_right_blank)

text \<open>The reference: a statement is the lines up to one that ends with a semicolon.\<close>

fun sql_groups :: "string list \<Rightarrow> string list list" where
  "sql_groups [] = []"
| "sql_groups (l # ls) =
     (if suffix '';'' l then [l] # sql_groups ls
      else case sql_groups ls of [] \<Rightarrow> [[l]] | g # gs \<Rightarrow> (l # g) # gs)"

lemma sql_groups_open: "list_all (\<lambda>l. \<not> suffix '';'' l) p \<Longrightarrow> sql_groups p = (if p = [] then [] else [p])"
  by (induction p) (auto split: list.splits)

lemma sql_groups_close:
  "list_all (\<lambda>l. \<not> suffix '';'' l) p \<Longrightarrow> suffix '';'' l \<Longrightarrow> sql_groups (p @ l # ls) = (p @ [l]) # sql_groups ls"
  by (induction p) auto

definition line_buffer :: "string list \<Rightarrow> string" where
  "line_buffer p = concat (map (\<lambda>l. l @ '' '') p)"

lemma line_buffer_simps [simp]: "line_buffer [] = []" "line_buffer (p @ [l]) = line_buffer p @ l @ '' ''"
  by (simp_all add: line_buffer_def)

lemma line_buffer_eq: "p \<noteq> [] \<Longrightarrow> line_buffer p = join '' '' p @ '' ''"
  by (induction p rule: list_nonempty_induct) (simp_all add: line_buffer_def join_Cons)

lemma trim_line_buffer: "p \<noteq> [] \<Longrightarrow> list_all clean_line p \<Longrightarrow> trim_space (line_buffer p) = join '' '' p"
  by (simp add: line_buffer_eq trim_space_buffer clean_join)

lemma trim_suffix_buffer: "p \<noteq> [] \<Longrightarrow> trim_suffix '';'' (line_buffer p) = line_buffer p"
  by (simp add: line_buffer_eq trim_suffix_def suffix_def)

lemma clean_trim: "trim_space l \<noteq> [] \<Longrightarrow> clean_line (trim_space l)"
  by (simp add: clean_line_def trim_space_clean)

text \<open>The buffer flushed at the end of the files.\<close>

definition flush_buffer :: "string list \<times> string \<Rightarrow> string list" where
  "flush_buffer acc = (case acc of (out, buf) \<Rightarrow> if buf \<noteq> [] then out @ [trim_space buf] else out)"

lemma load_lines_groups:
  "list_all clean_line p \<Longrightarrow> list_all (\<lambda>l. \<not> suffix '';'' l) p \<Longrightarrow>
     flush_buffer (load_lines ls (out, line_buffer p)) = out @ map (join '' '') (sql_groups (p @ kept_lines ls))"
proof (induction ls arbitrary: p out)
  case Nil
  then show ?case
    by (cases "p = []") (simp_all add: flush_buffer_def kept_lines_def sql_groups_open line_buffer_eq trim_space_buffer
        clean_join)
next
  case (Cons l ls)
  let ?l = "trim_space l"
  show ?case
  proof (cases "?l = [] \<or> prefix ''--'' ?l")
    case True
    with Cons show ?thesis by (auto simp: kept_lines_def)
  next
    case False
    then have c: "list_all clean_line (p @ [?l])" using Cons.prems(1) clean_trim by simp
    show ?thesis
    proof (cases "suffix '';'' ?l")
      case True
      with False Cons.IH [of "[]" "out @ [join '' '' (p @ [?l])]"] Cons.prems(2) show ?thesis
        using trim_suffix_buffer [of "p @ [?l]"] trim_line_buffer [OF _ c]
        by (simp add: kept_lines_def sql_groups_close)
    next
      case False': False
      with False Cons.IH [of "p @ [?l]" out] Cons.prems c show ?thesis
        by (simp add: kept_lines_def)
    qed
  qed
qed

lemma load_lines_append: "load_lines (ls @ ms) acc = load_lines ms (load_lines ls acc)"
  by (induction ls acc rule: load_lines.induct) (simp_all add: Let_def)

lemma load_lines_Nil [simp]: "load_lines [] acc = acc"
  by (cases acc) simp

lemma load_files_readable:
  "list_all2 (\<lambda>p data. fs p = Inr (Inr data, None)) paths datas \<Longrightarrow>
     load_files fs paths acc = Inr (load_lines (concat (map (split_on [CHR 10]) datas)) acc)"
  by (induction paths datas arbitrary: acc rule: list_all2_induct) (simp_all add: load_lines_append)

lemma kept_lines_concat: "kept_lines (concat lss) = concat (map kept_lines lss)"
  by (induction lss) (simp_all add: kept_lines_def)

text \<open>
  C29: the statements loaded from readable SQL files are exactly those of the reference: the lines that
  are neither blank nor comments, trimmed and joined by blanks, grouped up to each line that ends with a
  semicolon, which stays part of its statement. A statement may run over the end of a file.
\<close>

theorem sql_files_are_grouped:
  assumes "list_all2 (\<lambda>p data. fs p = Inr (Inr data, None)) paths datas"
  shows "loadSQLFiles fs paths = Inr (map (join '' '') (sql_groups (concat (map sql_lines datas))))"
proof -
  have "loadSQLFiles fs paths = Inr (flush_buffer (load_lines (concat (map (split_on [CHR 10]) datas)) ([], line_buffer [])))"
    by (simp add: loadSQLFiles_def load_files_readable [OF assms] flush_buffer_def split: prod.split)
  also have "\<dots> = Inr (map (join '' '') (sql_groups (concat (map sql_lines datas))))"
    by (subst load_lines_groups) (simp_all add: kept_lines_concat sql_lines_def [abs_def] comp_def)
  finally show ?thesis .
qed

definition sample_sql :: string where
  "sample_sql = ''-- first'' @ [CHR 10] @ ''CREATE TABLE t ('' @ [CHR 10] @ ''  id INT);'' @ [CHR 10] @ ''SELECT 1''"

theorem sql_files_are_grouped_witness:
  "loadSQLFiles (\<lambda>p. if p = ''a.sql'' then Inr (Inr sample_sql, None) else Inl EOF) [''a.sql'']
     = Inr [''CREATE TABLE t ( id INT);'', ''SELECT 1'']"
proof -
  have "map (join '' '') (sql_groups (concat (map sql_lines [sample_sql]))) = [''CREATE TABLE t ( id INT);'', ''SELECT 1'']"
    by code_simp
  then show ?thesis
    using sql_files_are_grouped [of "\<lambda>p. if p = ''a.sql'' then Inr (Inr sample_sql, None) else Inl EOF" "[''a.sql'']" "[sample_sql]"]
    by simp
qed

end
