(* ===== verification/Base_Engine.thy ===== *)
theory Base_Engine
  imports Db_Engine
begin

text \<open>
  The generic table engine of \<^verbatim>\<open>database/base_engine.go\<close>: writing, reading and deleting the entities a
  specification describes. The specification is a record of functions; \<^verbatim>\<open>FromRow\<close> reads the current row
  only. The engine's clock is the argument \<open>now\<close>.
\<close>

record ('e, 'k, 'v, 'r) EngineSpec =
  Table :: string
  Columns :: "string list"
  Values :: "'e \<Rightarrow> 'v arg list"
  ConflictColumns :: "string list"
  FromRow :: "'r \<Rightarrow> 'e \<times> go_error option"
  KeyColumns :: "string list"
  KeyArgs :: "'k \<Rightarrow> 'v arg list"
  IntPrimaryKey :: "string option"

definition ReplaceMode :: string where "ReplaceMode = ''REPLACE''"
definition IgnoreMode :: string where "IgnoreMode = ''IGNORE''"
definition ModeUpsert :: string where "ModeUpsert = ''UPSERT''"

definition PaginationOffset :: int where "PaginationOffset = 0"
definition PaginationKeyset :: int where "PaginationKeyset = 1"

text \<open>The state: the engine and the database; the specification and the tables of letters are fixed.\<close>

type_synonym 'w base = "DatabaseEngine \<times> 'w"

definition on_db :: "('w, 'a) io \<Rightarrow> ('w base, 'a) io" where
  "on_db m = (\<lambda>(e, w). case m w of (r, w') \<Rightarrow> (r, e, w'))"

definition note_write :: "int \<Rightarrow> ('w base, unit) io" where
  "note_write now = (\<lambda>(e, w). (Inr (), notifyWrite now e, w))"

definition checkE :: "go_error option \<Rightarrow> ('s, unit) io" where
  "checkE x = (case x of None \<Rightarrow> returnE () | Some e \<Rightarrow> failE e)"

section \<open>Writing\<close>

definition validateTableAndColumns :: "(nat \<Rightarrow> bool) \<Rightarrow> ('e, 'k, 'v, 'r) EngineSpec \<Rightarrow> string list \<Rightarrow> go_error option" where
  "validateTableAndColumns uni spec extraColumns = (case validateIdentifier uni (Table spec) of
      Some e \<Rightarrow> Some e
    | None \<Rightarrow> validateIdentifiers uni (Columns spec @ extraColumns))"

definition count_error :: "'a list \<Rightarrow> 'b list \<Rightarrow> go_error" where
  "count_error vals cols = Errorf (''values count '' @ show_nat (length vals) @ '' does not match columns count ''
     @ show_nat (length cols))"

definition insertQuery :: "(nat \<Rightarrow> bool) \<Rightarrow> DatabaseEngine \<Rightarrow> ('e, 'k, 'v, 'r) EngineSpec \<Rightarrow> string \<Rightarrow> string list \<Rightarrow> go_error + string" where
  "insertQuery uni e spec mode updateColumns =
     (let d = engine_dialect e in
      if mode = IgnoreMode then Inr (InsertIgnore uni d (Table spec) (Columns spec) (ConflictColumns spec))
      else if mode = ReplaceMode then
        (if engine_driver e = DriverPostgres \<and> ConflictColumns spec = []
         then Inl (Errorf ''postgres replace requires conflictColumns'')
         else Inr (InsertReplace uni d (Table spec) (Columns spec) (ConflictColumns spec)))
      else if mode = ModeUpsert then
        (if ConflictColumns spec = [] then Inl (Errorf ''conflictColumns not defined'')
         else Inr (Upsert uni d (Table spec) (Columns spec) (ConflictColumns spec)
            (if updateColumns = [] then Columns spec else updateColumns)))
      else Inr (Insert uni d (Table spec) (Columns spec)))"

definition Save :: "(nat \<Rightarrow> bool) \<Rightarrow> ('v, 'r, 'w) sql_ops \<Rightarrow> int \<Rightarrow> ('e, 'k, 'v, 'r) EngineSpec \<Rightarrow> 'e \<Rightarrow> string \<Rightarrow> ('w base, unit) io" where
  "Save uni ops now spec entity mode =
     bindE (checkE (validateTableAndColumns uni spec [])) (\<lambda>_.
     bindE (note_write now) (\<lambda>_ (e, w).
       let vals = Values spec entity in
       if length vals \<noteq> length (Columns spec) then (Inl (count_error vals (Columns spec)), e, w)
       else case insertQuery uni e spec mode [] of
           Inl er \<Rightarrow> (Inl er, e, w)
         | Inr q \<Rightarrow> on_db (Exec ops q vals) (e, w)))"

text \<open>The loop of a batch, and the transaction around it; the deferred \<^verbatim>\<open>stmt.Close()\<close> runs last.\<close>

fun batch_loop :: "('v, 'r, 'w) sql_ops \<Rightarrow> ('e, 'k, 'v, 'r) EngineSpec \<Rightarrow> 'e list \<Rightarrow> ('w, unit) io" where
  "batch_loop ops spec [] w = Commit ops w"
| "batch_loop ops spec (x # xs) w =
     (let vals = Values spec x in
      if length vals \<noteq> length (Columns spec) then rollback_with ops (count_error vals (Columns spec)) w
      else case stmt_Exec ops vals w of
          (Inl er, w') \<Rightarrow> rollback_with ops er w'
        | (Inr _, w') \<Rightarrow> batch_loop ops spec xs w')"

definition run_batch :: "('v, 'r, 'w) sql_ops \<Rightarrow> ('e, 'k, 'v, 'r) EngineSpec \<Rightarrow> string \<Rightarrow> 'e list \<Rightarrow> ('w, unit) io" where
  "run_batch ops spec q entities =
     bindE (Begin ops) (\<lambda>_ w. case Prepare ops q w of
        (Inl er, w') \<Rightarrow> rollback_with ops er w'
      | (Inr _, w') \<Rightarrow> (case batch_loop ops spec entities w' of (r, w'') \<Rightarrow> (r, stmt_Close ops w'')))"

definition SaveBatch :: "(nat \<Rightarrow> bool) \<Rightarrow> ('v, 'r, 'w) sql_ops \<Rightarrow> int \<Rightarrow> ('e, 'k, 'v, 'r) EngineSpec \<Rightarrow> 'e list \<Rightarrow> string \<Rightarrow> ('w base, unit) io" where
  "SaveBatch uni ops now spec entities mode =
     (if entities = [] then returnE ()
      else bindE (checkE (validateTableAndColumns uni spec [])) (\<lambda>_.
        bindE (note_write now) (\<lambda>_ (e, w).
          case insertQuery uni e spec mode [] of
            Inl er \<Rightarrow> (Inl er, e, w)
          | Inr q \<Rightarrow> on_db (run_batch ops spec q entities) (e, w))))"

text \<open>The checks both upserts start with.\<close>

definition upsert_checks :: "(nat \<Rightarrow> bool) \<Rightarrow> ('e, 'k, 'v, 'r) EngineSpec \<Rightarrow> string list \<Rightarrow> go_error option" where
  "upsert_checks uni spec updateColumns = (case validateTableAndColumns uni spec updateColumns of
      Some e \<Rightarrow> Some e
    | None \<Rightarrow>
        if ConflictColumns spec = [] then Some (Errorf ''conflictColumns not defined'')
        else if updateColumns = [] then Some (Errorf ''updateColumns not defined'')
        else validateIdentifiers uni (ConflictColumns spec))"

definition base_Upsert :: "(nat \<Rightarrow> bool) \<Rightarrow> ('v, 'r, 'w) sql_ops \<Rightarrow> int \<Rightarrow> ('e, 'k, 'v, 'r) EngineSpec \<Rightarrow> 'e \<Rightarrow> string list \<Rightarrow> ('w base, unit) io" where
  "base_Upsert uni ops now spec entity updateColumns =
     bindE (checkE (upsert_checks uni spec updateColumns)) (\<lambda>_.
     bindE (note_write now) (\<lambda>_ (e, w).
       let vals = Values spec entity in
       if length vals \<noteq> length (Columns spec) then (Inl (count_error vals (Columns spec)), e, w)
       else on_db (Exec ops
         (Upsert uni (engine_dialect e) (Table spec) (Columns spec) (ConflictColumns spec) updateColumns) vals) (e, w)))"

definition UpsertBatch :: "(nat \<Rightarrow> bool) \<Rightarrow> ('v, 'r, 'w) sql_ops \<Rightarrow> int \<Rightarrow> ('e, 'k, 'v, 'r) EngineSpec \<Rightarrow> 'e list \<Rightarrow> string list \<Rightarrow> ('w base, unit) io" where
  "UpsertBatch uni ops now spec entities updateColumns =
     (if entities = [] then returnE ()
      else bindE (checkE (upsert_checks uni spec updateColumns)) (\<lambda>_.
        bindE (note_write now) (\<lambda>_ (e, w).
          on_db (run_batch ops spec
            (Upsert uni (engine_dialect e) (Table spec) (Columns spec) (ConflictColumns spec) updateColumns) entities) (e, w))))"

section \<open>Reading\<close>

definition selectColumns :: "(nat \<Rightarrow> bool) \<Rightarrow> DatabaseEngine \<Rightarrow> ('e, 'k, 'v, 'r) EngineSpec \<Rightarrow> string" where
  "selectColumns uni e spec =
     (if Columns spec = [] then ''*'' else joinedQuotedIdents uni (engine_dialect e) (Columns spec))"

text \<open>\<^verbatim>\<open>Find\<close> gives a pointer and an error; the entity is there even when \<^verbatim>\<open>FromRow\<close> fails.\<close>

definition Find :: "(nat \<Rightarrow> bool) \<Rightarrow> ('v, 'r, 'w) sql_ops \<Rightarrow> ('e, 'k, 'v, 'r) EngineSpec \<Rightarrow> 'k \<Rightarrow> 'w base \<Rightarrow> ('e option \<times> go_error option) \<times> 'w base" where
  "Find uni ops spec key = (\<lambda>(e, w). case validateTableAndColumns uni spec (KeyColumns spec) of
      Some er \<Rightarrow> ((None, Some er), e, w)
    | None \<Rightarrow>
        let q = ''SELECT '' @ selectColumns uni e spec @ '' FROM '' @ QuoteIdent uni (engine_dialect e) (Table spec)
              @ '' WHERE '' @ whereKeyFor uni (engine_dialect e) (KeyColumns spec) 1 @ '' LIMIT 1'' in
        (case Query ops q (KeyArgs spec key) w of
           (Inl er, w') \<Rightarrow> ((None, Some er), e, w')
         | (Inr (rows, err), w') \<Rightarrow>
             (case rows of
                row # _ \<Rightarrow> (case FromRow spec row of (x, er) \<Rightarrow> (Some x, er))
              | [] \<Rightarrow> (None, err), e, rows_Close ops w')))"

fun scan_rows :: "('e, 'k, 'v, 'r) EngineSpec \<Rightarrow> 'e list \<Rightarrow> 'r list \<Rightarrow> go_error option \<Rightarrow> 'e list \<times> go_error option" where
  "scan_rows spec out [] err = (out, err)"
| "scan_rows spec out (row # rows) err = (case FromRow spec row of
      (_, Some e) \<Rightarrow> ([], Some e)
    | (x, None) \<Rightarrow> scan_rows spec (out @ [x]) rows err)"

text \<open>The query and the loop over its rows, the same in both modes.\<close>

definition load_query :: "('v, 'r, 'w) sql_ops \<Rightarrow> ('e, 'k, 'v, 'r) EngineSpec \<Rightarrow> string \<Rightarrow> 'v arg list \<Rightarrow> 'w base \<Rightarrow> ('e list \<times> go_error option) \<times> 'w base" where
  "load_query ops spec q args = (\<lambda>(e, w). case Query ops q args w of
      (Inl er, w') \<Rightarrow> (([], Some er), e, w')
    | (Inr (rows, err), w') \<Rightarrow> (scan_rows spec [] rows err, e, rows_Close ops w'))"

definition Load :: "(nat \<Rightarrow> bool) \<Rightarrow> ('v, 'r, 'w) sql_ops \<Rightarrow> ('e, 'k, 'v, 'r) EngineSpec \<Rightarrow> int \<Rightarrow> int \<Rightarrow> int \<Rightarrow> int option \<Rightarrow> 'w base \<Rightarrow> ('e list \<times> go_error option) \<times> 'w base" where
  "Load uni ops spec mode limit offset lastID = (\<lambda>(e, w). case validateTableAndColumns uni spec [] of
      Some er \<Rightarrow> (([], Some er), e, w)
    | None \<Rightarrow>
        let d = engine_dialect e; sel = ''SELECT '' @ selectColumns uni e spec @ '' FROM '' @ QuoteIdent uni d (Table spec) in
        if mode = PaginationOffset then
          load_query ops spec (sel @ '' LIMIT '' @ Placeholder d 1 @ '' OFFSET '' @ Placeholder d 2)
            [IntArg limit, IntArg offset] (e, w)
        else if mode = PaginationKeyset then
          (case (IntPrimaryKey spec, lastID) of
             (Some pk, Some last_id) \<Rightarrow>
               (case validateIdentifier uni pk of
                  Some er \<Rightarrow> (([], Some er), e, w)
                | None \<Rightarrow> load_query ops spec
                    ([CHR 10] @ sel @ [CHR 10] @ ''WHERE '' @ QuoteIdent uni d pk @ '' > '' @ Placeholder d 1
                     @ [CHR 10] @ ''ORDER BY '' @ QuoteIdent uni d pk
                     @ [CHR 10] @ ''LIMIT '' @ Placeholder d 2 @ [CHR 10])
                    [IntArg last_id, IntArg limit] (e, w))
           | _ \<Rightarrow> (([], Some (Errorf ''keyset pagination not supported'')), e, w))
        else (([], Some (Errorf ''invalid pagination mode'')), e, w))"

section \<open>Deleting and counting\<close>

definition base_Delete :: "(nat \<Rightarrow> bool) \<Rightarrow> ('v, 'r, 'w) sql_ops \<Rightarrow> int \<Rightarrow> ('e, 'k, 'v, 'r) EngineSpec \<Rightarrow> 'k \<Rightarrow> ('w base, unit) io" where
  "base_Delete uni ops now spec key =
     bindE (checkE (validateTableAndColumns uni spec (KeyColumns spec))) (\<lambda>_.
     bindE (note_write now) (\<lambda>_ (e, w).
       on_db (Exec ops (''DELETE FROM '' @ QuoteIdent uni (engine_dialect e) (Table spec) @ '' WHERE ''
         @ whereKeyFor uni (engine_dialect e) (KeyColumns spec) 1) (KeyArgs spec key)) (e, w)))"

definition DeleteAll :: "(nat \<Rightarrow> bool) \<Rightarrow> ('v, 'r, 'w) sql_ops \<Rightarrow> int \<Rightarrow> ('e, 'k, 'v, 'r) EngineSpec \<Rightarrow> ('w base, unit) io" where
  "DeleteAll uni ops now spec =
     bindE (checkE (validateTableAndColumns uni spec [])) (\<lambda>_.
     bindE (note_write now) (\<lambda>_ (e, w).
       on_db (Exec ops (''DELETE FROM '' @ QuoteIdent uni (engine_dialect e) (Table spec)) []) (e, w)))"

definition Count :: "(nat \<Rightarrow> bool) \<Rightarrow> ('v, 'r, 'w) sql_ops \<Rightarrow> ('e, 'k, 'v, 'r) EngineSpec \<Rightarrow> 'w base \<Rightarrow> (int \<times> go_error option) \<times> 'w base" where
  "Count uni ops spec = (\<lambda>(e, w). case validateTableAndColumns uni spec [] of
      Some er \<Rightarrow> ((0, Some er), e, w)
    | None \<Rightarrow> (case ScanRow ops (''SELECT COUNT(*) FROM '' @ QuoteIdent uni (engine_dialect e) (Table spec)) w of
        (Inl er, w') \<Rightarrow> ((0, Some er), e, w')
      | (Inr c, w') \<Rightarrow> ((c, None), e, w')))"

definition ErrNoRows :: go_error where "ErrNoRows = Errorf ''sql: no rows in result set''"

definition IsEmptyFast :: "(nat \<Rightarrow> bool) \<Rightarrow> ('v, 'r, 'w) sql_ops \<Rightarrow> ('e, 'k, 'v, 'r) EngineSpec \<Rightarrow> 'w base \<Rightarrow> (bool \<times> go_error option) \<times> 'w base" where
  "IsEmptyFast uni ops spec = (\<lambda>(e, w). case validateTableAndColumns uni spec [] of
      Some er \<Rightarrow> ((False, Some er), e, w)
    | None \<Rightarrow> (case ScanRow ops (''SELECT 1 FROM '' @ QuoteIdent uni (engine_dialect e) (Table spec) @ '' LIMIT 1'') w of
        (Inl er, w') \<Rightarrow> (if er = ErrNoRows then (True, None) else (False, Some er), e, w')
      | (Inr _, w') \<Rightarrow> ((False, None), e, w')))"

section \<open>Batches are atomic\<close>

interpretation row_loop: tx_loop ops v "\<lambda>w. in_tx v w \<and> prepared v w = q" "\<lambda>x. effect v q (Values spec x)"
  "\<lambda>x. length (Values spec x) = length (Columns spec)" "\<lambda>_. batch_loop ops spec" for ops v q spec
proof
  fix w i x xs
  assume t: "transactional ops v" and w: "in_tx v w \<and> prepared v w = q"
  show "(\<exists>e w1. in_tx v w1 \<and> committed v w1 = committed v w \<and> batch_loop ops spec (x # xs) w = rollback_with ops e w1)
      \<or> (\<exists>w1. (in_tx v w1 \<and> prepared v w1 = q) \<and> length (Values spec x) = length (Columns spec)
           \<and> committed v w1 = committed v w \<and> pending v w1 = effect v q (Values spec x) (pending v w)
           \<and> batch_loop ops spec (x # xs) w = batch_loop ops spec xs w1)"
  proof (cases "length (Values spec x) = length (Columns spec)")
    case False
    with w show ?thesis by auto
  next
    case True
    obtain s w1 where x: "stmt_Exec ops (Values spec x) w = (s, w1)" by fastforce
    from transactional_exec(3) [OF t _ x] w x True show ?thesis
      by (cases s) (auto intro: exI [of _ w1])
  qed
qed simp_all

lemma run_batch_atomic:
  assumes t: "transactional ops v" and "\<not> in_tx v w" and "run_batch ops spec q xs w = (r, w')"
  shows "all_or_nothing v (fold (\<lambda>x. effect v q (Values spec x)) xs) w (r, w')
    \<and> (r = Inr () \<longrightarrow> list_all (\<lambda>x. length (Values spec x) = length (Columns spec)) xs)"
proof -
  obtain r1 w1 where b: "Begin ops w = (r1, w1)" by fastforce
  note started = transactional_begin [OF t b]
  show ?thesis
  proof (cases r1)
    case (Inl e)
    with b assms(3) started assms(2) show ?thesis by (auto simp: run_batch_def bindE_def all_or_nothing_def)
  next
    case (Inr u)
    with started have tx: "in_tx v w1" "pending v w1 = committed v w" "committed v w1 = committed v w" by auto
    obtain r2 w2 where p: "Prepare ops q w1 = (r2, w2)" by fastforce
    note prep = transactional_exec(2) [OF t tx(1) p]
    show ?thesis
    proof (cases r2)
      case (Inl e)
      with b p \<open>r1 = Inr u\<close> assms(3) have "rollback_with ops e w2 = (r, w')" by (simp add: run_batch_def bindE_def)
      from transactional_rollback_with [OF t _ this] prep tx show ?thesis by (simp add: all_or_nothing_def)
    next
      case (Inr u')
      obtain r3 w3 where l: "batch_loop ops spec xs w2 = (r3, w3)" by fastforce
      with b p \<open>r1 = Inr u\<close> Inr assms(3) have "r = r3" "w' = stmt_Close ops w3" by (simp_all add: run_batch_def bindE_def)
      moreover have "in_tx v w2 \<and> prepared v w2 = q" using prep Inr by simp
      ultimately show ?thesis
        using row_loop.loop_atomic [OF t _ l, of q] prep tx Inr transactional_stmt_Close [OF t, of w3]
        by (simp add: all_or_nothing_def)
    qed
  qed
qed

lemma on_db_eq: "on_db m (e, w) = (r, e', w') \<longleftrightarrow> m w = (r, w') \<and> e' = e"
  by (auto simp: on_db_def split: prod.splits)

text \<open>
  C5: a batch of rows is saved as a whole or not at all. Whatever the mode and however rows, statement or
  commit fail, \<^verbatim>\<open>SaveBatch\<close> leaves no transaction open; on success every row was applied in order with
  the one statement of the mode, each with one value per column; on an error the data are unchanged.
\<close>

theorem save_batch_all_or_nothing:
  assumes "transactional ops v" and "\<not> in_tx v w"
    and "SaveBatch uni ops now spec entities mode (e, w) = (r, e', w')"
  shows "\<not> in_tx v w' \<and> (if r = Inr () \<and> entities \<noteq> []
    then \<exists>q. insertQuery uni (notifyWrite now e) spec mode [] = Inr q
      \<and> committed v w' = fold (\<lambda>x. effect v q (Values spec x)) entities (committed v w)
      \<and> list_all (\<lambda>x. length (Values spec x) = length (Columns spec)) entities
    else committed v w' = committed v w)"
proof (cases "entities = [] \<or> validateTableAndColumns uni spec [] \<noteq> None
    \<or> (\<exists>er. insertQuery uni (notifyWrite now e) spec mode [] = Inl er)")
  case True
  with assms(2,3) show ?thesis
    by (cases "entities = []"; cases "validateTableAndColumns uni spec []")
      (auto simp: SaveBatch_def checkE_def bindE_def note_write_def returnE_def failE_def)
next
  case False
  then obtain q where q: "insertQuery uni (notifyWrite now e) spec mode [] = Inr q" by (metis obj_sumE)
  with False assms(3) have "run_batch ops spec q entities w = (r, w')"
    by (simp add: SaveBatch_def checkE_def bindE_def note_write_def returnE_def on_db_eq)
  from run_batch_atomic [OF assms(1,2) this] q False show ?thesis
    by (simp add: all_or_nothing_def)
qed

text \<open>The same of \<^verbatim>\<open>UpsertBatch\<close>, whose statement is the upsert of the dialect.\<close>

lemma upsert_batch_all_or_nothing:
  assumes "transactional ops v" and "\<not> in_tx v w"
    and "UpsertBatch uni ops now spec entities updateColumns (e, w) = (r, e', w')"
  shows "\<not> in_tx v w' \<and> committed v w' = (if r = Inr () then fold (\<lambda>x. effect v
      (Upsert uni (engine_dialect e) (Table spec) (Columns spec) (ConflictColumns spec) updateColumns) (Values spec x)) entities (committed v w)
    else committed v w)"
proof (cases "entities = [] \<or> upsert_checks uni spec updateColumns \<noteq> None")
  case True
  with assms(2,3) show ?thesis
    by (auto simp: UpsertBatch_def checkE_def bindE_def failE_def split: option.splits if_splits)
next
  case False
  with assms(3) have "run_batch ops spec
      (Upsert uni (engine_dialect e) (Table spec) (Columns spec) (ConflictColumns spec) updateColumns) entities w = (r, w')"
    by (simp add: UpsertBatch_def checkE_def bindE_def note_write_def returnE_def on_db_eq notifyWrite_def)
  from run_batch_atomic [OF assms(1,2) this] show ?thesis by (simp add: all_or_nothing_def)
qed

text \<open>A table of pairs of a key and a number.\<close>

definition pair_spec :: "(int \<times> int, int, int, int) EngineSpec" where
  "pair_spec = \<lparr>Table = ''t'', Columns = [''id'', ''n''], Values = (\<lambda>(i, n). [Value i, Value n]), ConflictColumns = [''id''],
     FromRow = (\<lambda>r. ((r, r), None)), KeyColumns = [''id''], KeyArgs = (\<lambda>k. [Value k]), IntPrimaryKey = Some ''id''\<rparr>"

definition sqlite_engine :: DatabaseEngine where
  "sqlite_engine = \<lparr>engine_driver = ''sqlite'', engine_dialect = SQLiteDialect, sqls = [], lastWrite = None, scheduler = None\<rparr>"

theorem save_batch_all_or_nothing_witness:
  "transactional mem_ops mem_view \<and> \<not> in_tx mem_view mem_empty
   \<and> fst (SaveBatch (\<lambda>_. False) mem_ops 0 pair_spec [(1, 1), (2, -2)] ''IGNORE'' (sqlite_engine, mem_empty)) = Inl (Errorf ''bad'')
   \<and> mem_committed (snd (snd (SaveBatch (\<lambda>_. False) mem_ops 0 pair_spec [(1, 1), (2, -2)] ''IGNORE'' (sqlite_engine, mem_empty)))) = []
   \<and> map snd (mem_committed (snd (snd (SaveBatch (\<lambda>_. False) mem_ops 0 pair_spec [(1, 1), (2, 2)] ''IGNORE'' (sqlite_engine, mem_empty)))))
     = [[Value 1, Value 1], [Value 2, Value 2]]"
proof -
  have i: "\<not> in_tx mem_view mem_empty" by (simp add: mem_view_def mem_empty_def)
  let ?bad = "SaveBatch (\<lambda>_. False) mem_ops 0 pair_spec [(1, 1), (2, -2)] ''IGNORE'' (sqlite_engine, mem_empty)"
  have e: "fst ?bad = Inl (Errorf ''bad'')" by code_simp
  obtain e' w' where bad: "?bad = (Inl (Errorf ''bad''), e', w')" using e by (metis prod.collapse)
  from save_batch_all_or_nothing [OF mem_transactional i this] have "mem_committed w' = mem_committed mem_empty"
    by (simp add: mem_view_def)
  with bad have "mem_committed (snd (snd ?bad)) = []" by (simp add: mem_empty_def)
  moreover have "map snd (mem_committed (snd (snd (SaveBatch (\<lambda>_. False) mem_ops 0 pair_spec [(1, 1), (2, 2)] ''IGNORE''
      (sqlite_engine, mem_empty))))) = [[Value 1, Value 1], [Value 2, Value 2]]" by code_simp
  ultimately show ?thesis using i e mem_transactional by blast
qed

section \<open>Conflict columns\<close>

text \<open>
  \<^verbatim>\<open>Save\<close> does not validate the conflict columns: one that is no identifier becomes an empty text
  inside the parentheses, and the statement goes to the database instead of being refused.
\<close>

theorem save_sends_empty_conflict_target:
  assumes "validateTableAndColumns uni spec [] = None" and "ConflictColumns spec = [bad]"
    and "validateIdentifier uni bad \<noteq> None" and "length (Values spec x) = length (Columns spec)"
    and "engine_dialect e = PostgresDialect"
  shows "Save uni ops now spec x IgnoreMode (e, w) =
    on_db (Exec ops (Insert uni PostgresDialect (Table spec) (Columns spec) @ '' ON CONFLICT () DO NOTHING'')
      (Values spec x)) (notifyWrite now e, w)"
proof -
  have "conflictTarget uni PostgresDialect [bad] = ''()''"
    using assms(3) by (simp add: conflictTarget_def joinedQuotedIdents_def quoteIdents_def QuoteIdent_def quoteIdent_def)
  with assms(1,2,4,5) show ?thesis
    by (simp add: Save_def checkE_def bindE_def note_write_def returnE_def insertQuery_def InsertIgnore_def Let_def notifyWrite_def)
qed

theorem save_sends_empty_conflict_target_witness:
  "fst (Save (\<lambda>_. False) mem_ops 0 (pair_spec\<lparr>ConflictColumns := [''a b'']\<rparr>) (1, 2) IgnoreMode
     (sqlite_engine\<lparr>engine_dialect := PostgresDialect\<rparr>, mem_empty)) = Inr ()"
proof -
  let ?s = "pair_spec\<lparr>ConflictColumns := [''a b'']\<rparr>"
  have "validateTableAndColumns (\<lambda>_. False) ?s [] = None" "validateIdentifier (\<lambda>_. False) ''a b'' \<noteq> None"
    by code_simp+
  from save_sends_empty_conflict_target [OF this(1) _ this(2), of "(1, 2)" "sqlite_engine\<lparr>engine_dialect := PostgresDialect\<rparr>"
      mem_ops 0 mem_empty] show ?thesis
    by (simp add: pair_spec_def mem_ops_def on_db_def mem_log_exec_def mem_empty_def Insert_def insertSQL_def)
qed

end
