(* ===== verification/Pg_Migrations.thy ===== *)
theory Pg_Migrations
  imports Go_Path Sql_Dialect "HOL-Library.Multiset"
begin

text \<open>
  The PostgreSQL helpers of \<^verbatim>\<open>database/postgres/postgres.go\<close>: configuration and connection string,
  creation of the database, and the embedded migrations. pgx (connections, pool, transactions), SHA-256
  and the embedded file system are parameters; a world \<open>'w\<close> is the state of the servers.
\<close>

section \<open>Configuration\<close>

record pg_config =
  pg_Host :: string
  pg_Port :: int
  pg_User :: string
  pg_Password :: string
  pg_Database :: string
  AdminDatabase :: string
  SSLMode :: string
  AutoCreateDatabase :: bool
  pg_AutoMigrate :: bool
  MaxConns :: int
  MinConns :: int

definition normalizeConfig :: "pg_config \<Rightarrow> pg_config" where
  "normalizeConfig cfg =
     (let cfg = (if pg_Host cfg = [] then cfg\<lparr>pg_Host := ''127.0.0.1''\<rparr> else cfg);
          cfg = (if pg_Port cfg = 0 then cfg\<lparr>pg_Port := 5432\<rparr> else cfg);
          cfg = (if AdminDatabase cfg = [] then cfg\<lparr>AdminDatabase := ''postgres''\<rparr> else cfg)
      in if SSLMode cfg = [] then cfg\<lparr>SSLMode := ''disable''\<rparr> else cfg)"

text \<open>\<^verbatim>\<open>url.QueryEscape\<close>, and \<^verbatim>\<open>Encode\<close> of a single parameter.\<close>

definition query_escape :: "string \<Rightarrow> string" where
  "query_escape s = concat (map (\<lambda>c. if alnum c \<or> c \<in> set ''-_.~'' then [c]
     else if c = CHR '' '' then ''+''
     else [CHR ''%'', upper_hex (of_char c div 16), upper_hex (of_char c mod 16)]) s)"

definition connString :: "pg_config \<Rightarrow> string \<Rightarrow> string" where
  "connString cfg database = url_string (empty_url\<lparr>Scheme := ''postgres'',
     Host := join_host_port (pg_Host cfg) (itoa (pg_Port cfg)),
     Path := ''/'' @ database,
     RawQuery := ''sslmode='' @ query_escape (SSLMode cfg),
     User := (if pg_User cfg = [] then None
       else Some (pg_User cfg, if pg_Password cfg = [] then None else Some (pg_Password cfg)))\<rparr>)"

definition pg_quoteIdent :: "string \<Rightarrow> string" where
  "pg_quoteIdent name = [CHR 34] @ replace_char (CHR 34) [CHR 34, CHR 34] name @ [CHR 34]"

section \<open>Reading migrations\<close>

record migration =
  version :: int
  mig_name :: string
  mig_path :: string
  mig_sql :: string
  mig_checksum :: string

text \<open>The embedded files: the entries of a directory with their kind, and the contents.\<close>

record embed_fs =
  ReadDir :: "string \<Rightarrow> go_error + (string \<times> bool) list"
  fs_ReadFile :: "string \<Rightarrow> go_error + string"

definition ErrNotExist :: go_error where "ErrNotExist = Errorf ''file does not exist''"

definition checksumSQL :: "(byte list \<Rightarrow> byte list) \<Rightarrow> string \<Rightarrow> string" where
  "checksumSQL sha256 sql = hex_encode (sha256 (bytes_of sql))"

definition parseMigrationVersion :: "string \<Rightarrow> go_error + int" where
  "parseMigrationVersion name =
     (let (pre, _, ok) = cut_at name ''_'' in
      if \<not> ok \<or> pre = [] then Inl (Errorf (''postgres: migration '' @ go_quote name
          @ '' must start with a numeric prefix followed by underscore''))
      else case parse_int 10 pre of
          None \<Rightarrow> Inl (Errorf (''postgres: migration '' @ go_quote name @ '' has invalid numeric prefix''))
        | Some v \<Rightarrow> if v \<le> 0 then Inl (Errorf (''postgres: migration '' @ go_quote name @ '' has invalid numeric prefix''))
            else Inr v)"

text \<open>
  \<^verbatim>\<open>sortMigrations\<close> in place: the inner loop moves larger elements one position up until the place of
  \<open>cur\<close> is found; its index is one above \<^verbatim>\<open>j\<close>.
\<close>

fun shift_loop :: "migration \<Rightarrow> nat \<Rightarrow> migration list \<Rightarrow> migration list" where
  "shift_loop cur 0 ms = ms[0 := cur]"
| "shift_loop cur (Suc j) ms =
     (if version (ms ! j) > version cur then shift_loop cur j (ms[Suc j := ms ! j]) else ms[Suc j := cur])"

definition sortMigrations :: "migration list \<Rightarrow> migration list" where
  "sortMigrations ms = fold (\<lambda>i ms. shift_loop (ms ! i) i ms) [1..<length ms] ms"

fun read_entries :: "(byte list \<Rightarrow> byte list) \<Rightarrow> embed_fs \<Rightarrow> string \<Rightarrow> (int \<rightharpoonup> string)
    \<Rightarrow> migration list \<Rightarrow> (string \<times> bool) list \<Rightarrow> go_error + migration list" where
  "read_entries sha256 fs dir seen out [] = Inr out"
| "read_entries sha256 fs dir seen out ((name, isDir) # entries) =
     (if isDir \<or> \<not> suffix ''.sql'' name then read_entries sha256 fs dir seen out entries
      else case parseMigrationVersion name of
          Inl e \<Rightarrow> Inl e
        | Inr v \<Rightarrow> (case seen v of
            Some existing \<Rightarrow> Inl (Errorf (''postgres: duplicate migration version '' @ itoa v @ '' in '' @ go_quote existing
              @ '' and '' @ go_quote name))
          | None \<Rightarrow>
              let p = path_join [dir, name] in
              (case fs_ReadFile fs p of
                 Inl e \<Rightarrow> Inl (Wrapf (''postgres: read migration '' @ go_quote p @ '': '') e)
               | Inr sql \<Rightarrow> read_entries sha256 fs dir (seen(v \<mapsto> name))
                   (out @ [\<lparr>version = v, mig_name = name, mig_path = p, mig_sql = sql, mig_checksum = checksumSQL sha256 sql\<rparr>])
                   entries)))"

definition readMigrations :: "(byte list \<Rightarrow> byte list) \<Rightarrow> embed_fs \<Rightarrow> string \<Rightarrow> go_error + migration list" where
  "readMigrations sha256 fs dir = (case ReadDir fs dir of
      Inl e \<Rightarrow> Inl (if errors_is e ErrNotExist
        then Wrapf (''postgres: migrations directory '' @ go_quote dir @ '' does not exist: '') e
        else Wrapf (''postgres: read migrations directory '' @ go_quote dir @ '': '') e)
    | Inr entries \<Rightarrow> map_sum id sortMigrations (read_entries sha256 fs dir Map.empty [] entries))"

section \<open>Applying migrations\<close>

datatype pgarg = PgInt int | PgText string

record ('p, 'w) pg_ops =
  pgConnect :: "string \<Rightarrow> ('w, unit) io"
  conn_Close :: "'w \<Rightarrow> 'w"
  conn_Exists :: "string \<Rightarrow> string \<Rightarrow> ('w, bool) io"
  conn_Exec :: "string \<Rightarrow> ('w, unit) io"
  ParseConfig :: "string \<Rightarrow> go_error + 'p"
  set_MaxConns :: "int \<Rightarrow> 'p \<Rightarrow> 'p"
  set_MinConns :: "int \<Rightarrow> 'p \<Rightarrow> 'p"
  NewWithConfig :: "'p \<Rightarrow> ('w, unit) io"
  pool_Ping :: "('w, unit) io"
  pool_Close :: "'w \<Rightarrow> 'w"
  pool_Exec :: "string \<Rightarrow> pgarg list \<Rightarrow> ('w, unit) io"
  pool_QueryRow :: "string \<Rightarrow> pgarg list \<Rightarrow> ('w, string \<times> string) io"
  pool_Begin :: "('w, unit) io"
  pgtx_Exec :: "string \<Rightarrow> pgarg list \<Rightarrow> ('w, unit) io"
  pgtx_Commit :: "('w, unit) io"
  pgtx_Rollback :: "('w, unit) io"

definition pgErrNoRows :: go_error where "pgErrNoRows = Errorf ''no rows in result set''"

definition advisoryLockKey :: int where "advisoryLockKey = 729469221415001"

text \<open>\<^verbatim>\<open>if err != nil { return fmt.Errorf(text, err) }\<close>.\<close>

definition wrapE :: "string \<Rightarrow> ('w, 'a) io \<Rightarrow> ('w, 'a) io" where
  "wrapE msg m w = (case m w of (Inl e, w') \<Rightarrow> (Inl (Wrapf msg e), w') | (Inr a, w') \<Rightarrow> (Inr a, w'))"

text \<open>A deferred call whose result is dropped.\<close>

definition deferE :: "('w \<Rightarrow> 'w) \<Rightarrow> ('w, 'a) io \<Rightarrow> ('w, 'a) io" where
  "deferE f m w = (case m w of (r, w') \<Rightarrow> (r, f w'))"

definition checkAppliedMigration :: "migration \<Rightarrow> string \<Rightarrow> string \<Rightarrow> go_error option" where
  "checkAppliedMigration m appliedName appliedChecksum =
     (if appliedChecksum \<noteq> mig_checksum m
      then Some (Errorf (''postgres: migration checksum mismatch for version '' @ itoa (version m) @ '' ('' @ appliedName
        @ ''): applied checksum '' @ appliedChecksum @ '' differs from embedded checksum '' @ mig_checksum m))
      else None)"

definition record_statement :: string where
  "record_statement = ''INSERT INTO schema_migrations (version, name, checksum) VALUES ($1, $2, $3)''"

definition lookup_statement :: string where
  "lookup_statement = ''SELECT name, checksum FROM schema_migrations WHERE version = $1''"

definition applyMigration :: "('p, 'w) pg_ops \<Rightarrow> migration \<Rightarrow> ('w, unit) io" where
  "applyMigration ops m =
     bindE (wrapE (''postgres: begin migration '' @ mig_name m @ '': '') (pool_Begin ops)) (\<lambda>_.
     deferE (\<lambda>w. snd (pgtx_Rollback ops w))
       (bindE (wrapE (''postgres: execute migration '' @ mig_name m @ '': '') (pgtx_Exec ops (mig_sql m) [])) (\<lambda>_.
        bindE (wrapE (''postgres: record migration '' @ mig_name m @ '': '')
          (pgtx_Exec ops record_statement [PgInt (version m), PgText (mig_name m), PgText (mig_checksum m)])) (\<lambda>_.
        wrapE (''postgres: commit migration '' @ mig_name m @ '': '') (pgtx_Commit ops)))))"

fun apply_loop :: "('p, 'w) pg_ops \<Rightarrow> migration list \<Rightarrow> ('w, unit) io" where
  "apply_loop ops [] w = (Inr (), w)"
| "apply_loop ops (m # ms) w = (case pool_QueryRow ops lookup_statement [PgInt (version m)] w of
      (Inr (appliedName, appliedChecksum), w') \<Rightarrow>
        (case checkAppliedMigration m appliedName appliedChecksum of
           Some e \<Rightarrow> (Inl e, w')
         | None \<Rightarrow> apply_loop ops ms w')
    | (Inl e, w') \<Rightarrow>
        if \<not> errors_is e pgErrNoRows then (Inl (Wrapf (''postgres: check migration '' @ itoa (version m) @ '': '') e), w')
        else bindE (applyMigration ops m) (\<lambda>_. apply_loop ops ms) w')"

definition create_table_statement :: string where
  "create_table_statement = ''CREATE TABLE IF NOT EXISTS schema_migrations ('' @ [CHR 10, CHR 9, CHR 9]
     @ ''version BIGINT PRIMARY KEY,'' @ [CHR 10, CHR 9, CHR 9] @ ''name TEXT NOT NULL,'' @ [CHR 10, CHR 9, CHR 9]
     @ ''checksum TEXT NOT NULL,'' @ [CHR 10, CHR 9, CHR 9]
     @ ''applied_at TIMESTAMPTZ NOT NULL DEFAULT now()'' @ [CHR 10, CHR 9] @ '');''"

definition default_dir :: "string \<Rightarrow> string" where
  "default_dir dir = (if dir = [] then ''migrations'' else dir)"

text \<open>A nil pool or file system is \<^term>\<open>None\<close>.\<close>

definition pg_Migrate :: "(byte list \<Rightarrow> byte list) \<Rightarrow> ('p, 'w) pg_ops option \<Rightarrow> embed_fs option
    \<Rightarrow> string \<Rightarrow> ('w, unit) io" where
  "pg_Migrate sha256 pool migrationsFS migrationsDir = (case pool of
      None \<Rightarrow> failE (Errorf ''postgres: pool is nil'')
    | Some ops \<Rightarrow> (case migrationsFS of
        None \<Rightarrow> failE (Errorf ''postgres: migrations filesystem is nil'')
      | Some fs \<Rightarrow>
          bindE (wrapE ''postgres: create schema_migrations table: '' (pool_Exec ops create_table_statement [])) (\<lambda>_.
          bindE (wrapE ''postgres: acquire migration advisory lock: ''
            (pool_Exec ops ''SELECT pg_advisory_lock($1)'' [PgInt advisoryLockKey])) (\<lambda>_.
          deferE (\<lambda>w. snd (pool_Exec ops ''SELECT pg_advisory_unlock($1)'' [PgInt advisoryLockKey] w))
            (case readMigrations sha256 fs (default_dir migrationsDir) of
               Inl e \<Rightarrow> failE e
             | Inr parsed \<Rightarrow> apply_loop ops parsed)))))"

section \<open>Opening\<close>

definition EnsureDatabase :: "('p, 'w) pg_ops \<Rightarrow> pg_config \<Rightarrow> ('w, unit) io" where
  "EnsureDatabase ops cfg0 =
     (let cfg = normalizeConfig cfg0 in
      if pg_Database cfg = [] then failE (Errorf ''postgres: database is required'')
      else bindE (wrapE (''postgres: connect to admin database '' @ go_quote (AdminDatabase cfg) @ '': '')
          (pgConnect ops (connString cfg (AdminDatabase cfg)))) (\<lambda>_.
        deferE (conn_Close ops)
          (bindE (wrapE (''postgres: check database '' @ go_quote (pg_Database cfg) @ '': '')
             (conn_Exists ops ''SELECT EXISTS (SELECT 1 FROM pg_database WHERE datname = $1)'' (pg_Database cfg))) (\<lambda>exists.
           if exists then returnE ()
           else wrapE (''postgres: create database '' @ go_quote (pg_Database cfg) @ '': '')
             (conn_Exec ops (''CREATE DATABASE '' @ pg_quoteIdent (pg_Database cfg)))))))"

text \<open>\<^verbatim>\<open>pool.Close()\<close> when a step on the open pool fails.\<close>

definition or_pool_close :: "('p, 'w) pg_ops \<Rightarrow> ('w, unit) io \<Rightarrow> ('w, unit) io" where
  "or_pool_close ops m w = (case m w of (Inl e, w') \<Rightarrow> (Inl e, pool_Close ops w') | (Inr _, w') \<Rightarrow> (Inr (), w'))"

definition pg_Open :: "(byte list \<Rightarrow> byte list) \<Rightarrow> ('p, 'w) pg_ops \<Rightarrow> pg_config \<Rightarrow> embed_fs option
    \<Rightarrow> string \<Rightarrow> ('w, unit) io" where
  "pg_Open sha256 ops cfg0 migrations migrationsDir0 =
     (let cfg = normalizeConfig cfg0; migrationsDir = default_dir migrationsDir0 in
      if pg_Database cfg = [] then failE (Errorf ''postgres: database is required'')
      else bindE (if AutoCreateDatabase cfg then EnsureDatabase ops cfg else returnE ()) (\<lambda>_.
        case ParseConfig ops (connString cfg (pg_Database cfg)) of
          Inl e \<Rightarrow> failE (Wrapf ''postgres: parse pool config: '' e)
        | Inr poolConfig \<Rightarrow>
            let pc = (if 0 < MaxConns cfg then set_MaxConns ops (MaxConns cfg) poolConfig else poolConfig);
                pc = (if 0 < MinConns cfg then set_MinConns ops (MinConns cfg) pc else pc) in
            bindE (wrapE (''postgres: connect to database '' @ go_quote (pg_Database cfg) @ '': '') (NewWithConfig ops pc)) (\<lambda>_.
            bindE (or_pool_close ops (wrapE (''postgres: ping database '' @ go_quote (pg_Database cfg) @ '': '') (pool_Ping ops))) (\<lambda>_.
            if pg_AutoMigrate cfg
            then or_pool_close ops (pg_Migrate sha256 (Some ops) migrations migrationsDir)
            else returnE ()))))"

section \<open>Sorting\<close>

text \<open>Insertion from the right, on the reversed sorted part.\<close>

fun insert_right :: "migration \<Rightarrow> migration list \<Rightarrow> migration list" where
  "insert_right cur [] = [cur]"
| "insert_right cur (m # ms) = (if version m > version cur then m # insert_right cur ms else cur # m # ms)"

lemma shift_loop_insert:
  "shift_loop cur (length xs) (xs @ d # ys) = rev (insert_right cur (rev xs)) @ ys"
proof (induction xs arbitrary: d ys rule: rev_induct)
  case Nil
  then show ?case by simp
next
  case (snoc x xs)
  then show ?case by (simp add: nth_append list_update_append)
qed

lemma insert_right_mset: "mset (insert_right cur ms) = add_mset cur (mset ms)"
  by (induction ms) simp_all

lemma insert_right_sorted:
  "sorted_wrt (\<lambda>a b. version b \<le> version a) ms \<Longrightarrow> sorted_wrt (\<lambda>a b. version b \<le> version a) (insert_right cur ms)"
proof (induction ms)
  case Nil
  then show ?case by simp
next
  case (Cons m ms)
  have "set (insert_right cur ms) = insert cur (set ms)"
    using insert_right_mset [of cur ms] by (metis set_mset_add_mset_insert set_mset_mset)
  with Cons show ?case by auto
qed

text \<open>Equal versions keep their order: the new element comes after them.\<close>

lemma insert_right_stable:
  "filter (\<lambda>m. version m = k) (rev (insert_right cur ms)) = filter (\<lambda>m. version m = k) (rev ms @ [cur])"
  by (induction ms) auto

lemma sort_step:
  assumes "i < length ms" and "sorted (map version (take i ms))"
  shows "\<exists>p. shift_loop (ms ! i) i ms = p @ drop (Suc i) ms \<and> length p = Suc i \<and> sorted (map version p)
    \<and> mset p = mset (take (Suc i) ms) \<and> (\<forall>k. filter (\<lambda>m. version m = k) p = filter (\<lambda>m. version m = k) (take (Suc i) ms))"
proof -
  let ?xs = "take i ms" and ?p = "rev (insert_right (ms ! i) (rev (take i ms)))"
  have ms: "ms = ?xs @ ms ! i # drop (Suc i) ms" using assms(1) by (simp add: id_take_nth_drop)
  have "shift_loop (ms ! i) i ms = ?p @ drop (Suc i) ms"
    using shift_loop_insert [of "ms ! i" ?xs "ms ! i" "drop (Suc i) ms"] assms(1) ms by simp
  moreover have m: "mset ?p = mset (take (Suc i) ms)"
    using assms(1) by (simp add: insert_right_mset take_Suc_conv_app_nth)
  moreover have "length ?p = Suc i" using mset_eq_length [OF m] assms(1) by simp
  moreover have "sorted (map version ?p)"
    using insert_right_sorted [of "rev ?xs" "ms ! i"] assms(2) by (simp add: sorted_wrt_rev sorted_wrt_map)
  moreover have "filter (\<lambda>m. version m = k) ?p = filter (\<lambda>m. version m = k) (take (Suc i) ms)" for k
    unfolding insert_right_stable using assms(1) by (simp add: take_Suc_conv_app_nth)
  ultimately show ?thesis by blast
qed

lemma sort_prefix:
  assumes "n < length ms"
  defines "r \<equiv> fold (\<lambda>i ms. shift_loop (ms ! i) i ms) [1..<Suc n] ms"
  shows "\<exists>p. r = p @ drop (Suc n) ms \<and> length p = Suc n \<and> sorted (map version p)
    \<and> mset p = mset (take (Suc n) ms) \<and> (\<forall>k. filter (\<lambda>m. version m = k) p = filter (\<lambda>m. version m = k) (take (Suc n) ms))"
  using assms(1) unfolding r_def
proof (induction n)
  case 0
  then show ?case by (intro exI [of _ "take 1 ms"]) (cases ms, simp_all)
next
  case (Suc n)
  let ?r = "fold (\<lambda>i ms. shift_loop (ms ! i) i ms) [1..<Suc n] ms"
  from Suc obtain p where p: "?r = p @ drop (Suc n) ms" "length p = Suc n" "sorted (map version p)"
    "mset p = mset (take (Suc n) ms)" "\<And>k. filter (\<lambda>m. version m = k) p = filter (\<lambda>m. version m = k) (take (Suc n) ms)"
    by (meson Suc_lessD)
  have l: "length ?r = length ms" using p(1,2) Suc.prems by simp
  have tk: "take (Suc (Suc n)) ?r = p @ [ms ! Suc n]"
    using p(1,2) Suc.prems by (simp add: take_Suc_conv_app_nth Cons_nth_drop_Suc [symmetric])
  have "sorted (map version (take (Suc n) ?r))" using p by simp
  from sort_step [OF _ this] l Suc.prems obtain q where q: "shift_loop (?r ! Suc n) (Suc n) ?r = q @ drop (Suc (Suc n)) ?r"
    "length q = Suc (Suc n)" "sorted (map version q)" "mset q = mset (take (Suc (Suc n)) ?r)"
    "\<And>k. filter (\<lambda>m. version m = k) q = filter (\<lambda>m. version m = k) (take (Suc (Suc n)) ?r)"
    by auto
  have "drop (Suc (Suc n)) ?r = drop (Suc (Suc n)) ms" using p(1,2) by simp
  with q tk p(4,5) Suc.prems show ?case
    by (intro exI [of _ q]) (simp add: take_Suc_conv_app_nth)
qed

lemma sortMigrations_sorts: "sortMigrations ms = sort_key version ms"
proof (cases ms)
  case Nil
  then show ?thesis by (simp add: sortMigrations_def)
next
  case (Cons m ms')
  then have "length ms - 1 < length ms" "Suc (length ms - 1) = length ms" by simp_all
  with sort_prefix [of "length ms - 1" ms] have "sorted (map version (sortMigrations ms))"
    "mset (sortMigrations ms) = mset ms" "\<And>k. filter (\<lambda>m. version m = k) (sortMigrations ms) = filter (\<lambda>m. version m = k) ms"
    by (auto simp: sortMigrations_def simp del: upt_Suc)
  then show ?thesis
    by (intro properties_for_sort_key [symmetric]) (simp_all add: eq_commute)
qed

text \<open>
  C27: the in-place insertion sort of the migrations is the stable sort by version.
\<close>

theorem sortMigrations_is_sort_key: "sortMigrations = sort_key version"
  by (rule ext) (rule sortMigrations_sorts)

definition well_read :: "(byte list \<Rightarrow> byte list) \<Rightarrow> embed_fs \<Rightarrow> string \<Rightarrow> migration \<Rightarrow> bool" where
  "well_read sha256 fs dir m \<longleftrightarrow> 0 < version m \<and> parseMigrationVersion (mig_name m) = Inr (version m)
     \<and> suffix ''.sql'' (mig_name m) \<and> fs_ReadFile fs (path_join [dir, mig_name m]) = Inr (mig_sql m)
     \<and> mig_checksum m = checksumSQL sha256 (mig_sql m)"

lemma parseMigrationVersion_pos: "parseMigrationVersion name = Inr v \<Longrightarrow> 0 < v"
  by (auto simp: parseMigrationVersion_def Let_def split: prod.splits if_splits option.splits)

lemma read_entries_invariant:
  assumes "read_entries sha256 fs dir seen out entries = Inr out'"
    and "dom seen = version ` set out" and "distinct (map version out)" and "list_all (well_read sha256 fs dir) out"
  shows "distinct (map version out') \<and> list_all (well_read sha256 fs dir) out'"
  using assms
proof (induction entries arbitrary: seen out)
  case Nil
  then show ?case by simp
next
  case (Cons entry entries)
  obtain name isDir where e: "entry = (name, isDir)" by fastforce
  show ?case
  proof (cases "isDir \<or> \<not> suffix ''.sql'' name")
    case True
    with Cons e show ?thesis by simp
  next
    case False
    with Cons.prems(1) e obtain v sql where v: "parseMigrationVersion name = Inr v" "seen v = None"
      "fs_ReadFile fs (path_join [dir, name]) = Inr sql"
      by (auto simp: Let_def split: sum.splits option.splits)
    let ?m = "\<lparr>version = v, mig_name = name, mig_path = path_join [dir, name], mig_sql = sql, mig_checksum = checksumSQL sha256 sql\<rparr>"
    have step: "read_entries sha256 fs dir (seen(v \<mapsto> name)) (out @ [?m]) entries = Inr out'"
      using Cons.prems(1) e False v by (simp add: Let_def)
    have dom: "dom (seen(v \<mapsto> name)) = version ` set (out @ [?m])" using Cons.prems(2) by simp
    have "v \<notin> version ` set out" using v(2) Cons.prems(2) by (metis domIff)
    moreover have "well_read sha256 fs dir ?m"
      using v False parseMigrationVersion_pos [OF v(1)] by (simp add: well_read_def)
    ultimately show ?thesis using Cons.IH [OF step dom] Cons.prems(3,4) by simp
  qed
qed

text \<open>
  The migrations read from the embedded files are in strictly increasing order of their versions,
  which are positive and are the numeric prefixes of the file names; text and checksum are those of the
  file.
\<close>

theorem migrations_read_in_order:
  assumes "readMigrations sha256 fs dir = Inr ms"
  shows "sorted_wrt (<) (map version ms) \<and> list_all (well_read sha256 fs dir) ms"
proof -
  from assms obtain out entries where o: "read_entries sha256 fs dir Map.empty [] entries = Inr out" "ms = sort_key version out"
    by (auto simp: readMigrations_def sortMigrations_sorts map_sum_def split: sum.splits)
  from read_entries_invariant [OF o(1)] have "distinct (map version out)" "list_all (well_read sha256 fs dir) out" by simp_all
  moreover have "distinct (map version ms) \<longleftrightarrow> distinct (map version out)"
    unfolding o(2) by (metis distinct_map distinct_sort set_sort)
  ultimately show ?thesis
    unfolding o(2) by (simp add: strict_sorted_iff list_all_iff)
qed

section \<open>The migrations against a server\<close>

text \<open>
  What pgx and the server provide: \<open>schema\<close> is the committed state, \<open>applied\<close> the table
  \<^verbatim>\<open>schema_migrations\<close> in it, \<open>run_sql\<close> and \<open>record_row\<close> the effect of the statements of a migration.
\<close>

record ('w, 's) pg_view =
  schema :: "'w \<Rightarrow> 's"
  tx_schema :: "'w \<Rightarrow> 's"
  pg_in_tx :: "'w \<Rightarrow> bool"
  applied :: "'s \<Rightarrow> int \<rightharpoonup> string \<times> string"
  run_sql :: "string \<Rightarrow> 's \<Rightarrow> 's"
  record_row :: "int \<Rightarrow> string \<Rightarrow> string \<Rightarrow> 's \<Rightarrow> 's"

definition same_state :: "('w, 's) pg_view \<Rightarrow> 'w \<Rightarrow> 'w \<Rightarrow> bool" where
  "same_state v w w' \<longleftrightarrow> schema v w' = schema v w \<and> pg_in_tx v w' = pg_in_tx v w"

definition pool_contract :: "('p, 'w) pg_ops \<Rightarrow> ('w, 's) pg_view \<Rightarrow> bool" where
  "pool_contract ops v \<longleftrightarrow>
     (\<forall>q args w. q \<in> {create_table_statement, ''SELECT pg_advisory_lock($1)'', ''SELECT pg_advisory_unlock($1)''} \<longrightarrow>
        same_state v w (snd (pool_Exec ops q args w)))
   \<and> (\<forall>k w r w'. pool_QueryRow ops lookup_statement [PgInt k] w = (r, w') \<longrightarrow> same_state v w w'
        \<and> (\<forall>row. r = Inr row \<longrightarrow> applied v (schema v w) k = Some row)
        \<and> (\<forall>e. r = Inl e \<and> errors_is e pgErrNoRows \<longrightarrow> applied v (schema v w) k = None))"

definition begins_pg :: "('p, 'w) pg_ops \<Rightarrow> ('w, 's) pg_view \<Rightarrow> bool" where
  "begins_pg ops v \<longleftrightarrow> (\<forall>w r w'. pool_Begin ops w = (r, w') \<longrightarrow> schema v w' = schema v w
     \<and> (r = Inr () \<longrightarrow> pg_in_tx v w' \<and> tx_schema v w' = schema v w) \<and> (r \<noteq> Inr () \<longrightarrow> pg_in_tx v w' = pg_in_tx v w))"

definition runs_pg :: "('p, 'w) pg_ops \<Rightarrow> ('w, 's) pg_view \<Rightarrow> bool" where
  "runs_pg ops v \<longleftrightarrow> (\<forall>q w r w'. pg_in_tx v w \<longrightarrow> pgtx_Exec ops q [] w = (r, w') \<longrightarrow> schema v w' = schema v w
     \<and> pg_in_tx v w' \<and> (r = Inr () \<longrightarrow> tx_schema v w' = run_sql v q (tx_schema v w)))"

definition records_pg :: "('p, 'w) pg_ops \<Rightarrow> ('w, 's) pg_view \<Rightarrow> bool" where
  "records_pg ops v \<longleftrightarrow> (\<forall>k n c w r w'. pg_in_tx v w \<longrightarrow>
     pgtx_Exec ops record_statement [PgInt k, PgText n, PgText c] w = (r, w') \<longrightarrow>
     schema v w' = schema v w \<and> pg_in_tx v w' \<and> (r = Inr () \<longrightarrow> tx_schema v w' = record_row v k n c (tx_schema v w)))"

definition ends_pg :: "('p, 'w) pg_ops \<Rightarrow> ('w, 's) pg_view \<Rightarrow> bool" where
  "ends_pg ops v \<longleftrightarrow> (\<forall>w r w'. pg_in_tx v w \<longrightarrow> pgtx_Commit ops w = (r, w') \<longrightarrow> \<not> pg_in_tx v w'
        \<and> (r = Inr () \<longrightarrow> schema v w' = tx_schema v w) \<and> (r \<noteq> Inr () \<longrightarrow> schema v w' = schema v w))
   \<and> (\<forall>w. \<not> pg_in_tx v (snd (pgtx_Rollback ops w)) \<and> schema v (snd (pgtx_Rollback ops w)) = schema v w)"

definition pg_contract :: "('p, 'w) pg_ops \<Rightarrow> ('w, 's) pg_view \<Rightarrow> bool" where
  "pg_contract ops v \<longleftrightarrow> pool_contract ops v \<and> begins_pg ops v \<and> runs_pg ops v \<and> records_pg ops v \<and> ends_pg ops v"

text \<open>The specification: one migration after the other; a changed checksum stops it.\<close>

fun migrate_spec :: "('w, 's) pg_view \<Rightarrow> migration list \<Rightarrow> 's \<Rightarrow> 's option" where
  "migrate_spec v [] s = Some s"
| "migrate_spec v (m # ms) s = (case applied v s (version m) of
      Some (_, c) \<Rightarrow> if c \<noteq> mig_checksum m then None else migrate_spec v ms s
    | None \<Rightarrow> migrate_spec v ms (record_row v (version m) (mig_name m) (mig_checksum m) (run_sql v (mig_sql m) s)))"

lemma wrapE_eq: "wrapE msg m w = (r, w') \<Longrightarrow> \<exists>r'. m w = (r', w') \<and> (r = Inr a \<longleftrightarrow> r' = Inr a)"
  by (auto simp: wrapE_def split: prod.splits sum.splits)

text \<open>The transaction of one migration: all of it or nothing, and closed in both cases.\<close>

lemma applyMigration_atomic:
  assumes c: "pg_contract ops v" and "applyMigration ops m w = (r, w')" and "\<not> pg_in_tx v w"
  shows "\<not> pg_in_tx v w' \<and> schema v w' = (if r = Inr ()
    then record_row v (version m) (mig_name m) (mig_checksum m) (run_sql v (mig_sql m) (schema v w)) else schema v w)"
proof -
  have laws: "begins_pg ops v" "runs_pg ops v" "records_pg ops v" "ends_pg ops v" using c by (simp_all add: pg_contract_def)
  note begin_law = laws(1) [unfolded begins_pg_def, rule_format]
    and sql_law = laws(2) [unfolded runs_pg_def, rule_format]
    and record_law = laws(3) [unfolded records_pg_def, rule_format]
    and commit_law = conjunct1 [OF laws(4) [unfolded ends_pg_def], rule_format]
    and rollback_law = conjunct2 [OF laws(4) [unfolded ends_pg_def], rule_format]
  obtain r1 w1 where b: "pool_Begin ops w = (r1, w1)" by fastforce
  obtain r2 w2 where s: "pgtx_Exec ops (mig_sql m) [] w1 = (r2, w2)" by fastforce
  obtain r3 w3 where i: "pgtx_Exec ops record_statement [PgInt (version m), PgText (mig_name m), PgText (mig_checksum m)] w2 = (r3, w3)"
    by fastforce
  obtain r4 w4 where k: "pgtx_Commit ops w3 = (r4, w4)" by fastforce
  show ?thesis
    using assms(2,3) begin_law [OF b] sql_law [OF _ s] record_law [OF _ i] commit_law [OF _ k] rollback_law b s i k
    by (cases r1; cases r2; cases r3; cases r4) (auto simp: applyMigration_def bindE_def wrapE_def deferE_def)
qed

lemma same_state_trans: "same_state v w w' \<Longrightarrow> same_state v w' w'' \<Longrightarrow> same_state v w w''"
  by (simp add: same_state_def)

definition refines_spec :: "('w, 's) pg_view \<Rightarrow> migration list \<Rightarrow> 'w \<Rightarrow> (go_error + unit) \<times> 'w \<Rightarrow> bool" where
  "refines_spec v ms w res \<longleftrightarrow> \<not> pg_in_tx v (snd res)
     \<and> (if fst res = Inr () then migrate_spec v ms (schema v w) = Some (schema v (snd res))
        else \<exists>n. migrate_spec v (take n ms) (schema v w) = Some (schema v (snd res)))"

lemma refines_spec_stop: "\<not> pg_in_tx v w' \<Longrightarrow> schema v w' = schema v w \<Longrightarrow> refines_spec v ms w (Inl e, w')"
  by (auto simp: refines_spec_def intro!: exI [of _ 0])

lemma refines_spec_Cons:
  assumes "refines_spec v ms w1 res"
    and "\<And>n. migrate_spec v (m # take n ms) (schema v w) = migrate_spec v (take n ms) (schema v w1)"
  shows "refines_spec v (m # ms) w res"
proof -
  have "migrate_spec v (m # ms) (schema v w) = migrate_spec v ms (schema v w1)" using assms(2) [of "length ms"] by simp
  moreover have "migrate_spec v (take (Suc n) (m # ms)) (schema v w) = migrate_spec v (take n ms) (schema v w1)" for n
    using assms(2) by simp
  ultimately show ?thesis using assms(1) unfolding refines_spec_def by (metis (no_types, lifting))
qed

lemma lookup_law:
  assumes "pg_contract ops v" and "pool_QueryRow ops lookup_statement [PgInt k] w = (r, w1)" and "\<not> pg_in_tx v w"
  shows "\<not> pg_in_tx v w1" and "schema v w1 = schema v w" and "r = Inr row \<Longrightarrow> applied v (schema v w) k = Some row"
    and "r = Inl e \<Longrightarrow> errors_is e pgErrNoRows \<Longrightarrow> applied v (schema v w) k = None"
proof -
  have "pool_contract ops v" using assms(1) by (simp add: pg_contract_def)
  from conjunct2 [OF this [unfolded pool_contract_def], rule_format, OF assms(2)] assms(3)
  show "\<not> pg_in_tx v w1" "schema v w1 = schema v w" "r = Inr row \<Longrightarrow> applied v (schema v w) k = Some row"
    "r = Inl e \<Longrightarrow> errors_is e pgErrNoRows \<Longrightarrow> applied v (schema v w) k = None"
    by (simp_all add: same_state_def)
qed

text \<open>A migration that is not recorded yet.\<close>

lemma new_migration_refines:
  assumes c: "pg_contract ops v" and w1: "\<not> pg_in_tx v w1" "schema v w1 = schema v w"
    and new: "applied v (schema v w) (version m) = None"
    and IH: "\<And>w. \<not> pg_in_tx v w \<Longrightarrow> refines_spec v ms w (apply_loop ops ms w)"
  shows "refines_spec v (m # ms) w (bindE (applyMigration ops m) (\<lambda>_. apply_loop ops ms) w1)"
proof -
  obtain r2 w2 where a: "applyMigration ops m w1 = (r2, w2)" by fastforce
  note atomic = applyMigration_atomic [OF c a w1(1)]
  show ?thesis
  proof (cases r2)
    case (Inl e)
    with a atomic w1 show ?thesis by (simp add: bindE_def refines_spec_stop)
  next
    case (Inr u)
    with a atomic w1 new show ?thesis by (auto simp: bindE_def intro!: refines_spec_Cons [OF IH])
  qed
qed

lemma apply_loop_refines:
  assumes c: "pg_contract ops v"
  shows "\<not> pg_in_tx v w \<Longrightarrow> refines_spec v ms w (apply_loop ops ms w)"
proof (induction ms arbitrary: w)
  case Nil
  then show ?case by (simp add: refines_spec_def)
next
  case (Cons m ms)
  obtain r w1 where q: "pool_QueryRow ops lookup_statement [PgInt (version m)] w = (r, w1)" by fastforce
  note law = lookup_law [OF c q Cons.prems]
  show ?case
  proof (cases r)
    case (Inr row)
    obtain nm ck where row: "row = (nm, ck)" by fastforce
    show ?thesis
    proof (cases "ck = mig_checksum m")
      case True
      with q Inr row have "apply_loop ops (m # ms) w = apply_loop ops ms w1" by (simp add: checkAppliedMigration_def)
      with law(1-3) Inr row True show ?thesis by (auto intro!: refines_spec_Cons [OF Cons.IH])
    next
      case False
      with q Inr row law(1,2) show ?thesis by (simp add: checkAppliedMigration_def refines_spec_stop)
    qed
  next
    case (Inl e)
    show ?thesis
    proof (cases "errors_is e pgErrNoRows")
      case False
      with q Inl law(1,2) show ?thesis by (simp add: refines_spec_stop)
    next
      case True
      with q Inl new_migration_refines [OF c law(1,2) law(4) [OF Inl True] Cons.IH] show ?thesis by simp
    qed
  qed
qed

lemma pg_Migrate_refines:
  assumes c: "pg_contract ops v" and "\<not> pg_in_tx v w"
    and "readMigrations sha256 fs (default_dir dir) = Inr ms"
  shows "refines_spec v ms w (pg_Migrate sha256 (Some ops) (Some fs) dir w)"
proof -
  have keep: "pool_Exec ops q args w = (r, w') \<Longrightarrow>
      q \<in> {create_table_statement, ''SELECT pg_advisory_lock($1)'', ''SELECT pg_advisory_unlock($1)''} \<Longrightarrow>
      same_state v w w'" for q args w r w'
  proof -
    assume x: "pool_Exec ops q args w = (r, w')" and
      q: "q \<in> {create_table_statement, ''SELECT pg_advisory_lock($1)'', ''SELECT pg_advisory_unlock($1)''}"
    have "pool_contract ops v" using c by (simp add: pg_contract_def)
    from conjunct1 [OF this [unfolded pool_contract_def], rule_format, OF q, of w args] x show ?thesis by simp
  qed
  obtain r1 w1 where a: "pool_Exec ops create_table_statement [] w = (r1, w1)" by fastforce
  obtain r2 w2 where b: "pool_Exec ops ''SELECT pg_advisory_lock($1)'' [PgInt advisoryLockKey] w1 = (r2, w2)" by fastforce
  obtain r3 w3 where l: "apply_loop ops ms w2 = (r3, w3)" by fastforce
  obtain r4 w4 where u: "pool_Exec ops ''SELECT pg_advisory_unlock($1)'' [PgInt advisoryLockKey] w3 = (r4, w4)" by fastforce
  have s: "same_state v w w1" "same_state v w1 w2" "same_state v w3 w4"
    using keep [OF a] keep [OF b] keep [OF u] by simp_all
  then have w: "\<not> pg_in_tx v w1" "schema v w1 = schema v w" "\<not> pg_in_tx v w2" "schema v w2 = schema v w"
    using assms(2) by (simp_all add: same_state_def)
  from apply_loop_refines [OF c w(3), of ms] have "refines_spec v ms w (r3, w4)"
    using l w(4) s(3) by (simp add: refines_spec_def same_state_def split: if_splits)
  with a b l u assms(3) w show ?thesis
    by (cases r1; cases r2) (simp_all add: pg_Migrate_def bindE_def wrapE_def deferE_def refines_spec_stop)
qed

text \<open>
  C4: \<^verbatim>\<open>Migrate\<close> refines the specification. On a server that keeps the documented contracts it leaves no
  transaction open; when it succeeds the schema is the one the specification computes, every pending
  migration applied once and recorded, in order; when it fails, for whatever reason, the schema is that
  of a prefix of the migrations: no migration is half applied and none is applied after a failed one.
\<close>

theorem pg_migrate_refines_spec:
  assumes "pg_contract ops v" and "\<not> pg_in_tx v w"
    and "readMigrations sha256 fs (default_dir dir) = Inr ms"
  shows "refines_spec v ms w (pg_Migrate sha256 (Some ops) (Some fs) dir w)"
  using assms by (rule pg_Migrate_refines)

text \<open>A server in memory; one statement deletes the records of the migrations.\<close>

definition pgmem_run :: "string \<Rightarrow> (int \<times> string \<times> string) list \<times> string list \<Rightarrow> (int \<times> string \<times> string) list \<times> string list" where
  "pgmem_run q s = (if q = ''DELETE FROM schema_migrations'' then [] else fst s, snd s @ [q])"

record pg_mem =
  mem_schema :: "(int \<times> string \<times> string) list \<times> string list"
  mem_tx :: "((int \<times> string \<times> string) list \<times> string list) option"

definition pgmem_exec :: "string \<Rightarrow> pgarg list \<Rightarrow> pg_mem \<Rightarrow> (go_error + unit) \<times> pg_mem" where
  "pgmem_exec q args w = (case mem_tx w of
      None \<Rightarrow> (Inl (Errorf ''no transaction''), w)
    | Some (rows, log) \<Rightarrow> (case args of
        [] \<Rightarrow> if q = ''BAD'' then (Inl (Errorf ''syntax error''), w) else (Inr (), w\<lparr>mem_tx := Some (pgmem_run q (rows, log))\<rparr>)
      | [PgInt k, PgText n, PgText c] \<Rightarrow> (Inr (), w\<lparr>mem_tx := Some ((k, n, c) # rows, log)\<rparr>)
      | _ \<Rightarrow> (Inl (Errorf ''bad arguments''), w)))"

definition pgmem_ops :: "(unit, pg_mem) pg_ops" where
  "pgmem_ops = \<lparr>pgConnect = (\<lambda>_ w. (Inr (), w)), conn_Close = (\<lambda>w. w), conn_Exists = (\<lambda>_ _ w. (Inr True, w)),
     conn_Exec = (\<lambda>_ w. (Inr (), w)), ParseConfig = (\<lambda>_. Inr ()), set_MaxConns = (\<lambda>_ p. p), set_MinConns = (\<lambda>_ p. p),
     NewWithConfig = (\<lambda>_ w. (Inr (), w)), pool_Ping = (\<lambda>w. (Inr (), w)), pool_Close = (\<lambda>w. w),
     pool_Exec = (\<lambda>_ _ w. (Inr (), w)),
     pool_QueryRow = (\<lambda>q args w. case args of
         [PgInt k] \<Rightarrow> (case map_of (fst (mem_schema w)) k of None \<Rightarrow> (Inl pgErrNoRows, w) | Some row \<Rightarrow> (Inr row, w))
       | _ \<Rightarrow> (Inl (Errorf ''bad arguments''), w)),
     pool_Begin = (\<lambda>w. (Inr (), w\<lparr>mem_tx := Some (mem_schema w)\<rparr>)),
     pgtx_Exec = pgmem_exec,
     pgtx_Commit = (\<lambda>w. (Inr (), w\<lparr>mem_schema := (case mem_tx w of None \<Rightarrow> mem_schema w | Some s \<Rightarrow> s), mem_tx := None\<rparr>)),
     pgtx_Rollback = (\<lambda>w. (Inr (), w\<lparr>mem_tx := None\<rparr>))\<rparr>"

definition pgmem_view :: "(pg_mem, (int \<times> string \<times> string) list \<times> string list) pg_view" where
  "pgmem_view = \<lparr>schema = mem_schema, tx_schema = (\<lambda>w. case mem_tx w of None \<Rightarrow> ([], []) | Some s \<Rightarrow> s),
     pg_in_tx = (\<lambda>w. mem_tx w \<noteq> None), applied = (\<lambda>s. map_of (fst s)), run_sql = pgmem_run,
     record_row = (\<lambda>k n c (rows, log). ((k, n, c) # rows, log))\<rparr>"

definition pgmem_empty :: pg_mem where
  "pgmem_empty = \<lparr>mem_schema = ([], []), mem_tx = None\<rparr>"

lemma pgmem_contract: "pg_contract pgmem_ops pgmem_view"
  unfolding pg_contract_def
proof (intro conjI)
  show "pool_contract pgmem_ops pgmem_view"
    by (auto simp: pool_contract_def pgmem_ops_def pgmem_view_def same_state_def pgErrNoRows_def split: option.splits)
  show "begins_pg pgmem_ops pgmem_view" by (auto simp: begins_pg_def pgmem_ops_def pgmem_view_def)
  show "runs_pg pgmem_ops pgmem_view"
    by (auto simp: runs_pg_def pgmem_ops_def pgmem_view_def pgmem_exec_def split: if_splits)
  show "records_pg pgmem_ops pgmem_view"
    by (auto simp: records_pg_def pgmem_ops_def pgmem_view_def pgmem_exec_def)
  show "ends_pg pgmem_ops pgmem_view" by (auto simp: ends_pg_def pgmem_ops_def pgmem_view_def)
qed

text \<open>Two files, in the order a directory lists them.\<close>

definition sample_fs :: embed_fs where
  "sample_fs = \<lparr>ReadDir = (\<lambda>_. Inr [(''10_b.sql'', False), (''2_a.sql'', False), (''notes.txt'', False)]),
     fs_ReadFile = (\<lambda>p. if p = ''migrations/2_a.sql'' then Inr ''CREATE a'' else Inr ''CREATE b'')\<rparr>"

definition sample_migrations :: "migration list" where
  "sample_migrations =
     [\<lparr>version = 2, mig_name = ''2_a.sql'', mig_path = ''migrations/2_a.sql'', mig_sql = ''CREATE a'', mig_checksum = ''435245415445''\<rparr>,
      \<lparr>version = 10, mig_name = ''10_b.sql'', mig_path = ''migrations/10_b.sql'', mig_sql = ''CREATE b'', mig_checksum = ''435245415445''\<rparr>]"

lemma sample_read: "readMigrations (take 6) sample_fs ''migrations'' = Inr sample_migrations"
  by code_simp

theorem migrations_read_in_order_witness:
  "readMigrations (take 6) sample_fs ''migrations'' = Inr sample_migrations
   \<and> sorted_wrt (<) (map version sample_migrations) \<and> list_all (well_read (take 6) sample_fs ''migrations'') sample_migrations"
  using sample_read migrations_read_in_order [OF sample_read] by blast

theorem pg_migrate_refines_spec_witness:
  "pg_contract pgmem_ops pgmem_view \<and> \<not> pg_in_tx pgmem_view pgmem_empty
   \<and> fst (pg_Migrate (take 6) (Some pgmem_ops) (Some sample_fs) [] pgmem_empty) = Inr ()
   \<and> migrate_spec pgmem_view sample_migrations ([], [])
     = Some (mem_schema (snd (pg_Migrate (take 6) (Some pgmem_ops) (Some sample_fs) [] pgmem_empty)))"
proof -
  have i: "\<not> pg_in_tx pgmem_view pgmem_empty" by (simp add: pgmem_view_def pgmem_empty_def)
  have r: "fst (pg_Migrate (take 6) (Some pgmem_ops) (Some sample_fs) [] pgmem_empty) = Inr ()" by code_simp
  have "readMigrations (take 6) sample_fs (default_dir []) = Inr sample_migrations"
    using sample_read by (simp add: default_dir_def)
  from pg_migrate_refines_spec [OF pgmem_contract i this] r i show ?thesis
    by (simp add: refines_spec_def pgmem_contract) (simp add: pgmem_view_def pgmem_empty_def)
qed

section \<open>Running again\<close>

text \<open>
  The statements of these migrations leave the table \<^verbatim>\<open>schema_migrations\<close> alone; other statements need not. The
  insertion of a new version adds its row and nothing else.
\<close>

definition spares_records :: "('w, 's) pg_view \<Rightarrow> migration list \<Rightarrow> bool" where
  "spares_records v ms \<longleftrightarrow> (\<forall>m \<in> set ms. \<forall>s. applied v (run_sql v (mig_sql m) s) = applied v s)"

definition inserts_row :: "('w, 's) pg_view \<Rightarrow> bool" where
  "inserts_row v \<longleftrightarrow>
     (\<forall>k n c s. applied v s k = None \<longrightarrow> applied v (record_row v k n c s) = (applied v s)(k \<mapsto> (n, c)))"

text \<open>The migrations are recorded with their checksums.\<close>

definition up_to_date :: "('w, 's) pg_view \<Rightarrow> migration list \<Rightarrow> 's \<Rightarrow> bool" where
  "up_to_date v ms s \<longleftrightarrow> list_all (\<lambda>m. \<exists>n. applied v s (version m) = Some (n, mig_checksum m)) ms"

lemma migrated_rows:
  assumes "spares_records v ms" and "inserts_row v" and "m \<in> set ms" and "applied v s (version m) = None"
  shows "applied v (record_row v (version m) (mig_name m) (mig_checksum m) (run_sql v (mig_sql m) s))
    = (applied v s)(version m \<mapsto> (mig_name m, mig_checksum m))"
proof -
  have same: "applied v (run_sql v (mig_sql m) s) = applied v s" using assms(1,3) unfolding spares_records_def by blast
  from assms(2) [unfolded inserts_row_def, rule_format, of "run_sql v (mig_sql m) s" "version m"] assms(4)
  show ?thesis unfolding same by blast
qed

lemma migrate_spec_keeps_rows:
  assumes "inserts_row v"
  shows "spares_records v ms \<Longrightarrow> migrate_spec v ms s = Some s' \<Longrightarrow> applied v s k = Some row \<Longrightarrow> applied v s' k = Some row"
proof (induction ms arbitrary: s)
  case Nil
  then show ?case by simp
next
  case (Cons m ms)
  have rest: "spares_records v ms" using Cons.prems(1) by (simp add: spares_records_def)
  show ?case
  proof (cases "applied v s (version m)")
    case None
    then have "k \<noteq> version m" using Cons.prems(3) by auto
    with None migrated_rows [OF Cons.prems(1) assms, of m s] Cons.prems(2,3) Cons.IH [OF rest] show ?thesis by simp
  next
    case (Some r)
    with Cons rest show ?thesis by (auto split: if_splits prod.splits)
  qed
qed

lemma migrate_spec_up_to_date:
  assumes "inserts_row v"
  shows "spares_records v ms \<Longrightarrow> migrate_spec v ms s = Some s' \<Longrightarrow> up_to_date v ms s'"
proof (induction ms arbitrary: s)
  case Nil
  then show ?case by (simp add: up_to_date_def)
next
  case (Cons m ms)
  have rest: "spares_records v ms" using Cons.prems(1) by (simp add: spares_records_def)
  show ?case
  proof (cases "applied v s (version m)")
    case None
    with migrated_rows [OF Cons.prems(1) assms, of m s] Cons rest
      migrate_spec_keeps_rows [OF assms rest, of "record_row v (version m) (mig_name m) (mig_checksum m) (run_sql v (mig_sql m) s)" s' "version m"]
    show ?thesis by (simp add: up_to_date_def)
  next
    case (Some r)
    with Cons rest migrate_spec_keeps_rows [OF assms rest, of s s' "version m"] show ?thesis
      by (auto simp: up_to_date_def split: if_splits prod.splits)
  qed
qed

lemma migrate_spec_noop: "up_to_date v ms s \<Longrightarrow> migrate_spec v ms s = Some s"
  by (induction ms) (auto simp: up_to_date_def)

text \<open>
  C26: running the migrations again is harmless, provided that the statements of these migrations leave the table
  \<^verbatim>\<open>schema_migrations\<close> alone: after a successful \<^verbatim>\<open>Migrate\<close> every migration is recorded with its checksum, and
  another run with the same files leaves the schema as it is, whether it succeeds or fails.
\<close>

theorem pg_migrate_rerun_is_noop:
  assumes c: "pg_contract ops v" "inserts_row v" and "\<not> pg_in_tx v w" and spares: "spares_records v ms"
    and ms: "readMigrations sha256 fs (default_dir dir) = Inr ms"
    and run: "pg_Migrate sha256 (Some ops) (Some fs) dir w = (Inr (), w')"
  shows "up_to_date v ms (schema v w') \<and> schema v (snd (pg_Migrate sha256 (Some ops) (Some fs) dir w')) = schema v w'"
proof -
  from pg_Migrate_refines [OF c(1) assms(3) ms] run
  have s: "migrate_spec v ms (schema v w) = Some (schema v w')" and i: "\<not> pg_in_tx v w'"
    by (simp_all add: refines_spec_def)
  note up = migrate_spec_up_to_date [OF c(2) spares s]
  then have "up_to_date v (take n ms) (schema v w')" for n
    by (auto simp: up_to_date_def list_all_iff dest: in_set_takeD)
  with pg_Migrate_refines [OF c(1) i ms] up show ?thesis
    by (auto simp: refines_spec_def migrate_spec_noop split: if_splits)
qed

theorem pg_migrate_rerun_is_noop_witness:
  "pg_contract pgmem_ops pgmem_view \<and> inserts_row pgmem_view \<and> spares_records pgmem_view sample_migrations
   \<and> (case pg_Migrate (take 6) (Some pgmem_ops) (Some sample_fs) [] pgmem_empty of (r, w) \<Rightarrow> r = Inr ()
       \<and> up_to_date pgmem_view sample_migrations (schema pgmem_view w)
       \<and> schema pgmem_view (snd (pg_Migrate (take 6) (Some pgmem_ops) (Some sample_fs) [] w)) = schema pgmem_view w)"
proof -
  have i: "\<not> pg_in_tx pgmem_view pgmem_empty" by (simp add: pgmem_view_def pgmem_empty_def)
  have k: "inserts_row pgmem_view" by (auto simp: inserts_row_def pgmem_view_def split: prod.splits)
  have p: "spares_records pgmem_view sample_migrations"
    by (simp add: spares_records_def sample_migrations_def pgmem_view_def pgmem_run_def)
  have ms: "readMigrations (take 6) sample_fs (default_dir []) = Inr sample_migrations"
    using sample_read by (simp add: default_dir_def)
  have "fst (pg_Migrate (take 6) (Some pgmem_ops) (Some sample_fs) [] pgmem_empty) = Inr ()" by code_simp
  then obtain w where r: "pg_Migrate (take 6) (Some pgmem_ops) (Some sample_fs) [] pgmem_empty = (Inr (), w)"
    by (metis prod.collapse)
  from pg_migrate_rerun_is_noop [OF pgmem_contract k i p ms r] r k p pgmem_contract show ?thesis by simp
qed

section \<open>Creating the database\<close>

lemma lex_quoted_doubled:
  "sep_start rest \<Longrightarrow> lex_quoted (replace_char (CHR 34) [CHR 34, CHR 34] name @ CHR 34 # rest) = Some (name, rest)"
  by (induction name) (auto simp: replace_char_def sep_start_def split: list.split)

text \<open>
  Whatever the name of the database, the statement that creates it consists of two keywords and one
  quoted identifier that stands for exactly that name; quotes in the name are doubled and cannot end the
  identifier.
\<close>

theorem create_database_statement_fixed:
  "sql_tokens (''CREATE DATABASE '' @ pg_quoteIdent name) = Some [Word ''CREATE'', Word ''DATABASE'', Quoted name]"
proof -
  have "lexes_all ''CREATE DATABASE '' [Word ''CREATE'', Word ''DATABASE'']"
    by (simp add: lexes_all_def sql_tokens.simps(2) word_char_def)
  moreover have "sql_tokens (pg_quoteIdent name) = Some [Quoted name]"
    using lex_quoted_doubled [of "[]" name] by (simp add: pg_quoteIdent_def sql_tokens.simps(2) sep_start_def)
  ultimately show ?thesis unfolding lexes_all_def by simp
qed

end
