(* ===== verification/Termcolor.thy ===== *)
theory Termcolor
  imports Go_Strings
begin

text \<open>
  Terminal colours, \<^verbatim>\<open>termcolor/termcolor.go\<close>. The global \<^verbatim>\<open>Enabled\<close> is the argument \<open>en\<close> of every function.
\<close>

definition esc :: string where "esc = [CHR 27, CHR ''['']"

text \<open>\<^verbatim>\<open>NO_COLOR\<close> in the environment, and whether the output is a terminal.\<close>

definition detectEnabled :: "string option \<Rightarrow> bool \<Rightarrow> bool" where
  "detectEnabled no_color terminal = (if no_color \<noteq> None then False else terminal)"

text \<open>The assignments of \<^verbatim>\<open>SetEnabled\<close>: the flag, and an empty cache.\<close>

record 'c color_state =
  Enabled :: bool
  color_cache :: "'c list"

definition SetEnabled :: "bool \<Rightarrow> 'c color_state \<Rightarrow> 'c color_state" where
  "SetEnabled v s = s\<lparr>Enabled := v, color_cache := []\<rparr>"

definition wrap_color :: "bool \<Rightarrow> string \<Rightarrow> string \<Rightarrow> string" where
  "wrap_color en m opening = (if \<not> en then m else opening @ m @ esc @ ''0m'')"

definition color :: "int \<Rightarrow> bool \<Rightarrow> bool \<Rightarrow> string" where
  "color code bg bold =
     (if bold then esc @ ''1m'' else []) @ (if bg then esc @ itoa (code + 10) @ ''m'' else esc @ itoa code @ ''m'')"

definition Red :: "bool \<Rightarrow> string \<Rightarrow> bool \<Rightarrow> bool \<Rightarrow> string" where "Red en m bg bold = wrap_color en m (color 31 bg bold)"
definition Green :: "bool \<Rightarrow> string \<Rightarrow> bool \<Rightarrow> bool \<Rightarrow> string" where "Green en m bg bold = wrap_color en m (color 32 bg bold)"
definition Yellow :: "bool \<Rightarrow> string \<Rightarrow> bool \<Rightarrow> bool \<Rightarrow> string" where "Yellow en m bg bold = wrap_color en m (color 33 bg bold)"
definition Blue :: "bool \<Rightarrow> string \<Rightarrow> bool \<Rightarrow> bool \<Rightarrow> string" where "Blue en m bg bold = wrap_color en m (color 34 bg bold)"
definition Magenta :: "bool \<Rightarrow> string \<Rightarrow> bool \<Rightarrow> bool \<Rightarrow> string" where "Magenta en m bg bold = wrap_color en m (color 35 bg bold)"
definition Cyan :: "bool \<Rightarrow> string \<Rightarrow> bool \<Rightarrow> bool \<Rightarrow> string" where "Cyan en m bg bold = wrap_color en m (color 36 bg bold)"
definition White :: "bool \<Rightarrow> string \<Rightarrow> bool \<Rightarrow> bool \<Rightarrow> string" where "White en m bg bold = wrap_color en m (color 37 bg bold)"
definition Gray :: "bool \<Rightarrow> string \<Rightarrow> string" where "Gray en m = wrap_color en m (esc @ ''90m'')"

definition XTerm :: "bool \<Rightarrow> string \<Rightarrow> int \<Rightarrow> bool \<Rightarrow> bool \<Rightarrow> string" where
  "XTerm en m code0 bg bold =
     (if \<not> en then m
      else let code = (if code0 < 0 then 0 else code0); code = (if 255 < code then 255 else code) in
        (if bold then esc @ ''1m'' else [])
        @ (if bg then esc @ ''48;5;'' @ itoa code @ ''m'' else esc @ ''38;5;'' @ itoa code @ ''m'')
        @ m @ esc @ ''0m'')"

definition RGB :: "bool \<Rightarrow> string \<Rightarrow> int \<Rightarrow> int \<Rightarrow> int \<Rightarrow> bool \<Rightarrow> bool \<Rightarrow> string" where
  "RGB en m0 r g b bg bold =
     (if \<not> en then m0
      else let m = (if bold then esc @ ''1m'' @ m0 else m0) in
        if bg then esc @ ''48;2;'' @ itoa r @ '';'' @ itoa g @ '';'' @ itoa b @ ''m'' @ m @ esc @ ''0m''
        else esc @ ''38;2;'' @ itoa r @ '';'' @ itoa g @ '';'' @ itoa b @ ''m'' @ m @ esc @ ''0m'')"

record StyleOpt =
  Bold :: bool
  Italic :: bool
  Underline :: bool
  Dim :: bool
  Inverse :: bool
  Strike :: bool

text \<open>\<^verbatim>\<open>%d\<close> of a slice prints the numbers between brackets, separated by blanks.\<close>

definition show_ints :: "int list \<Rightarrow> string" where
  "show_ints codes = ''['' @ join '' '' (map itoa codes) @ '']''"

definition style_codes :: "StyleOpt \<Rightarrow> int list" where
  "style_codes opt = (if Bold opt then [1] else []) @ (if Italic opt then [3] else []) @ (if Underline opt then [4] else [])
     @ (if Dim opt then [2] else []) @ (if Inverse opt then [7] else []) @ (if Strike opt then [9] else [])"

definition Style :: "bool \<Rightarrow> string \<Rightarrow> StyleOpt \<Rightarrow> string" where
  "Style en m opt =
     (if \<not> en then m
      else let codes = style_codes opt in
        if codes = [] then m else esc @ show_ints codes @ ''m'' @ m @ esc @ ''0m'')"

end
