(* ===== verification/Logger.thy ===== *)
theory Logger
  imports Termcolor Go_Url
begin

text \<open>
  The logger and the terminal panels of \<^verbatim>\<open>logger/logger.go\<close>. What is printed is a text; printing steps
  are sequenced in \<open>out\<close>, where a run-time panic drops what follows. The time of day as formatted, the size
  of the terminal and whether the output is a terminal are arguments; signals and ticks are sequences.
\<close>

section \<open>Printing\<close>

type_synonym out = "string outcome"

fun seq_out :: "out \<Rightarrow> out \<Rightarrow> out" where
  "seq_out (Returns s) (Returns t) = Returns (s @ t)"
| "seq_out (Returns s) (Panics m) = Panics m"
| "seq_out (Panics m) x = Panics m"

fun seq_all :: "out list \<Rightarrow> out" where
  "seq_all [] = Returns []"
| "seq_all (x # xs) = seq_out x (seq_all xs)"

text \<open>\<^verbatim>\<open>strings.Repeat\<close> panics on a negative count.\<close>

definition repeat_string :: "string \<Rightarrow> int \<Rightarrow> out" where
  "repeat_string s n =
     (if n < 0 then Panics ''strings: negative Repeat count'' else Returns (concat (replicate (nat n) s)))"

text \<open>The box-drawing characters in UTF-8.\<close>

definition box_h :: string where "box_h = [CHR 0xE2, CHR 0x94, CHR 0x80]"
definition box_v :: string where "box_v = [CHR 0xE2, CHR 0x94, CHR 0x82]"
definition box_tl :: string where "box_tl = [CHR 0xE2, CHR 0x94, CHR 0x8C]"
definition box_tr :: string where "box_tr = [CHR 0xE2, CHR 0x94, CHR 0x90]"
definition box_bl :: string where "box_bl = [CHR 0xE2, CHR 0x94, CHR 0x94]"
definition box_br :: string where "box_br = [CHR 0xE2, CHR 0x94, CHR 0x98]"

definition move :: "int \<Rightarrow> int \<Rightarrow> string" where
  "move row col = esc @ itoa row @ '';'' @ itoa col @ ''H''"

definition WriteAt :: "int \<Rightarrow> int \<Rightarrow> string \<Rightarrow> string" where
  "WriteAt x y text = esc @ itoa y @ '';'' @ itoa x @ ''H'' @ text"

section \<open>Lines of the log\<close>

record Logger =
  Name :: string
  UseEmoji :: bool
  ColorizeLevel :: bool
  ColorizeMessage :: bool
  IncludeNamePrefix :: bool

definition New :: "string \<Rightarrow> Logger" where
  "New name = \<lparr>Name = name, UseEmoji = True, ColorizeLevel = True, ColorizeMessage = False, IncludeNamePrefix = False\<rparr>"

definition level_label :: "bool \<Rightarrow> string \<Rightarrow> string" where
  "level_label en level =
     (if level = ''ERROR'' then Red en level False True
      else if level = ''WARN'' then Yellow en level False True
      else if level = ''SUCCESS'' then Green en level False True
      else Cyan en level False True)"

definition log :: "bool \<Rightarrow> string \<Rightarrow> Logger \<Rightarrow> string \<Rightarrow> string \<Rightarrow> string" where
  "log en now l level msg =
     (let label = (if ColorizeLevel l then level_label en level else level);
          namePrefix = (if IncludeNamePrefix l then ''['' @ Name l @ ''] '' else []);
          msg = (if ColorizeMessage l then White en msg False False else msg)
      in ''=> '' @ now @ '' | '' @ label @ '' | '' @ namePrefix @ msg @ [CHR 10])"

definition Info :: "bool \<Rightarrow> string \<Rightarrow> Logger \<Rightarrow> string \<Rightarrow> string" where "Info en now l m = log en now l ''INFO   '' m"
definition Warn :: "bool \<Rightarrow> string \<Rightarrow> Logger \<Rightarrow> string \<Rightarrow> string" where "Warn en now l m = log en now l ''WARN   '' m"
definition Error :: "bool \<Rightarrow> string \<Rightarrow> Logger \<Rightarrow> string \<Rightarrow> string" where "Error en now l m = log en now l ''ERROR  '' m"
definition Success :: "bool \<Rightarrow> string \<Rightarrow> Logger \<Rightarrow> string \<Rightarrow> string" where "Success en now l m = log en now l ''SUCCESS'' m"

definition ColorLog :: "bool \<Rightarrow> string \<Rightarrow> string" where
  "ColorLog en line =
     (if contains line ''ERROR'' then Red en line False True
      else if contains line ''WARN'' then Yellow en line False True
      else if contains line ''OK'' then Green en line False False
      else line)"

section \<open>Visible width\<close>

text \<open>
  \<^verbatim>\<open>ansiRE.ReplaceAllString(s, "")\<close> for an escape, a bracket, digits and semicolons, and the letter m.
\<close>

definition sgr_char :: "char \<Rightarrow> bool" where
  "sgr_char c \<longleftrightarrow> digit c \<or> c = CHR '';''"

definition sgr_rest :: "string \<Rightarrow> string option" where
  "sgr_rest s = (case dropWhile sgr_char s of [] \<Rightarrow> None | c # r \<Rightarrow> if c = CHR ''m'' then Some r else None)"

lemma sgr_rest_shorter: "sgr_rest s = Some r \<Longrightarrow> length r < length s"
  unfolding sgr_rest_def using length_dropWhile_le [of sgr_char s]
  by (auto split: list.splits if_splits)

function ansi_strip :: "string \<Rightarrow> string" where
  "ansi_strip [] = []"
| "ansi_strip (c # s) =
     (if c = CHR 27 then
        (case s of
           d # s' \<Rightarrow> if d = CHR ''['' then (case sgr_rest s' of Some r \<Rightarrow> ansi_strip r | None \<Rightarrow> c # ansi_strip s)
             else c # ansi_strip s
         | [] \<Rightarrow> [c])
      else c # ansi_strip s)"
  by pat_completeness auto
termination
  by (relation "measure length") (auto dest: sgr_rest_shorter)

declare ansi_strip.simps(2) [simp del]

definition visibleLen :: "string \<Rightarrow> int" where
  "visibleLen s = int (length (ansi_strip s))"

definition padRight :: "string \<Rightarrow> int \<Rightarrow> string" where
  "padRight s w = (let l = visibleLen s in if w \<le> l then s else s @ replicate (nat (w - l)) (CHR '' ''))"

section \<open>Boxes and panels\<close>

text \<open>\<^verbatim>\<open>for i := lo; i < hi; i++\<close>.\<close>

definition int_range :: "int \<Rightarrow> int \<Rightarrow> int list" where
  "int_range lo hi = map (\<lambda>i. lo + int i) [0..<nat (hi - lo)]"

definition DrawBox :: "int \<Rightarrow> int \<Rightarrow> int \<Rightarrow> int \<Rightarrow> out" where
  "DrawBox x y w h =
     seq_out (Returns (esc @ itoa y @ '';'' @ itoa x @ ''H''))
     (seq_out (seq_out (Returns box_tl) (seq_out (repeat_string box_h (w - 2)) (Returns box_tr)))
     (seq_out (seq_all (map (\<lambda>i. seq_out (Returns (esc @ itoa (y + i) @ '';'' @ itoa x @ ''H'' @ box_v))
         (seq_out (repeat_string '' '' (w - 2)) (Returns box_v))) (int_range 1 (h - 1))))
     (seq_out (Returns (esc @ itoa (y + h - 1) @ '';'' @ itoa x @ ''H'' @ box_bl))
       (seq_out (repeat_string box_h (w - 2)) (Returns box_br)))))"

definition DrawLayout :: out where
  "DrawLayout = (let width = 60; height = 12; leftW = 18; rightW = width - leftW - 1 in
     seq_out (Returns (esc @ ''2J'')) (seq_out (DrawBox 1 1 leftW height) (DrawBox (leftW + 2) 1 rightW height)))"

record Panel =
  X :: int
  Y :: int
  W :: int
  H :: int
  buffer :: "string list"

definition Layout :: "int \<Rightarrow> int \<Rightarrow> Panel \<times> Panel" where
  "Layout w h = (let leftW = w div 10; rightW = w - leftW - 1 in
     (\<lparr>X = 1, Y = 1, W = leftW, H = h, buffer = []\<rparr>, \<lparr>X = leftW + 2, Y = 1, W = rightW, H = h, buffer = []\<rparr>))"

definition map_out :: "(string \<Rightarrow> string) \<Rightarrow> out \<Rightarrow> out" where
  "map_out f x = (case x of Returns s \<Rightarrow> Returns (f s) | Panics m \<Rightarrow> Panics m)"

definition Draw :: "bool \<Rightarrow> Panel \<Rightarrow> out" where
  "Draw en p =
     (let bar = repeat_string box_h (W p - 2) in
      seq_out (Returns (move (Y p) (X p)))
      (seq_out (map_out (\<lambda>s. Gray en (box_tl @ s @ box_tr)) bar)
      (seq_out (seq_all (map (\<lambda>i. seq_out (Returns (move (Y p + i) (X p) @ Gray en box_v))
          (seq_out (repeat_string '' '' (W p - 2)) (Returns (Gray en box_v)))) (int_range 1 (H p - 1))))
      (seq_out (Returns (move (Y p + H p - 1) (X p)))
        (map_out (\<lambda>s. Gray en (box_bl @ s @ box_br)) bar)))))"

text \<open>\<^verbatim>\<open>line[:w]\<close> when the line is longer than \<open>w\<close>; a negative bound panics.\<close>

definition cut_line :: "string \<Rightarrow> int \<Rightarrow> out" where
  "cut_line line w =
     (if w < int (length line)
      then if w < 0 then Panics ''slice bounds out of range'' else Returns (take (nat w) line)
      else Returns line)"

definition redrawContent :: "Panel \<Rightarrow> out" where
  "redrawContent p = seq_all (map (\<lambda>i.
     let line = (if i < int (length (buffer p)) then buffer p ! nat i else []) in
     seq_out (Returns (move (Y p + 1 + i) (X p + 1)))
       (map_out (\<lambda>l. padRight l (W p - 2)) (cut_line line (W p - 2)))) (int_range 0 (H p - 2)))"

text \<open>
  \<^verbatim>\<open>p.buffer[len(p.buffer)-max:]\<close> panics when \<^verbatim>\<open>max\<close> is negative, since the bound exceeds the length. The panel
  keeps the new buffer when drawing panics.
\<close>

definition AppendLine :: "string \<Rightarrow> Panel \<Rightarrow> Panel \<times> out" where
  "AppendLine line p =
     (let mx = H p - 2; buf = buffer p @ [line]; n = int (length buf) in
      if mx < n then
        (if mx < 0 then (p\<lparr>buffer := buf\<rparr>, Panics ''slice bounds out of range'')
         else let p' = p\<lparr>buffer := drop (nat (n - mx)) buf\<rparr> in (p', redrawContent p'))
      else let p' = p\<lparr>buffer := buf\<rparr> in (p', redrawContent p'))"

definition SetLine :: "int \<Rightarrow> string \<Rightarrow> Panel \<Rightarrow> out" where
  "SetLine row text p =
     (if row < 0 \<or> H p - 2 \<le> row then Returns []
      else seq_out (Returns (move (Y p + 1 + row) (X p + 1)))
        (map_out (\<lambda>l. padRight l (W p - 2)) (cut_line text (W p - 2))))"

text \<open>Division by 2 truncates towards zero.\<close>

definition signed_div2 :: "int \<Rightarrow> int" where
  "signed_div2 n = (if n < 0 then - ((- n) div 2) else n div 2)"

text \<open>The width of the terminal is \<^term>\<open>None\<close> where it is none or has no size.\<close>

definition Header :: "int option \<Rightarrow> string \<Rightarrow> bool \<Rightarrow> out" where
  "Header terminal text bold =
     (let width = (case terminal of None \<Rightarrow> 80 | Some w \<Rightarrow> w);
          borderLine = seq_out (repeat_string (if bold then ''='' else ''-'') width) (Returns [CHR 10]) in
      seq_out borderLine
      (seq_out (seq_all (map (\<lambda>line.
          let t = trim_space line; pad = max (signed_div2 (width - visibleLen t)) 0;
              centered = replicate (nat pad) (CHR '' '') @ t
          in Returns (padRight centered width @ [CHR 10])) (split_on [CHR 10] (trim_space text))))
        borderLine))"

text \<open>\<^verbatim>\<open>RunTimeLog\<close>: one line for each tick, the time of day as formatted.\<close>

definition RunTimeLog :: "string list \<Rightarrow> Panel \<Rightarrow> Panel" where
  "RunTimeLog ticks p = fold (\<lambda>t p. fst (AppendLine t p)) ticks p"

text \<open>
  \<^verbatim>\<open>WatchResize\<close>: the callback runs once for each signal delivered that is subscribed to, which is
  \<^verbatim>\<open>SIGPIPE\<close> and not the one a terminal sends when it is resized.
\<close>

datatype signal = SIGPIPE | SIGWINCH | OtherSignal nat

definition WatchResize :: "('w \<Rightarrow> 'w) \<Rightarrow> signal list \<Rightarrow> 'w \<Rightarrow> 'w" where
  "WatchResize on signals w = fold (\<lambda>s. if s = SIGPIPE then on else (\<lambda>w. w)) signals w"

text \<open>\<^verbatim>\<open>Spinner\<close>: one frame for each poll of the stop channel that finds it open.\<close>

definition frames :: "string list" where
  "frames = map (\<lambda>c. [CHR 0xE2, CHR 0xA0, c])
     [CHR 0x8B, CHR 0x99, CHR 0xB9, CHR 0xB8, CHR 0xBC, CHR 0xB4, CHR 0xA6, CHR 0xA7, CHR 0x87, CHR 0x8F]"

fun spinner_loop :: "bool list \<Rightarrow> int \<Rightarrow> int \<Rightarrow> nat \<Rightarrow> string" where
  "spinner_loop [] x y i = []"
| "spinner_loop (stopped # polls) x y i =
     (if stopped then [] else WriteAt x y (frames ! (i mod length frames)) @ spinner_loop polls x y (i + 1))"

section \<open>Stripping escapes\<close>

text \<open>A text that starts with none of the characters a colour sequence can go on with is stripped on its own.\<close>

definition sgr_break :: "string \<Rightarrow> bool" where
  "sgr_break t \<longleftrightarrow> (case t of [] \<Rightarrow> True | c # _ \<Rightarrow> \<not> sgr_char c \<and> c \<noteq> CHR ''m'' \<and> c \<noteq> CHR ''['')"

lemma sgr_rest_append: "sgr_break t \<Longrightarrow> sgr_rest (s @ t) = map_option (\<lambda>r. r @ t) (sgr_rest s)"
  by (induction s) (auto simp: sgr_rest_def sgr_break_def split: list.splits)

lemma ansi_strip_append: "sgr_break t \<Longrightarrow> ansi_strip (s @ t) = ansi_strip s @ ansi_strip t"
proof (induction s rule: ansi_strip.induct)
  case 1
  then show ?case by simp
next
  case (2 c s)
  show ?case
  proof (cases "c = CHR 27")
    case False
    with 2 show ?thesis by (simp add: ansi_strip.simps(2))
  next
    case True
    show ?thesis
    proof (cases s)
      case Nil
      with True 2(5) show ?thesis by (cases t) (auto simp: ansi_strip.simps(2) sgr_break_def)
    next
      case (Cons d s')
      with True 2 show ?thesis
        by (cases "sgr_rest s'") (auto simp: ansi_strip.simps(2) [of "CHR 27"] sgr_rest_append)
    qed
  qed
qed

lemma ansi_strip_plain: "list_all (\<lambda>c. c \<noteq> CHR 27) s \<Longrightarrow> ansi_strip (s @ t) = s @ ansi_strip t"
  by (induction s) (auto simp: ansi_strip.simps(2))

lemma ansi_strip_sgr: "list_all sgr_char ds \<Longrightarrow> ansi_strip (esc @ ds @ CHR ''m'' # s) = ansi_strip s"
proof -
  assume "list_all sgr_char ds"
  moreover have "\<not> sgr_char CHR ''m''" by (simp add: sgr_char_def digit_def)
  ultimately have "dropWhile sgr_char (ds @ CHR ''m'' # s) = CHR ''m'' # s" by (induction ds) simp_all
  then show ?thesis by (simp add: esc_def ansi_strip.simps(2) sgr_rest_def)
qed

lemma ansi_strip_reset: "ansi_strip (m @ esc @ ''0m'') = ansi_strip m"
proof -
  have "ansi_strip (esc @ ''0m'') = []" by code_simp
  moreover have "sgr_break (esc @ ''0m'')" by code_simp
  ultimately show ?thesis by (simp add: ansi_strip_append)
qed

lemma itoa_sgr: "0 \<le> n \<Longrightarrow> list_all sgr_char (itoa n)"
  using digits_show_nat [of "nat n"] by (simp add: itoa_def list_all_iff sgr_char_def)

text \<open>
  Padding gives a text of the wanted visible width, whatever escape sequences it holds; a wider text
  stays as it is.
\<close>

theorem padRight_width: "visibleLen (padRight s w) = max (visibleLen s) w"
proof -
  have "ansi_strip (replicate n (CHR '' '')) = replicate n (CHR '' '')" for n
    using ansi_strip_plain [of "replicate n (CHR '' '')" "[]"] by (simp add: list_all_iff)
  moreover have "sgr_break (replicate n (CHR '' ''))" for n
    by (cases n) (simp_all add: sgr_break_def sgr_char_def digit_def)
  ultimately show ?thesis by (simp add: padRight_def visibleLen_def Let_def ansi_strip_append)
qed

lemma color_invisible: "0 \<le> code \<Longrightarrow> visibleLen (wrap_color en m (color code bg bold)) = visibleLen m"
  using ansi_strip_sgr [of "itoa code"] ansi_strip_sgr [of "itoa (code + 10)"] ansi_strip_sgr [of "''1''"]
    ansi_strip_reset [of m]
  by (simp add: wrap_color_def color_def visibleLen_def itoa_sgr) (simp add: sgr_char_def digit_def)

text \<open>
  Colours do not change the visible width of a text, enabled or not: every colour function and the
  256-colour palette (any code, since it is clamped) print sequences that \<^verbatim>\<open>visibleLen\<close> strips completely.
\<close>

theorem colours_have_no_width:
  "visibleLen (Red en m bg bold) = visibleLen m \<and> visibleLen (Green en m bg bold) = visibleLen m
   \<and> visibleLen (Yellow en m bg bold) = visibleLen m \<and> visibleLen (Blue en m bg bold) = visibleLen m
   \<and> visibleLen (Magenta en m bg bold) = visibleLen m \<and> visibleLen (Cyan en m bg bold) = visibleLen m
   \<and> visibleLen (White en m bg bold) = visibleLen m \<and> visibleLen (Gray en m) = visibleLen m
   \<and> visibleLen (XTerm en m code bg bold) = visibleLen m"
proof -
  have gray: "visibleLen (Gray en m) = visibleLen m"
    using ansi_strip_sgr [of "''90''"] ansi_strip_reset [of m]
    by (simp add: Gray_def wrap_color_def visibleLen_def) (simp add: sgr_char_def digit_def)
  have pre: "list_all sgr_char (''48;5;'' @ itoa n)" "list_all sgr_char (''38;5;'' @ itoa n)" if "0 \<le> n" for n
    using itoa_sgr [OF that] by (simp_all add: sgr_char_def digit_def)
  have "visibleLen (XTerm en m code bg bold) = visibleLen m"
    using ansi_strip_sgr [OF pre(1)] ansi_strip_sgr [OF pre(2)] ansi_strip_sgr [of "''1''"] ansi_strip_reset [of m]
    by (simp add: XTerm_def visibleLen_def Let_def) (simp add: sgr_char_def digit_def)
  with gray show ?thesis
    by (simp add: Red_def Green_def Yellow_def Blue_def Magenta_def Cyan_def White_def color_invisible)
qed

section \<open>Panels\<close>

lemma seq_all_Returns: "list_all (\<lambda>x. \<exists>s. x = Returns s) xs \<Longrightarrow> \<exists>s. seq_all xs = Returns s"
  by (induction xs) auto

lemma redrawContent_returns: "2 \<le> W p \<Longrightarrow> \<exists>s. redrawContent p = Returns s"
  unfolding redrawContent_def
  by (rule seq_all_Returns) (auto simp: list_all_iff map_out_def cut_line_def Let_def)

lemma AppendLine_buffer:
  "2 \<le> H p \<Longrightarrow> fst (AppendLine l p) = p\<lparr>buffer := drop (length (buffer p) + 1 - nat (H p - 2)) (buffer p @ [l])\<rparr>"
proof -
  assume "2 \<le> H p"
  moreover from this have "nat (int (length (buffer p @ [l])) - (H p - 2)) = length (buffer p) + 1 - nat (H p - 2)"
    by (simp add: nat_diff_distrib')
  ultimately show ?thesis by (simp add: AppendLine_def Let_def del: drop_append)
qed

lemma AppendLine_returns: "2 \<le> H p \<Longrightarrow> 2 \<le> W p \<Longrightarrow> \<exists>s. snd (AppendLine l p) = Returns s"
  using redrawContent_returns [of "p\<lparr>buffer := b\<rparr>" for b] by (simp add: AppendLine_def Let_def)

definition append_lines :: "string list \<Rightarrow> Panel \<Rightarrow> Panel" where
  "append_lines ls p = fold (\<lambda>l p. fst (AppendLine l p)) ls p"

lemma append_lines_eq:
  assumes "2 \<le> H p" and "buffer p = []"
  shows "append_lines ls p = p\<lparr>buffer := drop (length ls - nat (H p - 2)) ls\<rparr>"
  using assms
proof (induction ls rule: rev_induct)
  case Nil
  then show ?case by (simp add: append_lines_def)
next
  case (snoc l ls)
  let ?n = "nat (H p - 2)"
  have "append_lines (ls @ [l]) p = fst (AppendLine l (append_lines ls p))" by (simp add: append_lines_def)
  also have "\<dots> = p\<lparr>buffer := drop (length ls - (length ls - ?n) + 1 - ?n) (drop (length ls - ?n) ls @ [l])\<rparr>"
    using snoc by (simp add: AppendLine_buffer)
  also have "drop (length ls - (length ls - ?n) + 1 - ?n) (drop (length ls - ?n) ls @ [l]) = drop (length (ls @ [l]) - ?n) (ls @ [l])"
    by (cases "length ls < ?n") (auto simp: not_less Suc_diff_le)
  finally show ?case .
qed

text \<open>
  C32: a panel of at least two rows and two columns never panics however many lines are appended, and keeps
  exactly the last \<^verbatim>\<open>H-2\<close> of them, the lines that fit between its borders.
\<close>

theorem panel_keeps_last_lines:
  assumes "2 \<le> H p" and "2 \<le> W p" and "buffer p = []"
  shows "buffer (append_lines ls p) = drop (length ls - nat (H p - 2)) ls
    \<and> (\<exists>s. snd (AppendLine l (append_lines ls p)) = Returns s)"
  using assms AppendLine_returns [of "append_lines ls p" l] by (simp add: append_lines_eq)

theorem panel_keeps_last_lines_witness:
  "buffer (append_lines [''a'', ''b'', ''c''] \<lparr>X = 1, Y = 1, W = 10, H = 4, buffer = []\<rparr>) = [''b'', ''c'']"
  using panel_keeps_last_lines [of "\<lparr>X = 1, Y = 1, W = 10, H = 4, buffer = []\<rparr>" "[''a'', ''b'', ''c'']" "[]"] by simp

lemma RunTimeLog_append_lines: "RunTimeLog = append_lines"
  by (rule ext)+ (simp add: RunTimeLog_def append_lines_def)

lemma WatchResize_ignores_resize: "list_all (\<lambda>s. s \<noteq> SIGPIPE) signals \<Longrightarrow> WatchResize on signals w = w"
  unfolding WatchResize_def by (induction signals arbitrary: w) simp_all

text \<open>
  A panel of fewer than two rows, as the layout makes for a terminal of unknown size, panics at the first line.
\<close>

theorem short_panel_panics:
  assumes "H p < 2" shows "snd (AppendLine l p) = Panics ''slice bounds out of range''"
  using assms by (simp add: AppendLine_def Let_def)

theorem short_panel_panics_witness:
  "H (fst (Layout 0 0)) < 2 \<and> snd (AppendLine ''x'' (fst (Layout 0 0))) = Panics ''slice bounds out of range''"
  using short_panel_panics [of "fst (Layout 0 0)" "''x''"] by (simp add: Layout_def Let_def)

text \<open>
  The levels of \<^verbatim>\<open>Error\<close> and \<^verbatim>\<open>Warn\<close> are padded to seven characters before they are compared, so neither is
  ever recognised: both are printed in the colour of ordinary messages.
\<close>

theorem error_and_warn_are_cyan:
  "ColorizeLevel l \<Longrightarrow>
     Error en now l m = ''=> '' @ now @ '' | '' @ Cyan en ''ERROR  '' False True @ '' | ''
       @ (if IncludeNamePrefix l then ''['' @ Name l @ ''] '' else [])
       @ (if ColorizeMessage l then White en m False False else m) @ [CHR 10]
   \<and> Warn en now l m = ''=> '' @ now @ '' | '' @ Cyan en ''WARN   '' False True @ '' | ''
       @ (if IncludeNamePrefix l then ''['' @ Name l @ ''] '' else [])
       @ (if ColorizeMessage l then White en m False False else m) @ [CHR 10]"
  by (simp add: Error_def Warn_def log_def level_label_def)

theorem error_and_warn_are_cyan_witness:
  "Error False ''12:00:00'' (New ''app'') ''boom'' = ''=> 12:00:00 | ERROR   | boom'' @ [CHR 10]"
  using error_and_warn_are_cyan [of "New ''app''" False "''12:00:00''" "''boom''"]
  by (simp add: New_def Cyan_def wrap_color_def)

text \<open>
  A text style that is not empty prints the list of its codes in brackets, which is no escape sequence:
  with colours enabled the text becomes wider, and the codes are visible.
\<close>

theorem style_codes_visible:
  assumes "style_codes opt \<noteq> []"
  shows "visibleLen (Style True m opt) = visibleLen m + int (length (show_ints (style_codes opt))) + 3"
proof -
  let ?s = "show_ints (style_codes opt)"
  have b: "hd ?s = CHR ''[''" "?s \<noteq> []" by (simp_all add: show_ints_def)
  have no_esc: "list_all (\<lambda>c. c \<noteq> CHR 27) ?s"
    by (auto simp: show_ints_def style_codes_def itoa_def show_nat.simps)
  have "ansi_strip (esc @ ?s @ ''m'' @ m) = esc @ ?s @ ''m'' @ ansi_strip m"
  proof -
    obtain r where r: "?s = CHR ''['' # r" using b by (cases ?s) simp_all
    have "sgr_rest (?s @ ''m'' @ m) = None" unfolding r by (simp add: sgr_rest_def sgr_char_def digit_def)
    moreover have "ansi_strip (CHR ''['' # ?s @ ''m'' @ m) = CHR ''['' # ?s @ ''m'' @ ansi_strip m"
      using ansi_strip_plain [of "CHR ''['' # ?s @ ''m''" m] no_esc by simp
    ultimately show ?thesis by (simp add: esc_def ansi_strip.simps(2) [of "CHR 27"])
  qed
  with ansi_strip_reset [of "esc @ ?s @ ''m'' @ m"] assms show ?thesis
    by (simp add: Style_def visibleLen_def Let_def) (simp add: esc_def)
qed

theorem style_codes_visible_witness:
  "Style True ''x'' \<lparr>Bold = True, Italic = True, Underline = False, Dim = False, Inverse = False, Strike = False\<rparr>
     = CHR 27 # ''[[1 3]mx'' @ CHR 27 # ''[0m''
   \<and> visibleLen (Style True ''x'' \<lparr>Bold = True, Italic = True, Underline = False, Dim = False, Inverse = False, Strike = False\<rparr>) = 9"
proof -
  let ?o = "\<lparr>Bold = True, Italic = True, Underline = False, Dim = False, Inverse = False, Strike = False\<rparr>"
  have c: "style_codes ?o \<noteq> []" "length (show_ints (style_codes ?o)) = 5" "visibleLen ''x'' = 1"
    "Style True ''x'' ?o = CHR 27 # ''[[1 3]mx'' @ CHR 27 # ''[0m''" by code_simp+
  from style_codes_visible [OF c(1), of "''x''"] c show ?thesis by simp
qed

end
