(* ===== verification/Emitter.thy ===== *)
theory Emitter
  imports Prelude "HOL-Library.AList" "HOL-Library.Multiset"
begin

text \<open>
  The event emitter of \<^verbatim>\<open>emitter/emitter.go\<close>. A handler of the caller is a value \<open>'h\<close> whose effect is the
  argument \<open>run\<close>; the closure \<^verbatim>\<open>Once\<close> registers is the value \<open>OnceWrap\<close>, which names the captured variable
  \<^verbatim>\<open>id\<close> by its position in \<open>ids\<close>. The order in which Go walks a map is the argument \<open>order\<close>. Goroutines
  are the step relation \<open>em_step\<close>.
\<close>

type_synonym HandlerID = "64 word"

datatype ('t, 'h) handler = Plain 'h | OnceWrap 't nat 'h

record ('t, 'h) EventEmitter =
  handlers :: "'t \<rightharpoonup> (HandlerID \<times> ('t, 'h) handler) list"
  nextID :: HandlerID
  ids :: "HandlerID list"

definition NewEventEmitter :: "('t, 'h) EventEmitter" where
  "NewEventEmitter = \<lparr>handlers = Map.empty, nextID = 0, ids = []\<rparr>"

text \<open>The inner map of an event, the nil map being empty.\<close>

definition registered :: "('t, 'h) EventEmitter \<Rightarrow> 't \<Rightarrow> (HandlerID \<times> ('t, 'h) handler) list" where
  "registered e evt = (case handlers e evt of None \<Rightarrow> [] | Some m \<Rightarrow> m)"

definition On :: "'t \<Rightarrow> ('t, 'h) handler \<Rightarrow> ('t, 'h) EventEmitter \<Rightarrow> HandlerID \<times> ('t, 'h) EventEmitter" where
  "On evt h e = (let hid = nextID e + 1 in
     (hid, e\<lparr>nextID := hid, handlers := (handlers e)(evt \<mapsto> AList.update hid h (registered e evt))\<rparr>))"

definition Off :: "'t \<Rightarrow> HandlerID \<Rightarrow> ('t, 'h) EventEmitter \<Rightarrow> ('t, 'h) EventEmitter" where
  "Off evt hid e = (case handlers e evt of
      None \<Rightarrow> e
    | Some m \<Rightarrow> let m' = AList.delete hid m in
        if m' = [] then e\<lparr>handlers := (handlers e)(evt := None)\<rparr>
        else e\<lparr>handlers := (handlers e)(evt \<mapsto> m')\<rparr>)"

text \<open>\<^verbatim>\<open>Once\<close> registers the closure while its variable is still 0, then assigns the variable.\<close>

definition once_register :: "'t \<Rightarrow> 'h \<Rightarrow> ('t, 'h) EventEmitter \<Rightarrow> (HandlerID \<times> nat) \<times> ('t, 'h) EventEmitter" where
  "once_register evt h e = (let cell = length (ids e); (hid, e') = On evt (OnceWrap evt cell h) (e\<lparr>ids := ids e @ [0]\<rparr>) in
     ((hid, cell), e'))"

definition once_assign :: "nat \<Rightarrow> HandlerID \<Rightarrow> ('t, 'h) EventEmitter \<Rightarrow> ('t, 'h) EventEmitter" where
  "once_assign cell hid e = e\<lparr>ids := (ids e)[cell := hid]\<rparr>"

definition Once :: "'t \<Rightarrow> 'h \<Rightarrow> ('t, 'h) EventEmitter \<Rightarrow> HandlerID \<times> ('t, 'h) EventEmitter" where
  "Once evt h e = (let ((hid, cell), e') = once_register evt h e in (hid, once_assign cell hid e'))"

fun user_handler :: "('t, 'h) handler \<Rightarrow> 'h" where
  "user_handler (Plain h) = h"
| "user_handler (OnceWrap _ _ h) = h"

text \<open>Calling a handler: the closure of \<^verbatim>\<open>Once\<close> unregisters the identifier its variable holds, then calls.\<close>

fun before_call :: "('t, 'h) handler \<Rightarrow> ('t, 'h) EventEmitter \<Rightarrow> ('t, 'h) EventEmitter" where
  "before_call (Plain h) e = e"
| "before_call (OnceWrap evt cell h) e = Off evt (ids e ! cell) e"

definition call_handler :: "('h \<Rightarrow> 'd \<Rightarrow> 'x \<Rightarrow> ('t, 'h) EventEmitter \<times> 'w \<Rightarrow> ('t, 'h) EventEmitter \<times> 'w) \<Rightarrow> 'd \<Rightarrow> 'x
    \<Rightarrow> ('t, 'h) handler \<Rightarrow> ('t, 'h) EventEmitter \<times> 'w \<Rightarrow> ('t, 'h) EventEmitter \<times> 'w" where
  "call_handler run data extra h = (\<lambda>(e, w). run (user_handler h) data extra (before_call h e, w))"

definition snapshot :: "(('t, 'h) handler list \<Rightarrow> ('t, 'h) handler list) \<Rightarrow> 't \<Rightarrow> ('t, 'h) EventEmitter \<Rightarrow> ('t, 'h) handler list" where
  "snapshot order evt e = order (map snd (registered e evt))"

definition Emit :: "(('t, 'h) handler list \<Rightarrow> ('t, 'h) handler list)
    \<Rightarrow> ('h \<Rightarrow> 'd \<Rightarrow> 'x \<Rightarrow> ('t, 'h) EventEmitter \<times> 'w \<Rightarrow> ('t, 'h) EventEmitter \<times> 'w) \<Rightarrow> 't \<Rightarrow> 'd \<Rightarrow> 'x
    \<Rightarrow> ('t, 'h) EventEmitter \<times> 'w \<Rightarrow> ('t, 'h) EventEmitter \<times> 'w" where
  "Emit order run evt data extra = (\<lambda>(e, w). fold (call_handler run data extra) (snapshot order evt e) (e, w))"

text \<open>\<^verbatim>\<open>EmitAsync\<close> starts one goroutine for each handler of the snapshot.\<close>

definition EmitAsync :: "(('t, 'h) handler list \<Rightarrow> ('t, 'h) handler list) \<Rightarrow> 't \<Rightarrow> ('t, 'h) EventEmitter \<Rightarrow> ('t, 'h) handler list list" where
  "EmitAsync order evt e = map (\<lambda>h. [h]) (snapshot order evt e)"

section \<open>Well-formed emitters\<close>

text \<open>No empty inner map, and no identifier twice in one.\<close>

definition emitter_ok :: "('t, 'h) EventEmitter \<Rightarrow> bool" where
  "emitter_ok e \<longleftrightarrow> (\<forall>evt m. handlers e evt = Some m \<longrightarrow> m \<noteq> [] \<and> distinct (map fst m))"

lemma emitter_ok_registered: "emitter_ok e \<Longrightarrow> distinct (map fst (registered e evt))"
  by (auto simp: emitter_ok_def registered_def split: option.split)

lemma emitter_ok_New: "emitter_ok NewEventEmitter"
  by (simp add: emitter_ok_def NewEventEmitter_def)

lemma update_ne: "AList.update k v m \<noteq> []"
  by (cases m) auto

lemma emitter_ok_On:
  assumes "emitter_ok e" shows "emitter_ok (snd (On evt h e))"
  using assms emitter_ok_registered [OF assms, of evt]
  by (auto simp: emitter_ok_def On_def Let_def update_ne distinct_update)

lemma emitter_ok_Off: "emitter_ok e \<Longrightarrow> emitter_ok (Off evt hid e)"
  by (auto simp: emitter_ok_def Off_def Let_def distinct_delete split: option.split)

lemma emitter_ok_ids: "emitter_ok (e\<lparr>ids := x\<rparr>) = emitter_ok e"
  by (simp add: emitter_ok_def)

lemma emitter_ok_once:
  assumes "emitter_ok e" shows "emitter_ok (snd (once_register evt h e))"
  using emitter_ok_On [of "e\<lparr>ids := ids e @ [0]\<rparr>" evt] assms
  by (simp add: once_register_def Let_def emitter_ok_ids split: prod.split) (metis snd_conv)

lemma emitter_ok_assign: "emitter_ok (once_assign cell hid e) = emitter_ok e"
  by (simp add: once_assign_def emitter_ok_ids)

lemma registered_Off: "registered (Off evt hid e) evt' = (if evt' = evt then AList.delete hid (registered e evt) else registered e evt')"
  by (auto simp: registered_def Off_def Let_def split: option.split)

lemma registered_On: "registered (snd (On evt h e)) evt' =
    (if evt' = evt then AList.update (nextID e + 1) h (registered e evt) else registered e evt')"
  by (simp add: registered_def On_def Let_def)

text \<open>The identifiers handed out so far, while the counter has not wrapped around.\<close>

definition ids_bounded :: "('t, 'h) EventEmitter \<Rightarrow> bool" where
  "ids_bounded e \<longleftrightarrow> (\<forall>evt. fst ` set (registered e evt) \<subseteq> {hid. 0 < hid \<and> hid \<le> nextID e})"

lemma word_less_Suc: "(n :: HandlerID) \<noteq> -1 \<Longrightarrow> n < n + 1"
  using unatSuc [of n] by (simp add: word_less_nat_alt add.commute eq_neg_iff_add_eq_0)

lemma next_fresh:
  assumes "ids_bounded e" and "nextID e \<noteq> -1"
  shows "nextID e + 1 \<notin> fst ` set (registered e evt)"
proof
  assume "nextID e + 1 \<in> fst ` set (registered e evt)"
  then have "nextID e + 1 \<le> nextID e" using assms(1) unfolding ids_bounded_def by fast
  moreover have "nextID e < nextID e + 1"
    using assms(2) by (rule word_less_Suc)
  ultimately show False by simp
qed

lemma ids_bounded_On:
  assumes "ids_bounded e" and "nextID e \<noteq> -1"
  shows "ids_bounded (snd (On evt h e))"
proof -
  have "nextID e < nextID e + 1" using assms(2) by (rule word_less_Suc)
  moreover have "nextID (snd (On evt h e)) = nextID e + 1" by (simp add: On_def Let_def)
  moreover have "0 < nextID e + 1" using \<open>nextID e < nextID e + 1\<close> by (rule le_less_trans [OF word_zero_le])
  moreover have "{hid. 0 < hid \<and> hid \<le> nextID e} \<subseteq> {hid. 0 < hid \<and> hid \<le> nextID e + 1}"
    using \<open>nextID e < nextID e + 1\<close> by auto
  ultimately show ?thesis
    using assms(1) unfolding ids_bounded_def registered_On by (simp add: dom_update) blast
qed

text \<open>
  Registering and unregistering cancel out: the identifier \<^verbatim>\<open>On\<close> returns is not in use, and \<^verbatim>\<open>Off\<close> with it
  restores the table of handlers, removing the entry of an event that has no handler left.
\<close>

theorem off_undoes_on:
  assumes "emitter_ok e" and "ids_bounded e" and "nextID e \<noteq> -1" and "On evt h e = (hid, e')"
  shows "hid \<notin> fst ` set (registered e evt) \<and> handlers (Off evt hid e') = handlers e"
proof -
  have fresh: "nextID e + 1 \<notin> fst ` set (registered e evt)" using next_fresh [OF assms(2,3)] .
  have eq: "hid = nextID e + 1" "e' = e\<lparr>nextID := hid, handlers := (handlers e)(evt \<mapsto> AList.update hid h (registered e evt))\<rparr>"
    using assms(4) by (auto simp: On_def Let_def)
  have "AList.delete hid (AList.update hid h (registered e evt)) = registered e evt"
    using fresh eq(1) by (simp add: delete_update_same)
  then have "handlers (Off evt hid e') = (handlers e)(evt := (if registered e evt = [] then None else Some (registered e evt)))"
    by (simp add: eq(2) Off_def Let_def)
  also have "\<dots> = handlers e"
    using assms(1) by (auto simp: registered_def emitter_ok_def fun_eq_iff split: option.split)
  finally show ?thesis using fresh eq(1) by simp
qed

theorem off_undoes_on_witness:
  "\<exists>hid e'. On ''tick'' (Plain ''h'') NewEventEmitter = (hid, e') \<and> handlers (Off ''tick'' hid e') = Map.empty"
proof -
  have "ids_bounded NewEventEmitter" "nextID NewEventEmitter \<noteq> -1"
    by (simp_all add: ids_bounded_def registered_def NewEventEmitter_def)
  moreover obtain hid e' where "On ''tick'' (Plain ''h'') NewEventEmitter = (hid, e')" by fastforce
  ultimately show ?thesis
    using off_undoes_on [OF emitter_ok_New] by (fastforce simp: NewEventEmitter_def)
qed

section \<open>Emitting\<close>

text \<open>
  A handler that does what it likes with the emitter, and is recorded in the log.
\<close>

definition logged :: "('h \<Rightarrow> 'd \<Rightarrow> 'x \<Rightarrow> ('t, 'h) EventEmitter \<Rightarrow> ('t, 'h) EventEmitter) \<Rightarrow> 'h \<Rightarrow> 'd \<Rightarrow> 'x
    \<Rightarrow> ('t, 'h) EventEmitter \<times> 'h list \<Rightarrow> ('t, 'h) EventEmitter \<times> 'h list" where
  "logged f u d x = (\<lambda>(e, l). (f u d x e, l @ [u]))"

lemma fold_logged: "snd (fold (call_handler (logged f) d x) hs (e, l)) = l @ map user_handler hs"
  by (induction hs arbitrary: e l) (simp_all add: call_handler_def logged_def)

text \<open>
  C23: an emission calls exactly the handlers registered when it starts, each once, whatever the order in
  which the map is walked and whatever handlers register, unregister or emit on the way.
\<close>

theorem emit_calls_snapshot_once:
  assumes "\<And>xs. mset (order xs) = mset xs"
  shows "mset (snd (Emit order (logged f) evt d x (e, []))) = mset (map (user_handler \<circ> snd) (registered e evt))"
proof -
  have "mset (map user_handler (order (map snd (registered e evt)))) = mset (map user_handler (map snd (registered e evt)))"
    by (metis assms mset_map)
  then show ?thesis by (simp add: Emit_def fold_logged snapshot_def)
qed

theorem emit_calls_snapshot_once_witness:
  "mset (snd (Emit rev (logged (\<lambda>_ _ _ e. e)) ''tick'' () () (snd (On ''tick'' (Plain ''h'') NewEventEmitter), []))) = {#''h''#}"
proof -
  have "mset (rev xs) = mset xs" for xs :: "(string, string) handler list" by simp
  from emit_calls_snapshot_once [OF this, of "\<lambda>_ _ _ e. e" "''tick''" "()" "()" "snd (On ''tick'' (Plain ''h'') NewEventEmitter)"]
  show ?thesis by (simp add: registered_On) (simp add: registered_def NewEventEmitter_def)
qed

text \<open>Handlers that leave the emitter alone: only the closures of \<^verbatim>\<open>Once\<close> change it.\<close>

lemma fold_calls_emitter:
  "fst (fold (call_handler (logged (\<lambda>_ _ _ e. e)) d x) hs (e, l)) = fold before_call hs e"
  by (induction hs arbitrary: e l) (simp_all add: call_handler_def logged_def)

lemma ids_Off [simp]: "ids (Off evt hid e) = ids e"
  by (simp add: Off_def Let_def split: option.split)

lemma ids_before_call [simp]: "ids (before_call h e) = ids e"
  by (cases h) simp_all

lemma before_call_keeps_absent:
  "hid \<notin> fst ` set (registered e evt) \<Longrightarrow> hid \<notin> fst ` set (registered (before_call h e) evt)"
  using dom_delete_subset [of _ "registered e evt"] by (cases h) (auto simp: registered_Off)

lemma fold_before_call_absent:
  "hid \<notin> fst ` set (registered e evt) \<Longrightarrow> hid \<notin> fst ` set (registered (fold before_call hs e) evt)"
  by (induction hs arbitrary: e) (simp_all add: before_call_keeps_absent)

lemma fold_before_call_removes:
  "OnceWrap evt cell u \<in> set hs \<Longrightarrow> ids e ! cell \<notin> fst ` set (registered (fold before_call hs e) evt)"
proof (induction hs arbitrary: e)
  case Nil
  then show ?case by simp
next
  case (Cons h hs)
  show ?case
  proof (cases "h = OnceWrap evt cell u")
    case True
    have "ids e ! cell \<notin> fst ` set (registered (before_call h e) evt)"
      using True delete_notin_dom by (simp add: registered_Off)
    then show ?thesis by (simp add: fold_before_call_absent)
  next
    case False
    with Cons show ?thesis using Cons.IH [of "before_call h e"] by auto
  qed
qed

lemma Once_registers:
  assumes "Once evt u e = (hid, e')"
  shows "(hid, OnceWrap evt (length (ids e)) u) \<in> set (registered e' evt)" "ids e' ! length (ids e) = hid"
proof -
  have "map_of (AList.update k h m) k = Some h" for k h and m :: "(HandlerID \<times> ('a, 'b) handler) list"
    by (simp add: update_conv')
  then have "(k, h) \<in> set (AList.update k h m)" for k h and m :: "(HandlerID \<times> ('a, 'b) handler) list"
    by (meson map_of_SomeD)
  with assms show "(hid, OnceWrap evt (length (ids e)) u) \<in> set (registered e' evt)" "ids e' ! length (ids e) = hid"
    by (auto simp: Once_def once_register_def On_def Let_def once_assign_def registered_def)
qed

text \<open>
  Without concurrency \<^verbatim>\<open>Once\<close> keeps its promise: the first emission calls the handler, and after it the
  handler is not registered any more.
\<close>

theorem once_fires_once_sequentially:
  assumes "\<And>xs. mset (order xs) = mset xs" and "Once evt u e = (hid, e1)"
    and "Emit order (logged (\<lambda>_ _ _ e. e)) evt d x (e1, []) = (e2, calls)"
  shows "u \<in> set calls \<and> hid \<notin> fst ` set (registered e2 evt)"
proof -
  note reg = Once_registers [OF assms(2)]
  have "OnceWrap evt (length (ids e)) u \<in> set (order (map snd (registered e1 evt)))"
    using reg(1) assms(1) [of "map snd (registered e1 evt)"] by (metis image_eqI list.set_map mset_eq_setD snd_conv)
  moreover have "e2 = fold before_call (order (map snd (registered e1 evt))) e1"
    "calls = map user_handler (order (map snd (registered e1 evt)))"
    using assms(3) fold_calls_emitter [of d x "order (map snd (registered e1 evt))" e1 "[]"]
      fold_logged [of "\<lambda>_ _ _ e. e" d x "order (map snd (registered e1 evt))" e1 "[]"]
    by (simp_all add: Emit_def snapshot_def)
  ultimately show ?thesis
    using fold_before_call_removes [of evt "length (ids e)" u _ e1] reg(2) by force
qed

theorem once_fires_once_sequentially_witness:
  "\<exists>hid e1 e2 calls. Once ''tick'' ''h'' NewEventEmitter = (hid, e1)
     \<and> Emit rev (logged (\<lambda>_ _ _ e. e)) ''tick'' () () (e1, []) = (e2, calls)
     \<and> ''h'' \<in> set calls \<and> hid \<notin> fst ` set (registered e2 ''tick'')"
proof -
  have "mset (rev xs) = mset xs" for xs :: "(string, string) handler list" by simp
  moreover obtain hid e1 where o: "Once ''tick'' ''h'' NewEventEmitter = (hid, e1)" by fastforce
  moreover obtain e2 calls where e: "Emit rev (logged (\<lambda>_ _ _ e. e)) ''tick'' () () (e1, []) = (e2, calls)" by fastforce
  ultimately have "''h'' \<in> set calls \<and> hid \<notin> fst ` set (registered e2 ''tick'')"
    by (rule once_fires_once_sequentially [where order = rev])
  with o e show ?thesis by blast
qed

section \<open>Interleavings\<close>

text \<open>
  The goroutines that use one emitter: the handlers each emission in progress still has to call, the
  registrations by \<^verbatim>\<open>Once\<close> whose variable is not assigned yet, and the calls made so far. A step is one
  critical section, or one call with the unregistering before it.
\<close>

record ('t, 'h) em_config =
  em :: "('t, 'h) EventEmitter"
  threads :: "('t, 'h) handler list list"
  assigns :: "(nat \<times> HandlerID) list"
  fired :: "'h list"

inductive em_step :: "('t, 'h) em_config \<Rightarrow> ('t, 'h) em_config \<Rightarrow> bool" where
  step_On: "On evt (Plain u) (em c) = (hid, e) \<Longrightarrow> em_step c (c\<lparr>em := e\<rparr>)"
| step_Off: "em_step c (c\<lparr>em := Off evt hid (em c)\<rparr>)"
| step_register: "once_register evt u (em c) = ((hid, cell), e) \<Longrightarrow> em_step c (c\<lparr>em := e, assigns := assigns c @ [(cell, hid)]\<rparr>)"
| step_assign: "assigns c = as @ (cell, hid) # bs \<Longrightarrow> em_step c (c\<lparr>em := once_assign cell hid (em c), assigns := as @ bs\<rparr>)"
| step_Emit: "mset hs = mset (map snd (registered (em c) evt)) \<Longrightarrow> em_step c (c\<lparr>threads := threads c @ [hs]\<rparr>)"
| step_EmitAsync: "mset hs = mset (map snd (registered (em c) evt)) \<Longrightarrow>
    em_step c (c\<lparr>threads := threads c @ map (\<lambda>h. [h]) hs\<rparr>)"
| step_call: "i < length (threads c) \<Longrightarrow> threads c ! i = h # hs \<Longrightarrow>
    em_step c (c\<lparr>em := before_call h (em c), threads := (threads c)[i := hs], fired := fired c @ [user_handler h]\<rparr>)"

inductive_cases em_step_cases: "em_step c c'"

definition em_initial :: "('t, 'h) em_config" where
  "em_initial = \<lparr>em = NewEventEmitter, threads = [], assigns = [], fired = []\<rparr>"

lemma emitter_ok_before_call: "emitter_ok e \<Longrightarrow> emitter_ok (before_call h e)"
  by (cases h) (simp_all add: emitter_ok_Off)

lemma em_step_ok: "em_step c c' \<Longrightarrow> emitter_ok (em c) \<Longrightarrow> emitter_ok (em c')"
proof (induction rule: em_step.induct)
  case (step_On evt u c hid e)
  then show ?case using emitter_ok_On [of "em c" evt "Plain u"] by simp
next
  case (step_register evt u c hid cell e)
  then show ?case using emitter_ok_once [of "em c" evt u] by simp
qed (simp_all add: emitter_ok_Off emitter_ok_assign emitter_ok_before_call)

text \<open>
  C24: in every interleaving of registrations, unregistrations and emissions the table of handlers stays
  well-formed: no event keeps an empty entry and no identifier occurs twice for an event, also after
  the counter of identifiers wraps around.
\<close>

theorem emitter_ok_reachable: "em_step\<^sup>*\<^sup>* em_initial c \<Longrightarrow> emitter_ok (em c)"
  by (induction rule: rtranclp_induct) (simp_all add: em_initial_def emitter_ok_New em_step_ok)

lemma reach_On: "em_step\<^sup>*\<^sup>* em_initial (em_initial\<lparr>em := snd (On evt (Plain u) NewEventEmitter)\<rparr>)"
  using step_On [of evt u em_initial "fst (On evt (Plain u) NewEventEmitter)" "snd (On evt (Plain u) NewEventEmitter)"]
  by (intro r_into_rtranclp) (simp add: em_initial_def)

theorem emitter_ok_reachable_witness:
  "em_step\<^sup>*\<^sup>* em_initial (em_initial\<lparr>em := snd (On ''tick'' (Plain ''h'') NewEventEmitter)\<rparr>)
   \<and> emitter_ok (snd (On ''tick'' (Plain ''h'') NewEventEmitter))"
  using reach_On [of "''tick''" "''h''"] emitter_ok_reachable [OF reach_On [of "''tick''" "''h''"]] by simp

text \<open>The emitter after one \<^verbatim>\<open>Once\<close>, before and after its variable is assigned.\<close>

definition once_pending :: "'t \<Rightarrow> 'h \<Rightarrow> ('t, 'h) EventEmitter" where
  "once_pending evt u = \<lparr>handlers = [evt \<mapsto> [(1, OnceWrap evt 0 u)]], nextID = 1, ids = [0]\<rparr>"

lemma once_pending_eq: "once_register evt u NewEventEmitter = ((1, 0), once_pending evt u)"
  by (simp add: once_register_def On_def Let_def NewEventEmitter_def once_pending_def registered_def)

text \<open>
  C38: a handler registered with \<^verbatim>\<open>Once\<close> can run twice: two concurrent emissions that both copy the table
  before either calls the handler both call it, although the registration had completed.
\<close>

theorem once_can_fire_twice:
  "\<exists>c. em_step\<^sup>*\<^sup>* \<lparr>em = snd (Once evt u NewEventEmitter), threads = [], assigns = [], fired = []\<rparr> c \<and> fired c = [u, u]"
proof -
  let ?e = "snd (Once evt u NewEventEmitter)" and ?h = "OnceWrap evt 0 u"
  let ?c0 = "\<lparr>em = ?e, threads = [], assigns = [], fired = []\<rparr>"
  have reg: "map snd (registered ?e evt) = [?h]"
    by (simp add: Once_def once_pending_eq once_assign_def once_pending_def registered_def)
  have "em_step ?c0 (?c0\<lparr>threads := [[?h]]\<rparr>)" using step_Emit [of "[?h]" ?c0 evt] reg by simp
  moreover have "em_step (?c0\<lparr>threads := [[?h]]\<rparr>) (?c0\<lparr>threads := [[?h], [?h]]\<rparr>)"
    using step_Emit [of "[?h]" "?c0\<lparr>threads := [[?h]]\<rparr>" evt] reg by simp
  moreover have "em_step (?c0\<lparr>threads := [[?h], [?h]]\<rparr>) (?c0\<lparr>em := before_call ?h ?e, threads := [[], [?h]], fired := [u]\<rparr>)"
    using step_call [of 0 "?c0\<lparr>threads := [[?h], [?h]]\<rparr>" ?h "[]"] by simp
  moreover have "em_step (?c0\<lparr>em := before_call ?h ?e, threads := [[], [?h]], fired := [u]\<rparr>)
      (?c0\<lparr>em := before_call ?h (before_call ?h ?e), threads := [[], []], fired := [u, u]\<rparr>)"
    using step_call [of 1 "?c0\<lparr>em := before_call ?h ?e, threads := [[], [?h]], fired := [u]\<rparr>" ?h "[]"] by simp
  ultimately show ?thesis
    by (intro exI [of _ "?c0\<lparr>em := before_call ?h (before_call ?h ?e), threads := [[], []], fired := [u, u]\<rparr>"])
      (auto intro: converse_rtranclp_into_rtranclp)
qed

text \<open>
  An emission that runs between the registration by \<^verbatim>\<open>Once\<close> and the assignment of the identifier calls the
  handler but unregisters the identifier 0: the handler stays registered after it has run.
\<close>

theorem once_race_stays_registered:
  "\<exists>c. em_step\<^sup>*\<^sup>* em_initial c \<and> fired c = [u] \<and> threads c = [[]] \<and> assigns c = []
    \<and> registered (em c) evt = [(1, OnceWrap evt 0 u)]"
proof -
  let ?e = "once_pending evt u" and ?h = "OnceWrap evt 0 u"
  have "em_step em_initial (em_initial\<lparr>em := ?e, assigns := [(0, 1)]\<rparr>)"
    using step_register [of evt u em_initial 1 0 ?e] by (simp add: em_initial_def once_pending_eq)
  moreover have "em_step (em_initial\<lparr>em := ?e, assigns := [(0, 1)]\<rparr>) (em_initial\<lparr>em := ?e, assigns := [(0, 1)], threads := [[?h]]\<rparr>)"
    using step_Emit [of "[?h]" "em_initial\<lparr>em := ?e, assigns := [(0, 1)]\<rparr>" evt]
    by (simp add: em_initial_def once_pending_def registered_def)
  moreover have "before_call ?h ?e = ?e"
    by (simp add: once_pending_def Off_def)
  then have "em_step (em_initial\<lparr>em := ?e, assigns := [(0, 1)], threads := [[?h]]\<rparr>)
      (em_initial\<lparr>em := ?e, assigns := [(0, 1)], threads := [[]], fired := [u]\<rparr>)"
    using step_call [of 0 "em_initial\<lparr>em := ?e, assigns := [(0, 1)], threads := [[?h]]\<rparr>" ?h "[]"]
    by (simp add: em_initial_def)
  moreover have "em_step (em_initial\<lparr>em := ?e, assigns := [(0, 1)], threads := [[]], fired := [u]\<rparr>)
      (em_initial\<lparr>em := once_assign 0 1 ?e, assigns := [], threads := [[]], fired := [u]\<rparr>)"
    using step_assign [of "em_initial\<lparr>em := ?e, assigns := [(0, 1)], threads := [[]], fired := [u]\<rparr>" "[]" 0 1 "[]"]
    by (simp add: em_initial_def)
  ultimately have "em_step\<^sup>*\<^sup>* em_initial (em_initial\<lparr>em := once_assign 0 1 ?e, assigns := [], threads := [[]], fired := [u]\<rparr>)"
    by (auto intro: converse_rtranclp_into_rtranclp)
  then show ?thesis
    by (rule exI [where x = "em_initial\<lparr>em := once_assign 0 1 ?e, assigns := [], threads := [[]], fired := [u]\<rparr>", OF conjI])
      (simp add: once_assign_def once_pending_def registered_def)
qed

end
