(* ===== verification/Debouncer.thy ===== *)
theory Debouncer
  imports Prelude
begin

text \<open>
  The debouncer of \<^verbatim>\<open>debouncer/debouncer.go\<close> with the runtime's timers. Times are integers in nanoseconds. The runtime
  holds any number of pending timers, each with its deadline; it starts the action of a pending timer at any time
  from the deadline on, not exactly there. A schedule says when time passes, when \<^verbatim>\<open>Call\<close> is called and when a timer
  fires; a call holds the mutex, so it is one step. \<open>calls\<close> are the times of the calls and \<open>fired\<close> the timers that
  have fired, with the time at which their action was started; the action itself is the caller's.
\<close>

record Debouncer =
  timer :: "nat option"
  delay :: int

definition NewDebouncer :: "int \<Rightarrow> Debouncer" where
  "NewDebouncer d = \<lparr>timer = None, delay = d\<rparr>"

record timers =
  clock :: int
  pending :: "(nat \<times> int) list"
  fresh :: nat
  fired :: "(nat \<times> int) list"

text \<open>\<^verbatim>\<open>time.AfterFunc\<close>, whose timer is due at once when the duration is not positive, and \<^verbatim>\<open>Stop\<close>.\<close>

definition AfterFunc :: "int \<Rightarrow> timers \<Rightarrow> nat \<times> timers" where
  "AfterFunc d ts = (fresh ts, ts\<lparr>pending := pending ts @ [(fresh ts, clock ts + max 0 d)], fresh := Suc (fresh ts)\<rparr>)"

definition Stop :: "nat \<Rightarrow> timers \<Rightarrow> timers" where
  "Stop i ts = ts\<lparr>pending := filter (\<lambda>(j, _). j \<noteq> i) (pending ts)\<rparr>"

definition Call :: "Debouncer \<Rightarrow> timers \<Rightarrow> Debouncer \<times> timers" where
  "Call d ts =
     (let ts' = (case timer d of None \<Rightarrow> ts | Some i \<Rightarrow> Stop i ts); (i, ts'') = AfterFunc (delay d) ts' in
      (d\<lparr>timer := Some i\<rparr>, ts''))"

subsection \<open>Schedules\<close>

datatype debounce_action = Passes nat | Calls | Fires nat

record debounce_state =
  deb :: Debouncer
  runtime :: timers
  calls :: "int list"

fun debounce_act :: "debounce_action \<Rightarrow> debounce_state \<Rightarrow> debounce_state" where
  "debounce_act (Passes t) s = s\<lparr>runtime := (runtime s)\<lparr>clock := clock (runtime s) + int t\<rparr>\<rparr>"
| "debounce_act Calls s =
     (case Call (deb s) (runtime s) of (d, ts) \<Rightarrow> s\<lparr>deb := d, runtime := ts, calls := calls s @ [clock (runtime s)]\<rparr>)"
| "debounce_act (Fires i) s = (let ts = runtime s in
     case map_of (pending ts) i of
       None \<Rightarrow> s
     | Some t \<Rightarrow> if t \<le> clock ts then s\<lparr>runtime := (Stop i ts)\<lparr>fired := fired ts @ [(i, clock ts)]\<rparr>\<rparr> else s)"

definition run_debouncer :: "int \<Rightarrow> debounce_action list \<Rightarrow> debounce_state" where
  "run_debouncer d sched = fold debounce_act sched
     \<lparr>deb = NewDebouncer d, runtime = \<lparr>clock = 0, pending = [], fresh = 0, fired = []\<rparr>, calls = []\<rparr>"

text \<open>
  The timer of call \<open>k\<close> is timer \<open>k\<close>. It fires no earlier than the delay after its call and not after the next call;
  it fires at most once, in the order of the calls; only the last call's can be pending, and it is until it fires.
\<close>

definition fires_ok :: "int \<Rightarrow> int list \<Rightarrow> nat \<times> int \<Rightarrow> bool" where
  "fires_ok d cs f \<longleftrightarrow> (case f of (k, t) \<Rightarrow>
     k < length cs \<and> cs ! k + max 0 d \<le> t \<and> (Suc k < length cs \<longrightarrow> t \<le> cs ! Suc k))"

definition debounced :: "int \<Rightarrow> debounce_state \<Rightarrow> bool" where
  "debounced d s \<longleftrightarrow> (let n = length (calls s); ts = runtime s in
     (\<forall>f \<in> set (fired ts). fires_ok d (calls s) f) \<and> sorted_wrt (<) (map fst (fired ts))
     \<and> pending ts = (if n = 0 \<or> n - 1 \<in> fst ` set (fired ts) then [] else [(n - 1, last (calls s) + max 0 d)]))"

definition debounce_inv :: "int \<Rightarrow> debounce_state \<Rightarrow> bool" where
  "debounce_inv d s \<longleftrightarrow> debounced d s \<and> delay (deb s) = d \<and> fresh (runtime s) = length (calls s)
     \<and> timer (deb s) = (if calls s = [] then None else Some (length (calls s) - 1))
     \<and> (\<forall>f \<in> set (fired (runtime s)). snd f \<le> clock (runtime s))"

lemma fires_ok_later:
  assumes "fires_ok d cs f" and "snd f \<le> t"
  shows "fires_ok d (cs @ [t]) f"
  using assms by (auto simp: fires_ok_def nth_append less_Suc_eq split: prod.splits)

lemma debounce_inv_call:
  assumes "debounce_inv d s"
  shows "debounce_inv d (debounce_act Calls s)"
proof -
  let ?ts = "runtime s" and ?n = "length (calls s)"
  have no: "?n \<notin> fst ` set (fired ?ts)" using assms by (fastforce simp: debounce_inv_def debounced_def fires_ok_def Let_def)
  have "pending (case timer (deb s) of None \<Rightarrow> ?ts | Some i \<Rightarrow> Stop i ?ts) = []"
    using assms by (auto simp: debounce_inv_def debounced_def Stop_def Let_def split: if_splits)
  then have call: "pending (snd (Call (deb s) ?ts)) = [(?n, clock ?ts + max 0 d)]" "fired (snd (Call (deb s) ?ts)) = fired ?ts"
      "fresh (snd (Call (deb s) ?ts)) = Suc ?n" "clock (snd (Call (deb s) ?ts)) = clock ?ts"
      "fst (Call (deb s) ?ts) = (deb s)\<lparr>timer := Some ?n\<rparr>"
    using assms by (auto simp: Call_def AfterFunc_def Stop_def debounce_inv_def Let_def split: option.splits)
  show ?thesis
    using assms no call fires_ok_later [of d "calls s" _ "clock ?ts"]
    by (auto simp: debounce_inv_def debounced_def Let_def case_prod_beta)
qed

lemma debounce_inv_fire:
  assumes "debounce_inv d s"
  shows "debounce_inv d (debounce_act (Fires i) s)"
proof (cases "map_of (pending (runtime s)) i")
  case (Some t)
  let ?ts = "runtime s" and ?n = "length (calls s) - 1"
  from assms Some have i: "i = ?n" "calls s \<noteq> []" "t = last (calls s) + max 0 d" and pending: "pending ?ts = [(?n, t)]"
      and new: "?n \<notin> fst ` set (fired ?ts)"
    by (auto simp: debounce_inv_def debounced_def Let_def split: if_splits)
  have "j < ?n" if "(j, u) \<in> set (fired ?ts)" for j u
  proof -
    have "fires_ok d (calls s) (j, u)" using assms that by (auto simp: debounce_inv_def debounced_def Let_def)
    then have "j \<le> ?n" by (auto simp: fires_ok_def)
    moreover have "j \<noteq> ?n" using new that by force
    ultimately show ?thesis by simp
  qed
  then have sorted: "sorted_wrt (<) (map fst (fired ?ts) @ [?n])"
    using assms by (auto simp: debounce_inv_def debounced_def sorted_wrt_append Let_def)
  show ?thesis
  proof (cases "t \<le> clock ?ts")
    case True
    then have fires: "fires_ok d (calls s) (?n, clock ?ts)" using i by (simp add: fires_ok_def last_conv_nth)
    have "debounce_act (Fires i) s = s\<lparr>runtime := ?ts\<lparr>pending := [], fired := fired ?ts @ [(?n, clock ?ts)]\<rparr>\<rparr>"
      using True Some pending by (simp add: Stop_def Let_def i(1))
    with assms fires sorted show ?thesis by (simp add: debounce_inv_def debounced_def Let_def)
  qed (use assms Some in simp)
qed (use assms in simp)

lemma run_debouncer_inv: "debounce_inv d (run_debouncer d sched)"
proof (induction sched rule: rev_induct)
  case Nil
  show ?case by (simp add: run_debouncer_def NewDebouncer_def debounce_inv_def debounced_def)
next
  case (snoc act sched)
  have run: "run_debouncer d (sched @ [act]) = debounce_act act (run_debouncer d sched)" by (simp add: run_debouncer_def)
  show ?case
  proof (cases act)
    case (Passes t)
    with snoc show ?thesis unfolding run by (fastforce simp: debounce_inv_def debounced_def Let_def)
  next
    case Calls
    with snoc show ?thesis unfolding run by (simp only: debounce_inv_call)
  next
    case (Fires i)
    with snoc show ?thesis unfolding run by (simp only: debounce_inv_fire)
  qed
qed

subsection \<open>One run per burst\<close>

lemma last_call_runs:
  assumes "debounce_inv d s" and "calls s \<noteq> []"
  shows "length (calls s) - 1 \<in> fst ` set (fired (runtime
    (fold debounce_act [Passes (nat (last (calls s) + max 0 d - clock (runtime s))), Fires (length (calls s) - 1)] s)))"
  using assms by (auto simp: debounce_inv_def debounced_def Let_def Stop_def)

text \<open>
  C30: on every schedule, the timer of a call fires at most once, in the order of the calls, no earlier than the
  delay after its call and never after the next call; so a call that another one follows within the delay does
  not run the action. No timer is pending but that of the last call, which is pending until it fires: once the delay
  has passed the runtime can start it, and then the action has run for the last call.
\<close>

theorem debouncer_runs_once_per_burst:
  "let s = run_debouncer d sched; n = length (calls s); ts = runtime s in
     (\<forall>(k, t) \<in> set (fired ts). k < n \<and> calls s ! k + max 0 d \<le> t \<and> (Suc k < n \<longrightarrow> t \<le> calls s ! Suc k))
   \<and> sorted_wrt (<) (map fst (fired ts))
   \<and> pending ts = (if n = 0 \<or> n - 1 \<in> fst ` set (fired ts) then [] else [(n - 1, last (calls s) + max 0 d)])
   \<and> (n \<noteq> 0 \<longrightarrow> n - 1 \<in> fst ` set (fired (runtime
         (run_debouncer d (sched @ [Passes (nat (last (calls s) + max 0 d - clock ts)), Fires (n - 1)])))))"
proof -
  have run: "run_debouncer d (sched @ more) = fold debounce_act more (run_debouncer d sched)" for more
    by (simp add: run_debouncer_def)
  note inv = run_debouncer_inv [of d sched]
  from inv last_call_runs [OF inv] show ?thesis
    unfolding Let_def run by (simp add: debounce_inv_def debounced_def fires_ok_def Let_def case_prod_beta)
qed

text \<open>Four calls: the timer of the second fires late, that of the fourth after two nanoseconds more.\<close>

definition ex_calls :: "debounce_action list" where
  "ex_calls = [Calls, Passes 5, Calls, Fires 0, Passes 12, Fires 0, Fires 1, Passes 20, Calls, Passes 3, Calls, Passes 8, Fires 2, Fires 3]"

theorem debouncer_runs_once_per_burst_witness:
  "fired (runtime (run_debouncer 10 ex_calls)) = [(1, 17)] \<and> calls (run_debouncer 10 ex_calls) = [0, 5, 37, 40]
   \<and> pending (runtime (run_debouncer 10 ex_calls)) = [(3, 50)]
   \<and> 3 \<in> fst ` set (fired (runtime (run_debouncer 10 (ex_calls @ [Passes 2, Fires 3]))))"
proof -
  have ex: "fired (runtime (run_debouncer 10 ex_calls)) = [(1, 17)]" "calls (run_debouncer 10 ex_calls) = [0, 5, 37, 40]"
      "clock (runtime (run_debouncer 10 ex_calls)) = 48" by code_simp+
  with debouncer_runs_once_per_burst [of 10 ex_calls] show ?thesis by (simp add: Let_def eval_nat_numeral)
qed

end
