(* ===== verification/Spec2Isabelle.thy ===== *)
theory Spec2Isabelle
  imports Stream_Channel WebSocket_Reconnect Storage Base_Engine Pg_Migrations Logger Emitter Debouncer
begin

text \<open>
  Verification of \<^verbatim>\<open>deskaone-sdk\<close>, a Go library with a byte-stream buffer, TCP, TLS, HTTP and WebSocket
  clients that can go through proxies, an encrypted key-value file, a small database layer for SQLite and
  PostgreSQL, a terminal logger, an event emitter and a debouncer.

  \<^bold>\<open>How the parts interact.\<close> \<^verbatim>\<open>HTTPClient\<close> and \<^verbatim>\<open>WebSocketClient\<close> ask the dialler for a connection; the dialler asks a
  proxy picker for a configuration, dials the proxy or the target, runs the SOCKS or CONNECT handshake on
  the new connection and hands it to \<^verbatim>\<open>NewTCPClient\<close> or \<^verbatim>\<open>NewTLSClient\<close>. The HTTP client writes a request and
  parses the reply through a \<^verbatim>\<open>bufio.Reader\<close>, whose remaining bytes feed the body readers; redirects and retries
  are loops around that exchange. The WebSocket client sends its handshake the same way and then exchanges
  frames; \<^verbatim>\<open>ReconnectWebSocketClient\<close> runs such clients one after the other. \<^verbatim>\<open>BaseEngine\<close> writes its statements with
  the dialect of the database engine, whose migrations and maintenance run on the same handle. The
  logger formats with \<^verbatim>\<open>termcolor\<close>. Storage, emitter, debouncer and \<^verbatim>\<open>NetworkStream\<close> stand alone.

  \<^bold>\<open>Language and libraries.\<close>
  \<^item> \<^verbatim>\<open>Prelude\<close>: bytes and machine integers as words, byte orders, error values (\<open>go_error\<close>), outcomes with
    run-time panics, the composition of steps that can fail, the rule collections.
  \<^item> \<^verbatim>\<open>Go_Strings\<close>, \<^verbatim>\<open>Go_Url\<close>, \<^verbatim>\<open>Go_Path\<close>: what the sources use of \<^verbatim>\<open>strings\<close>, \<^verbatim>\<open>strconv\<close>, \<^verbatim>\<open>net/url\<close>, \<^verbatim>\<open>net\<close> and \<^verbatim>\<open>path\<close>.
  \<^item> \<^verbatim>\<open>Net_Conn\<close>, \<^verbatim>\<open>Bufio\<close>: connections with an arbitrary script of reads and writes, \<^verbatim>\<open>io.ReadFull\<close>, \<^verbatim>\<open>io.ReadAll\<close>
    and \<^verbatim>\<open>bufio.Reader\<close>. A statement for all scripts is one for all peers and all ways data are cut. Where a theorem needs it,
    the script is \<open>regular\<close>: a read gives data, or an error alone, or data together with \<^verbatim>\<open>io.EOF\<close>, as \<^verbatim>\<open>crypto/tls\<close> does.

  \<^bold>\<open>Network.\<close>
  \<^item> \<^verbatim>\<open>Network_Stream\<close>, \<^verbatim>\<open>Stream_Channel\<close> (\<^verbatim>\<open>network/network_stream.go\<close>): the record \<open>network_stream\<close> has the fields of the
    struct, one definition per method; the channels and the goroutines of \<^verbatim>\<open>Listen\<close> are \<open>chan_step\<close>, with
    receives and callbacks as separate steps. Shown: the fields stay consistent, the methods refine a cursor over a plain
    byte sequence, values are read back as written, deliveries are in order for each listener (two listeners can call
    back out of order), and a write to a stream of capacity 0 never returns.
  \<^item> \<^verbatim>\<open>Proxy\<close> (\<^verbatim>\<open>proxy/*.go\<close>): types, configurations, \<^verbatim>\<open>ParseProxyURL\<close> and the pickers. Shown: the textual form of a
    valid configuration parses back, round robin visits the proxies in turn, with its counter wrapping.
  \<^item> \<^verbatim>\<open>Tcp_Client\<close> (\<^verbatim>\<open>network/tcp_client.go\<close>): \<^verbatim>\<open>Write\<close>, \<^verbatim>\<open>WriteFull\<close>, \<^verbatim>\<open>Read\<close>, \<^verbatim>\<open>ReadFull\<close>, \<^verbatim>\<open>Close\<close>; \<^verbatim>\<open>Listen\<close> is \<open>listen_step\<close>. Shown:
    everything or a prefix is sent, the callbacks come as data, then at most one error, then one done.
  \<^item> \<^verbatim>\<open>Socks\<close>, \<^verbatim>\<open>Http_Connect\<close> (\<^verbatim>\<open>network/handler/*.go\<close>): the handshakes over a connection, on every reply and error.
    Shown: when exactly they succeed, what they send, and that no byte behind the reply is lost.
  \<^item> \<^verbatim>\<open>Dialler\<close> (\<^verbatim>\<open>network/dialler.go\<close>, \<^verbatim>\<open>network/tls_client.go\<close>, \<^verbatim>\<open>NewTCPClient\<close>): direct and proxied dialling. Shown: a proxied
    client sees the target's bytes, a failed handshake closes what was opened.
  \<^item> \<^verbatim>\<open>Http_Message\<close>, \<^verbatim>\<open>Http_Body\<close>, \<^verbatim>\<open>Http_Client\<close> (\<^verbatim>\<open>network/http_client.go\<close>): messages, bodies, and the client. A header map
    is a list of its entries, and \<^verbatim>\<open>getHeader\<close> has the order in which Go walks it as an argument. Shown: the
    chunked reader agrees with a pure decoder on every raw stream, an exchange returns the response the
    server sent, redirects follow a specification and are bounded, retries are bounded.
  \<^item> \<^verbatim>\<open>WebSocket_Frame\<close>, \<^verbatim>\<open>WebSocket_Client\<close> (\<^verbatim>\<open>network/websocket_client.go\<close>): frames, handshake, \<^verbatim>\<open>ReadMessage\<close>, closing; \<^verbatim>\<open>Listen\<close> and
    \<^verbatim>\<open>StartPing\<close> are \<open>ws_listen_step\<close>. Shown: frames round-trip, the handshake succeeds exactly on an acceptable
    reply (and refuses a right one when the caller sets a key of its own), messages are reassembled as a pure function of the frames says, callbacks are ordered.
  \<^item> \<^verbatim>\<open>WebSocket_Reconnect\<close> (\<^verbatim>\<open>network/websocket_reconnect.go\<close>): \<^verbatim>\<open>Run\<close>, the goroutines of each session and the context as a
    machine driven by an arbitrary schedule (\<open>run_act\<close>). Shown: with a bound on reconnects it makes boundedly many moves and
    stands still only in a session that goes on; on every schedule the callbacks are whole sessions, the clients it
    leaves are closed, and after it has returned no open client is current.

  \<^bold>\<open>Storage and database.\<close>
  \<^item> \<^verbatim>\<open>Storage\<close> (\<^verbatim>\<open>storage/storage.go\<close>): all operations on the store, its file and its backup. Shown: a document of JSON
    values is there again after a restart, given that \<^verbatim>\<open>encoding/json\<close> gives such documents back (\<open>json_law\<close>), a damaged file is replaced from the backup, the padding test is exact.
  \<^item> \<^verbatim>\<open>Sql_Dialect\<close> (\<^verbatim>\<open>database/dialect.go\<close>, \<^verbatim>\<open>sqlite.go\<close>, \<^verbatim>\<open>postgres.go\<close>, \<^verbatim>\<open>errors.go\<close>): identifiers and statements, verified with a lexer
    for SQL: whatever the names, a statement has the fixed shape.
  \<^item> \<^verbatim>\<open>Db_Engine\<close> (\<^verbatim>\<open>database/engine.go\<close>, \<^verbatim>\<open>migration.go\<close>, \<^verbatim>\<open>scheduler.go\<close>, \<^verbatim>\<open>config.go\<close>): opening, migrations, maintenance. Shown: a migration
    list is applied as a whole or not at all, a failed open leaves no handle, maintenance is only decided when the
    writes notified so far are 30 seconds old. The check and the run are separate events of \<open>scheduler_act\<close>.
  \<^item> \<^verbatim>\<open>Base_Engine\<close> (\<^verbatim>\<open>database/base_engine.go\<close>): the table operations. Shown: batches are all or nothing. This theory
    adds the composition with the dialects.
  \<^item> \<^verbatim>\<open>Pg_Migrations\<close> (\<^verbatim>\<open>database/postgres/postgres.go\<close>): the embedded migrations. Shown: they refine a specification over the set
    of applied versions, a second run changes nothing if the migrations leave their own records alone, the sort is the stable sort by version.

  \<^bold>\<open>Terminal and events.\<close>
  \<^item> \<^verbatim>\<open>Termcolor\<close>, \<^verbatim>\<open>Logger\<close> (\<^verbatim>\<open>termcolor/termcolor.go\<close>, \<^verbatim>\<open>logger/logger.go\<close>): colours, log lines, boxes, panels, spinner as the text printed,
    with the panics the code has on small sizes. Shown: a panel keeps the last lines.
  \<^item> \<^verbatim>\<open>Emitter\<close> (\<^verbatim>\<open>emitter/emitter.go\<close>): registration and emission; goroutines are \<open>em_step\<close>. Shown: the state stays well formed,
    an emission calls each handler of its snapshot once, a once-handler can run twice under concurrency.
  \<^item> \<^verbatim>\<open>Debouncer\<close> (\<^verbatim>\<open>debouncer/debouncer.go\<close>): calls, time and the runtime's pending timers under an arbitrary schedule.
    Shown: one run per burst, after its last call.

  \<^bold>\<open>Interfaces.\<close> Locales state what a client relies on; each is interpreted on the definitions of the model.
  \<^item> \<open>fixed_codec\<close>: encoding and decoding of a fixed-width value, for the widths of \<^verbatim>\<open>NetworkStream\<close>.
  \<^item> \<open>byte_source\<close>, \<open>reader\<close>: the contract of \<^verbatim>\<open>io.Reader\<close>, for connections, \<^verbatim>\<open>bufio\<close> readers, chunked and all other bodies.
  \<^item> \<open>full_reader\<close>: what the frame reader needs of \<^verbatim>\<open>io.ReadFull\<close>, for connections and \<^verbatim>\<open>bufio\<close> readers.
  \<^item> \<open>picker\<close>: a proxy picker over a list, for the round-robin and the single picker.
  \<^item> \<open>redirect_follower\<close>: the redirect loop, for the buffered and the streaming client.
  \<^item> \<open>sql_dialect\<close>: quoting and placeholders, for both dialects.
  \<^item> \<open>tx_loop\<close>: a loop of statements in one transaction, for migrations and batches.

  \<^bold>\<open>Parameters.\<close> Code outside the repository is an argument, with its documented behaviour as a named
  hypothesis where a theorem needs it: the operating system's dialler, the TLS handshake, \<^verbatim>\<open>crypto/rand\<close>, SHA-1 and
  SHA-256, the AES block cipher (\<open>storage_env\<close>; CBC is modelled), \<^verbatim>\<open>encoding/json\<close>, the decompressors, \<^verbatim>\<open>database/sql\<close> with
  its drivers (\<open>sql_ops\<close>, \<open>transactional\<close>), pgx (\<open>pg_ops\<close>), the letters of package \<^verbatim>\<open>unicode\<close> outside ASCII (\<open>uni\<close>), the
  clock, the terminal's size and the order in which Go walks a map.

  \<^bold>\<open>Loops, bounds and fuel.\<close> Loops over a connection have fuel or a measure taken from the connection's script, which each
  read shortens (\<open>nbudget\<close>, \<open>bufio_budget\<close>): \<^verbatim>\<open>ReadFull\<close>, \<^verbatim>\<open>ReadAll\<close> and \<^verbatim>\<open>readHeaders\<close> are called with more fuel than the script
  is long, and their lemmas show that this gives the result. A \<^verbatim>\<open>bufio\<close> fill gives up after
  100 empty reads, as in Go. The doubling loop of \<^verbatim>\<open>ensureCapacity\<close> is a \<^verbatim>\<open>partial_function\<close>: \<^term>\<open>None\<close> is
  divergence, and both cases are proved. \<^verbatim>\<open>Run\<close> of the reconnecting client, the maintenance
  scheduler and the debouncer have no fuel: a schedule of any length drives them, and a statement for all schedules
  holds at every moment of a run that never ends.

  \<^bold>\<open>Not modelled.\<close> The programs under \<^verbatim>\<open>cmd/\<close> and \<^verbatim>\<open>examples/\<close> only call the packages and print. \<^verbatim>\<open>enable_windows.go\<close> makes two
  system calls, \<^verbatim>\<open>token_store.go\<close> declares an interface, \<^verbatim>\<open>doc.go\<close> is a comment. Within the packages: mutexes around
  whole methods (the methods are atomic), \<^verbatim>\<open>ensureParent\<close> (a directory is created), accessors that return a field, tests for
  nil receivers, the elapsed time in debug information, what \<^verbatim>\<open>vacuum\<close> prints, and socket options.
\<close>

section \<open>Properties that span components\<close>

lemma validateIdentifiers_None: "validateIdentifiers uni names = None \<longleftrightarrow> list_all (\<lambda>n. validateIdentifier uni n = None) names"
  by (induction names) (auto split: option.splits)

lemma upsert_checks_None:
  "upsert_checks uni spec updateColumns = None \<Longrightarrow> validateIdentifier uni (Table spec) = None
     \<and> list_all (\<lambda>n. validateIdentifier uni n = None) (Columns spec @ ConflictColumns spec @ updateColumns)
     \<and> ConflictColumns spec \<noteq> []"
  by (auto simp: upsert_checks_def validateTableAndColumns_def validateIdentifiers_None split: option.splits if_splits)

text \<open>
  C36: the checks of the table engine are what the dialects need. Whatever names a specification has, a
  successful \<^verbatim>\<open>UpsertBatch\<close> ran every row, in order and in one transaction, with a statement that consists of the
  fixed keywords, those names as quoted identifiers and one parameter per column; a failed one leaves
  the data as they were, and no transaction stays open.
\<close>

theorem upsert_batch_injection_free_and_atomic:
  assumes "transactional ops v" and "\<not> in_tx v w" and "entities \<noteq> []"
    and "UpsertBatch uni ops now spec entities updateColumns (e, w) = (r, e', w')"
  shows "\<not> in_tx v w' \<and> (if r = Inr ()
    then \<exists>q. sql_tokens q = Some ([Word ''INSERT''] @ insert_tokens (engine_dialect e) (Table spec) (Columns spec)
          @ [Word ''ON'', Word ''CONFLICT'', Sym CHR ''(''] @ name_tokens (ConflictColumns spec)
          @ [Sym CHR '')'', Word ''DO'', Word ''UPDATE'', Word ''SET''] @ assignment_tokens updateColumns)
        \<and> committed v w' = fold (\<lambda>x. effect v q (Values spec x)) entities (committed v w)
    else committed v w' = committed v w)"
proof (cases "upsert_checks uni spec updateColumns")
  case (Some er)
  with assms(3,4) have "r = Inl er" by (simp add: UpsertBatch_def checkE_def)
  with upsert_batch_all_or_nothing [OF assms(1,2,4)] show ?thesis by simp
next
  case None
  note checks = upsert_checks_None [OF None]
  let ?q = "Upsert uni (engine_dialect e) (Table spec) (Columns spec) (ConflictColumns spec) updateColumns"
  have "sql_tokens ?q = Some ([Word ''INSERT''] @ insert_tokens (engine_dialect e) (Table spec) (Columns spec)
      @ [Word ''ON'', Word ''CONFLICT'', Sym CHR ''(''] @ name_tokens (ConflictColumns spec)
      @ [Sym CHR '')'', Word ''DO'', Word ''UPDATE'', Word ''SET''] @ assignment_tokens updateColumns)"
    using checks by (intro Upsert_tokens) simp_all
  with upsert_batch_all_or_nothing [OF assms(1,2,4)] show ?thesis by (auto intro: exI [of _ ?q])
qed

theorem upsert_batch_injection_free_and_atomic_witness:
  "fst (UpsertBatch (\<lambda>_. False) mem_ops 0 pair_spec [(1, 1), (2, 2)] [''n''] (sqlite_engine, mem_empty)) = Inr ()
   \<and> (\<exists>q. sql_tokens q = Some [Word ''INSERT'', Word ''INTO'', Quoted ''t'', Sym CHR ''('', Quoted ''id'', Sym CHR '','', Quoted ''n'',
          Sym CHR '')'', Word ''VALUES'', Sym CHR ''('', Param ''?'', Sym CHR '','', Param ''?'', Sym CHR '')'',
          Word ''ON'', Word ''CONFLICT'', Sym CHR ''('', Quoted ''id'', Sym CHR '')'', Word ''DO'', Word ''UPDATE'', Word ''SET'',
          Quoted ''n'', Sym CHR ''='', Word ''EXCLUDED'', Sym CHR ''.'', Quoted ''n'']
        \<and> mem_committed (snd (snd (UpsertBatch (\<lambda>_. False) mem_ops 0 pair_spec [(1, 1), (2, 2)] [''n''] (sqlite_engine, mem_empty))))
          = [(q, [Value 1, Value 1]), (q, [Value 2, Value 2])])"
proof -
  let ?run = "UpsertBatch (\<lambda>_. False) mem_ops 0 pair_spec [(1, 1), (2, 2)] [''n''] (sqlite_engine, mem_empty)"
  have i: "\<not> in_tx mem_view mem_empty" by (simp add: mem_view_def mem_empty_def)
  have ok: "fst ?run = Inr ()" by code_simp
  then obtain e' w' where r: "?run = (Inr (), e', w')" by (metis prod.collapse)
  have tokens: "[Word ''INSERT''] @ insert_tokens (engine_dialect sqlite_engine) (Table pair_spec) (Columns pair_spec)
      @ [Word ''ON'', Word ''CONFLICT'', Sym CHR ''(''] @ name_tokens (ConflictColumns pair_spec)
      @ [Sym CHR '')'', Word ''DO'', Word ''UPDATE'', Word ''SET''] @ assignment_tokens [''n'']
    = [Word ''INSERT'', Word ''INTO'', Quoted ''t'', Sym CHR ''('', Quoted ''id'', Sym CHR '','', Quoted ''n'',
          Sym CHR '')'', Word ''VALUES'', Sym CHR ''('', Param ''?'', Sym CHR '','', Param ''?'', Sym CHR '')'',
          Word ''ON'', Word ''CONFLICT'', Sym CHR ''('', Quoted ''id'', Sym CHR '')'', Word ''DO'', Word ''UPDATE'', Word ''SET'',
          Quoted ''n'', Sym CHR ''='', Word ''EXCLUDED'', Sym CHR ''.'', Quoted ''n'']"
    by code_simp
  have "committed mem_view w' = mem_committed w'" "committed mem_view mem_empty = []"
    "fold (\<lambda>x. effect mem_view q (Values pair_spec x)) [(1, 1), (2, 2)] [] = [(q, [Value 1, Value 1]), (q, [Value 2, Value 2])]" for q
    by (simp_all add: mem_view_def mem_empty_def pair_spec_def)
  with upsert_batch_injection_free_and_atomic [OF mem_transactional i _ r] ok r show ?thesis
    unfolding tokens by auto
qed

end
